(* ===== verification/Prelude.thy ===== *)
theory Prelude
  imports Main "HOL-Library.Word"
begin

text \<open>
  The shared vocabulary of the development: the machine integers of the kernel and of the TagFS
  tools, the result type of every operation that can stop before it returns, and the generic
  facts on words, bits and searches that the component theories use.

  Every operation of the C code either returns, stops the processor in \<open>assert\<close>
  (\<open>src/src/kernel/kernel.c\<close>), performs an access the language leaves undefined, or keeps looping.
  The type \<open>outcome\<close> has one constructor for each of the four.
\<close>

unbundle bit_operations_syntax

section \<open>Types\<close>

type_synonym u8 = "8 word"
type_synonym u16 = "16 word"
type_synonym u32 = "32 word"
type_synonym u64 = "64 word"

datatype 'a outcome =
    Ok 'a
  | Halted string
  | Fault string
  | Diverged

fun obind :: "'a outcome \<Rightarrow> ('a \<Rightarrow> 'b outcome) \<Rightarrow> 'b outcome" where
  "obind (Ok x) f = f x"
| "obind (Halted e) f = Halted e"
| "obind (Fault e) f = Fault e"
| "obind Diverged f = Diverged"

definition ASSERT :: "bool \<Rightarrow> string \<Rightarrow> unit outcome" where
  "ASSERT c msg = (if c then Ok () else Halted msg)"

text \<open>The bytes of a string literal, without the terminator.\<close>

definition ascii :: "string \<Rightarrow> u8 list" where
  "ascii s = map (\<lambda>c. of_nat (of_char c)) s"

section \<open>Bit counting built-ins\<close>

text \<open>The compiler built-ins the kernel calls, on 32-bit operands.\<close>

definition builtin_popcount :: "u32 \<Rightarrow> nat" where
  "builtin_popcount w = length (filter (bit w) [0..<32])"

definition builtin_ctz :: "u32 \<Rightarrow> nat" where
  "builtin_ctz w = length (takeWhile (\<lambda>i. \<not> bit w i) [0..<32])"

definition align_backwards :: "u32 \<Rightarrow> u32 \<Rightarrow> u32 outcome" where
  "align_backwards sz alignment =
     obind (ASSERT (builtin_popcount alignment = 1) ''alignment is not a power of 2'') (\<lambda>_.
     Ok (sz AND NOT (alignment - 1)))"

definition align_forward :: "u32 \<Rightarrow> u32 \<Rightarrow> u32 outcome" where
  "align_forward sz alignment =
     obind (ASSERT (builtin_popcount alignment = 1) ''alignment is not a power of 2'') (\<lambda>_.
     Ok ((sz + alignment - 1) AND NOT (alignment - 1)))"

section \<open>Collections\<close>

named_theorems outcome_simps \<open>unfolding of the outcome plumbing\<close>
named_theorems layout_defs \<open>constants of the memory layout\<close>

section \<open>Outcomes\<close>

lemma obind_eq_Ok [simp]: "obind m f = Ok y \<longleftrightarrow> (\<exists>x. m = Ok x \<and> f x = Ok y)"
  by (cases m) auto

lemma obind_assoc: "obind (obind m f) g = obind m (\<lambda>x. obind (f x) g)"
  by (cases m) auto

lemma obind_Ok_right [simp]: "obind m Ok = m"
  by (cases m) auto

lemma ASSERT_eq_Ok [simp]: "ASSERT c msg = Ok u \<longleftrightarrow> c"
  by (simp add: ASSERT_def)

lemma ASSERT_True [simp]: "c \<Longrightarrow> ASSERT c msg = Ok ()"
  by (simp add: ASSERT_def)

lemma ASSERT_False [simp]: "\<not> c \<Longrightarrow> ASSERT c msg = Halted msg"
  by (simp add: ASSERT_def)

lemma obind_cong [fundef_cong]:
  "m = m' \<Longrightarrow> (\<And>x. m' = Ok x \<Longrightarrow> f x = g x) \<Longrightarrow> obind m f = obind m' g"
  by (cases m') auto

declare obind_assoc [outcome_simps]

section \<open>Words\<close>

lemma unat_lt_pow2 [simp]: "unat (w :: u32) < 4294967296"
  using unsigned_less [of w] by simp

lemma and_not_mask_eq_minus:
  fixes w :: "'a::len word"
  shows "w AND NOT (mask n) = w - take_bit n w"
proof -
  have "w AND NOT (mask n) = push_bit n (drop_bit n w)"
    by (rule bit_word_eqI) (auto simp: bit_simps)
  then show ?thesis
    using bits_ident [of n w] by (simp add: algebra_simps)
qed

lemma unat_take_bit: "unat (take_bit n w) = unat (w :: 'a::len word) mod 2 ^ n"
  by (subst unsigned_take_bit_eq) (rule take_bit_eq_mod)

lemma take_bit_le_word: "take_bit n (w :: 'a::len word) \<le> w"
  by (simp add: word_le_nat_alt unat_take_bit)

lemma unat_and_not_mask:
  fixes w :: "'a::len word"
  shows "unat (w AND NOT (mask n)) = unat w div 2 ^ n * 2 ^ n"
  by (simp add: and_not_mask_eq_minus unat_sub take_bit_le_word unat_take_bit
      minus_mod_eq_div_mult)

lemma unat_and_mask: "unat ((w :: 'a::len word) AND mask n) = unat w mod 2 ^ n"
  by (simp add: take_bit_eq_mask [symmetric] unat_take_bit)

lemma unat_drop_bit: "unat (drop_bit n (w :: 'a::len word)) = unat w div 2 ^ n"
  by (subst unat_drop_bit_eq) (rule drop_bit_eq_div)

lemma unat_mask_u32:
  assumes "n < 32"
  shows "unat (mask n :: u32) = 2 ^ n - 1"
proof -
  have "(2 :: nat) ^ n \<le> 2 ^ 32"
    using assms by (intro power_increasing) simp_all
  then have "mask n < (2 :: nat) ^ 32"
    using mask_nat_less_exp [of n] by linarith
  then have "unat (of_nat (mask n) :: u32) = mask n"
    by (simp add: unat_of_nat)
  then show ?thesis by (simp add: of_nat_mask_eq mask_eq_exp_minus_1)
qed

lemma unat_add_no_wrap:
  fixes a b :: u32
  assumes "unat a + unat b < 4294967296"
  shows "unat (a + b) = unat a + unat b"
  using assms unat_add_lem [of a b] by simp

lemma unat_less_helper_int: "unat (n :: u32) < 2147483648 \<Longrightarrow> uint n < 2147483648"
  by (metis of_nat_less_iff of_nat_numeral uint_nat)

lemma sint_small: "unat (n :: u32) < 2147483648 \<Longrightarrow> sint n = int (unat n)"
proof -
  assume "unat n < 2147483648"
  then have "uint n < 2147483648"
    by (simp add: unat_less_helper_int)
  moreover have "- (2 ^ 31) \<le> uint n"
    by (rule order_trans [of _ 0]) simp_all
  ultimately have "signed_take_bit 31 (uint n) = uint n"
    by (intro signed_take_bit_int_eq_self) simp_all
  then show ?thesis by (simp add: sint_uint)
qed

lemma ex_bit_of_nonzero:
  fixes w :: "'a::len word"
  assumes "w \<noteq> 0"
  shows "\<exists>i < LENGTH('a). bit w i"
  using assms by (metis bit_0_eq bit_imp_le_length bit_word_eqI bot_apply bot_bool_def)

section \<open>Bit counting\<close>

lemma length_takeWhile_upt_least:
  assumes "k < n" and "P k" and "\<And>j. j < k \<Longrightarrow> \<not> P j"
  shows "length (takeWhile (\<lambda>i. \<not> P i) [0..<n]) = k"
proof -
  have split: "[0..<n] = [0..<k] @ [k..<n]"
    using assms(1) upt_add_eq_append [of 0 k "n - k"] by simp
  have rest: "[k..<n] = k # [Suc k..<n]"
    using assms(1) by (rule upt_conv_Cons)
  have "takeWhile (\<lambda>i. \<not> P i) [0..<n] = [0..<k]"
    unfolding split rest by (subst takeWhile_append2) (use assms in auto)
  then show ?thesis by simp
qed

lemma builtin_ctz_spec:
  assumes "w \<noteq> 0"
  shows "builtin_ctz w < 32 \<and> bit w (builtin_ctz w) \<and> (\<forall>j < builtin_ctz w. \<not> bit w j)"
proof -
  obtain i where i: "i < 32" "bit w i"
    using ex_bit_of_nonzero [OF assms] by auto
  define k where "k = (LEAST i. bit w i)"
  have k: "bit w k" "k \<le> i" and least: "\<And>j. j < k \<Longrightarrow> \<not> bit w j"
    unfolding k_def using i(2) by (auto intro: LeastI Least_le dest: not_less_Least)
  have "builtin_ctz w = k"
    unfolding builtin_ctz_def
    by (rule length_takeWhile_upt_least) (use k i least in auto)
  with k i least show ?thesis by auto
qed

lemma builtin_popcount_pow2:
  assumes "n < 32"
  shows "builtin_popcount (2 ^ n) = 1"
proof -
  have "filter (bit (2 ^ n :: u32)) [0..<32] = filter (\<lambda>i. i = n) [0..<32]"
    using assms by (intro filter_cong) (auto simp: bit_simps)
  also have "\<dots> = [n]"
  proof -
    have "[0..<32] = [0..<n] @ n # [Suc n..<32]"
      using assms upt_add_eq_append [of 0 n "32 - n"] by (simp add: upt_conv_Cons)
    then show ?thesis by simp
  qed
  finally show ?thesis by (simp add: builtin_popcount_def)
qed

section \<open>Alignment\<close>

lemma align_backwards_pow2:
  assumes "n < 32"
  shows "align_backwards s (2 ^ n) = Ok (s AND NOT (mask n))"
  using builtin_popcount_pow2 [OF assms] by (simp add: align_backwards_def mask_eq_decr_exp)

lemma align_forward_pow2:
  assumes "n < 32"
  shows "align_forward s (2 ^ n) = Ok ((s + mask n) AND NOT (mask n))"
  using builtin_popcount_pow2 [OF assms]
  by (simp add: align_forward_def mask_eq_decr_exp algebra_simps)

lemma unat_align_forward_mask:
  fixes s :: u32
  assumes "n < 32" and "unat s + 2 ^ n \<le> 4294967296"
  shows "unat ((s + mask n) AND NOT (mask n)) = (unat s + 2 ^ n - 1) div 2 ^ n * 2 ^ n"
proof -
  have m: "unat (mask n :: u32) = 2 ^ n - 1"
    using assms(1) by (rule unat_mask_u32)
  have "unat s + (2 ^ n - 1) < 4294967296"
    using assms(2) by (simp add: less_le_trans)
  then have "unat (s + mask n) = unat s + 2 ^ n - 1"
    by (simp add: unat_add_no_wrap m)
  then show ?thesis by (simp add: unat_and_not_mask)
qed

end
