(* ===== verification/CMem.thy ===== *)
theory CMem
  imports Prelude
begin

text \<open>
  Byte-addressed memory and the routines of the kernel's standard library that work on raw bytes:
  \<open>memory_fill\<close>, \<open>memory_zero\<close>, \<open>memory_copy\<close> and \<open>memory_compare\<close> of
  \<open>src/src/std/memory.c\<close>, \<open>boot_memory_copy\<close> of \<open>src/src/arch/x86/boot/bootstrap.c\<close>, and
  \<open>strlen\<close>, \<open>str_literal\<close> and \<open>str_equals_cstr\<close> of \<open>src/src/std/string.c\<close>.

  A memory is a function from addresses to bytes. Addresses are natural numbers: no object of the
  kernel wraps around the end of the 32-bit address space, and a scan that would run past it is a
  \<open>Fault\<close>. Multi-byte loads and stores are little endian, as on the x86. The locale
  \<open>cell_store\<close> is the contract of one load/store width; it is interpreted at the three widths the
  code uses.
\<close>

section \<open>Definitions\<close>

type_synonym memory = "nat \<Rightarrow> u8"

definition ld8 :: "memory \<Rightarrow> nat \<Rightarrow> u8" where
  "ld8 m a = m a"

definition st8 :: "memory \<Rightarrow> nat \<Rightarrow> u8 \<Rightarrow> memory" where
  "st8 m a v = m(a := v)"

definition ld16 :: "memory \<Rightarrow> nat \<Rightarrow> u16" where
  "ld16 m a = ucast (m a) OR push_bit 8 (ucast (m (a + 1)))"

definition st16 :: "memory \<Rightarrow> nat \<Rightarrow> u16 \<Rightarrow> memory" where
  "st16 m a v = m(a := ucast v, a + 1 := ucast (drop_bit 8 v))"

definition ld32 :: "memory \<Rightarrow> nat \<Rightarrow> u32" where
  "ld32 m a = ucast (m a) OR push_bit 8 (ucast (m (a + 1)))
     OR push_bit 16 (ucast (m (a + 2))) OR push_bit 24 (ucast (m (a + 3)))"

definition st32 :: "memory \<Rightarrow> nat \<Rightarrow> u32 \<Rightarrow> memory" where
  "st32 m a v = m(a := ucast v, a + 1 := ucast (drop_bit 8 v),
     a + 2 := ucast (drop_bit 16 v), a + 3 := ucast (drop_bit 24 v))"

text \<open>The byte loops of \<open>memory.c\<close>: the counter \<open>i\<close> runs from 0 up to the length.\<close>

function memory_fill_loop :: "memory \<Rightarrow> nat \<Rightarrow> nat \<Rightarrow> nat \<Rightarrow> u8 \<Rightarrow> memory" where
  "memory_fill_loop m address i len val =
     (if i < len then memory_fill_loop (m(address + i := val)) address (i + 1) len val else m)"
  by pat_completeness auto
termination
  by (relation "measure (\<lambda>(m, a, i, n, v). n - i)") auto

definition memory_fill :: "memory \<Rightarrow> nat \<Rightarrow> nat \<Rightarrow> u8 \<Rightarrow> memory" where
  "memory_fill m address len val = memory_fill_loop m address 0 len val"

definition memory_zero :: "memory \<Rightarrow> nat \<Rightarrow> nat \<Rightarrow> memory" where
  "memory_zero m address len = memory_fill m address len 0"

function memory_copy_loop :: "memory \<Rightarrow> nat \<Rightarrow> nat \<Rightarrow> nat \<Rightarrow> nat \<Rightarrow> memory" where
  "memory_copy_loop m dst src i sz =
     (if i < sz then memory_copy_loop (m(dst + i := m (src + i))) dst src (i + 1) sz else m)"
  by pat_completeness auto
termination
  by (relation "measure (\<lambda>(m, d, s, i, n). n - i)") auto

definition memory_copy :: "memory \<Rightarrow> nat \<Rightarrow> nat \<Rightarrow> nat \<Rightarrow> memory" where
  "memory_copy m dst src sz = memory_copy_loop m dst src 0 sz"

definition boot_memory_copy :: "memory \<Rightarrow> nat \<Rightarrow> nat \<Rightarrow> nat \<Rightarrow> memory" where
  "boot_memory_copy m dst src sz = memory_copy_loop m dst src 0 sz"

function memory_compare_loop :: "memory \<Rightarrow> nat \<Rightarrow> nat \<Rightarrow> nat \<Rightarrow> nat \<Rightarrow> bool" where
  "memory_compare_loop m mem1 mem2 i sz =
     (if i < sz then
        (if m (mem1 + i) \<noteq> m (mem2 + i) then False
         else memory_compare_loop m mem1 mem2 (i + 1) sz)
      else True)"
  by pat_completeness auto
termination
  by (relation "measure (\<lambda>(m, a, b, i, n). n - i)") auto

definition memory_compare :: "memory \<Rightarrow> nat \<Rightarrow> nat \<Rightarrow> nat \<Rightarrow> bool" where
  "memory_compare m mem1 mem2 sz = memory_compare_loop m mem1 mem2 0 sz"

text \<open>C strings and the counted \<open>String\<close> of \<open>string_def.h\<close>.\<close>

record String =
  str_data :: nat
  str_length :: nat

function strlen_loop :: "memory \<Rightarrow> nat \<Rightarrow> nat \<Rightarrow> nat outcome" where
  "strlen_loop m str len =
     (if 2 ^ 32 \<le> str + len then Fault ''read past the end of memory''
      else if m (str + len) \<noteq> 0 then strlen_loop m str (len + 1)
      else Ok len)"
  by pat_completeness auto
termination
  by (relation "measure (\<lambda>(m, s, n). 2 ^ 32 - (s + n))") auto

definition strlen :: "memory \<Rightarrow> nat \<Rightarrow> nat outcome" where
  "strlen m str = strlen_loop m str 0"

definition str_literal :: "memory \<Rightarrow> nat \<Rightarrow> String outcome" where
  "str_literal m cstr = obind (strlen m cstr) (\<lambda>n. Ok \<lparr>str_data = cstr, str_length = n\<rparr>)"

function str_equals_loop :: "memory \<Rightarrow> String \<Rightarrow> nat \<Rightarrow> nat \<Rightarrow> bool" where
  "str_equals_loop m str cstr i =
     (if i < str_length str then
        (if m (str_data str + i) \<noteq> m (cstr + i) then False
         else str_equals_loop m str cstr (i + 1))
      else m (cstr + i) = 0)"
  by pat_completeness auto
termination
  by (relation "measure (\<lambda>(m, s, c, i). str_length s - i)") auto

definition str_equals_cstr :: "memory \<Rightarrow> String \<Rightarrow> nat \<Rightarrow> bool" where
  "str_equals_cstr m str cstr = str_equals_loop m str cstr 0"

declare memory_fill_loop.simps [simp del] memory_copy_loop.simps [simp del]
  memory_compare_loop.simps [simp del] strlen_loop.simps [simp del] str_equals_loop.simps [simp del]

text \<open>What the byte routines are about: the bytes of a range, and a string with its terminator.\<close>

definition bytes_at :: "memory \<Rightarrow> nat \<Rightarrow> nat \<Rightarrow> u8 list" where
  "bytes_at m a n = map (\<lambda>i. m (a + i)) [0..<n]"

definition cstr_at :: "memory \<Rightarrow> nat \<Rightarrow> u8 list \<Rightarrow> bool" where
  "cstr_at m a cs \<longleftrightarrow> bytes_at m a (length cs) = cs \<and> m (a + length cs) = 0
     \<and> 0 \<notin> set cs \<and> a + length cs < 2 ^ 32"

section \<open>One load/store width\<close>

locale cell_store =
  fixes ld :: "memory \<Rightarrow> nat \<Rightarrow> 'v"
    and st :: "memory \<Rightarrow> nat \<Rightarrow> 'v \<Rightarrow> memory"
    and w :: nat
  assumes ld_st: "ld (st m a v) a = v"
    and st_frame: "x < a \<or> a + w \<le> x \<Longrightarrow> st m a v x = m x"
    and ld_cong: "(\<And>i. i < w \<Longrightarrow> m (a + i) = m' (a + i)) \<Longrightarrow> ld m a = ld m' a"
begin

lemma ld_st_disjoint:
  assumes "a + w \<le> b \<or> b + w \<le> a"
  shows "ld (st m a v) b = ld m b"
  by (rule ld_cong) (use assms in \<open>auto intro!: st_frame\<close>)

lemma ld_upd_outside:
  assumes "x < a \<or> a + w \<le> x"
  shows "ld (m(x := v)) a = ld m a"
  by (rule ld_cong) (use assms in auto)

lemma ld_frame:
  assumes "\<And>x. a \<le> x \<Longrightarrow> x < a + w \<Longrightarrow> m x = m' x"
  shows "ld m a = ld m' a"
  by (rule ld_cong) (simp add: assms)

lemma st_st_same_read:
  "ld (st (st m a u) a v) a = v"
  by (rule ld_st)

end

interpretation cell8: cell_store ld8 st8 1
  by unfold_locales (auto simp: ld8_def st8_def)

interpretation cell16: cell_store ld16 st16 2
proof
  fix m :: memory and a :: nat and v :: u16
  show "ld16 (st16 m a v) a = v"
    by (rule bit_word_eqI) (auto simp: ld16_def st16_def bit_simps)
next
  fix x a :: nat and m :: memory and v :: u16
  assume "x < a \<or> a + 2 \<le> x"
  then show "st16 m a v x = m x" by (auto simp: st16_def)
next
  fix m m' :: memory and a :: nat
  assume eq: "\<And>i. i < 2 \<Longrightarrow> m (a + i) = m' (a + i)"
  show "ld16 m a = ld16 m' a"
    using eq [of 0] eq [of 1] by (simp add: ld16_def)
qed

interpretation cell32: cell_store ld32 st32 4
proof
  fix m :: memory and a :: nat and v :: u32
  have "bit (ld32 (st32 m a v) a) n = bit v n" if "n < 32" for n
  proof -
    consider "n < 8" | "8 \<le> n \<and> n < 16" | "16 \<le> n \<and> n < 24" | "24 \<le> n"
      by linarith
    then show ?thesis
      using that by cases (auto simp: ld32_def st32_def bit_simps)
  qed
  then show "ld32 (st32 m a v) a = v"
    by (intro bit_word_eqI) simp
next
  fix x a :: nat and m :: memory and v :: u32
  assume "x < a \<or> a + 4 \<le> x"
  then show "st32 m a v x = m x" by (auto simp: st32_def)
next
  fix m m' :: memory and a :: nat
  assume eq: "\<And>i. i < 4 \<Longrightarrow> m (a + i) = m' (a + i)"
  show "ld32 m a = ld32 m' a"
    using eq [of 0] eq [of 1] eq [of 2] eq [of 3] by (simp add: ld32_def)
qed

lemmas cell_same [simp] = cell8.ld_st cell16.ld_st cell32.ld_st

section \<open>Filling, copying, comparing\<close>

lemma memory_fill_loop_spec:
  "i \<le> n \<Longrightarrow> memory_fill_loop m a i n v x = (if a + i \<le> x \<and> x < a + n then v else m x)"
proof (induction m a i n v rule: memory_fill_loop.induct)
  case (1 m a i n v)
  show ?case
  proof (cases "i < n")
    case True
    have "memory_fill_loop (m(a + i := v)) a (i + 1) n v x =
        (if a + (i + 1) \<le> x \<and> x < a + n then v else (m(a + i := v)) x)"
      by (rule "1.IH") (use True in simp_all)
    with True show ?thesis by (subst memory_fill_loop.simps) auto
  next
    case False
    with "1.prems" show ?thesis by (subst memory_fill_loop.simps) auto
  qed
qed

lemma memory_fill_apply:
  "memory_fill m a n v x = (if a \<le> x \<and> x < a + n then v else m x)"
  by (simp add: memory_fill_def memory_fill_loop_spec)

lemma memory_zero_apply:
  "memory_zero m a n x = (if a \<le> x \<and> x < a + n then 0 else m x)"
  by (simp add: memory_zero_def memory_fill_apply)

lemma memory_copy_loop_spec:
  assumes "d \<le> s \<or> s + n \<le> d" and "i \<le> n"
  shows "memory_copy_loop m d s i n x =
    (if d + i \<le> x \<and> x < d + n then m (s + (x - d)) else m x)"
  using assms
proof (induction m d s i n rule: memory_copy_loop.induct)
  case (1 m d s i n)
  show ?case
  proof (cases "i < n")
    case True
    let ?m = "m(d + i := m (s + i))"
    have IH: "memory_copy_loop ?m d s (i + 1) n x =
        (if d + (i + 1) \<le> x \<and> x < d + n then ?m (s + (x - d)) else ?m x)"
      by (rule "1.IH") (use True "1.prems" in simp_all)
    have later: "?m (s + (x - d)) = m (s + (x - d))" if "d + (i + 1) \<le> x" "x < d + n"
      using that "1.prems"(1) by auto
    have "memory_copy_loop m d s i n x = memory_copy_loop ?m d s (i + 1) n x"
      using True by (subst memory_copy_loop.simps) simp
    then show ?thesis
      using IH later True by auto
  next
    case False
    with "1.prems" show ?thesis by (subst memory_copy_loop.simps) auto
  qed
qed

lemma memory_copy_apply:
  assumes "d \<le> s \<or> s + n \<le> d"
  shows "memory_copy m d s n x = (if d \<le> x \<and> x < d + n then m (s + (x - d)) else m x)"
  using memory_copy_loop_spec [OF assms, of 0] by (simp add: memory_copy_def)

lemma memory_copy_bytes:
  assumes "d \<le> s \<or> s + n \<le> d"
  shows "bytes_at (memory_copy m d s n) d n = bytes_at m s n"
  by (simp add: bytes_at_def memory_copy_apply [OF assms])

lemma memory_compare_loop_iff:
  "i \<le> n \<Longrightarrow> memory_compare_loop m a b i n \<longleftrightarrow> (\<forall>j. i \<le> j \<and> j < n \<longrightarrow> m (a + j) = m (b + j))"
proof (induction m a b i n rule: memory_compare_loop.induct)
  case (1 m a b i n)
  have step: "(\<forall>j. i \<le> j \<and> j < n \<longrightarrow> m (a + j) = m (b + j)) \<longleftrightarrow>
      m (a + i) = m (b + i) \<and> (\<forall>j. i + 1 \<le> j \<and> j < n \<longrightarrow> m (a + j) = m (b + j))" if "i < n"
    using that by (metis Suc_eq_plus1 le_eq_less_or_eq less_eq_Suc_le)
  show ?case
  proof (cases "i < n \<and> m (a + i) = m (b + i)")
    case True
    with "1.IH" show ?thesis by (subst memory_compare_loop.simps) (simp add: step)
  next
    case False
    then show ?thesis by (subst memory_compare_loop.simps) auto
  qed
qed

lemma bytes_at_eq_iff:
  "bytes_at m a n = bytes_at m' b n \<longleftrightarrow> (\<forall>j < n. m (a + j) = m' (b + j))"
  by (auto simp: bytes_at_def)

lemma length_bytes_at [simp]: "length (bytes_at m a n) = n"
  by (simp add: bytes_at_def)

lemma nth_bytes_at [simp]: "i < n \<Longrightarrow> bytes_at m a n ! i = m (a + i)"
  by (simp add: bytes_at_def)

lemma bytes_at_cong:
  "(\<And>i. i < n \<Longrightarrow> m (a + i) = m' (a + i)) \<Longrightarrow> bytes_at m a n = bytes_at m' a n"
  by (simp add: bytes_at_def)

lemma memory_compare_bytes:
  "memory_compare m a b n \<longleftrightarrow> bytes_at m a n = bytes_at m b n"
  by (simp add: memory_compare_def memory_compare_loop_iff bytes_at_eq_iff)

section \<open>Strings\<close>

lemma cstr_at_nth:
  assumes "cstr_at m p cs" and "i < length cs"
  shows "m (p + i) = cs ! i" and "m (p + i) \<noteq> 0"
proof -
  have eq: "bytes_at m p (length cs) = cs" and nz: "0 \<notin> set cs"
    using assms(1) by (simp_all add: cstr_at_def)
  show 1: "m (p + i) = cs ! i"
    using nth_bytes_at [OF assms(2), of m p] eq by simp
  show "m (p + i) \<noteq> 0"
    using 1 nz nth_mem [OF assms(2)] by metis
qed

lemma strlen_loop_cstr:
  assumes "cstr_at m p cs" and "i \<le> length cs"
  shows "strlen_loop m p i = Ok (length cs)"
  using assms
proof (induction m p i rule: strlen_loop.induct)
  case (1 m p i)
  have range: "\<not> 2 ^ 32 \<le> p + i"
    using "1.prems" by (simp add: cstr_at_def)
  show ?case
  proof (cases "i < length cs")
    case True
    have "strlen_loop m p (i + 1) = Ok (length cs)"
      by (rule "1.IH") (use True range "1.prems" cstr_at_nth(2) in auto)
    then show ?thesis
      using True range cstr_at_nth(2) [OF "1.prems"(1) True]
      by (subst strlen_loop.simps) simp
  next
    case False
    with "1.prems" have "i = length cs" by simp
    with range "1.prems" show ?thesis
      by (subst strlen_loop.simps) (simp add: cstr_at_def)
  qed
qed

lemma strlen_cstr: "cstr_at m p cs \<Longrightarrow> strlen m p = Ok (length cs)"
  by (simp add: strlen_def strlen_loop_cstr)

lemma str_literal_cstr:
  "cstr_at m p cs \<Longrightarrow> str_literal m p = Ok \<lparr>str_data = p, str_length = length cs\<rparr>"
  by (simp add: str_literal_def strlen_cstr)

lemma str_equals_loop_iff:
  "i \<le> str_length s \<Longrightarrow> str_equals_loop m s c i \<longleftrightarrow>
     (\<forall>j. i \<le> j \<and> j < str_length s \<longrightarrow> m (str_data s + j) = m (c + j)) \<and> m (c + str_length s) = 0"
proof (induction m s c i rule: str_equals_loop.induct)
  case (1 m s c i)
  have step: "(\<forall>j. i \<le> j \<and> j < str_length s \<longrightarrow> m (str_data s + j) = m (c + j)) \<longleftrightarrow>
      m (str_data s + i) = m (c + i) \<and>
      (\<forall>j. i + 1 \<le> j \<and> j < str_length s \<longrightarrow> m (str_data s + j) = m (c + j))"
    if "i < str_length s"
    using that by (metis Suc_eq_plus1 le_eq_less_or_eq less_eq_Suc_le)
  show ?case
  proof (cases "i < str_length s \<and> m (str_data s + i) = m (c + i)")
    case True
    with "1.IH" show ?thesis by (subst str_equals_loop.simps) (simp add: step)
  next
    case False
    with "1.prems" show ?thesis by (subst str_equals_loop.simps) auto
  qed
qed

lemma str_equals_cstr_bytes:
  assumes c: "cstr_at m c cs" and nz: "0 \<notin> set (bytes_at m (str_data s) (str_length s))"
  shows "str_equals_cstr m s c \<longleftrightarrow> bytes_at m (str_data s) (str_length s) = cs"
    (is "_ \<longleftrightarrow> ?b = cs")
proof
  assume "str_equals_cstr m s c"
  then have eq: "\<forall>j < str_length s. m (str_data s + j) = m (c + j)" and z: "m (c + str_length s) = 0"
    by (simp_all add: str_equals_cstr_def str_equals_loop_iff)
  have "\<not> str_length s < length cs"
    using z cstr_at_nth(2) [OF c] by blast
  moreover have "\<not> length cs < str_length s"
  proof
    assume l: "length cs < str_length s"
    with eq c have "m (str_data s + length cs) = 0"
      by (simp add: cstr_at_def)
    with l nz show False
      by (metis length_bytes_at nth_bytes_at nth_mem)
  qed
  ultimately have "str_length s = length cs" by simp
  with eq c show "?b = cs"
    by (auto simp: cstr_at_nth intro!: nth_equalityI)
next
  assume b: "?b = cs"
  then have l: "length cs = str_length s"
    by (metis length_bytes_at)
  then show "str_equals_cstr m s c"
    using b c cstr_at_nth(1) [OF c]
    by (auto simp: str_equals_cstr_def str_equals_loop_iff cstr_at_def dest: nth_bytes_at)
qed

section \<open>Properties\<close>

text \<open>
  \<open>memory_copy\<close> copies: when the destination does not start inside the source range after its
  first byte, the destination range afterwards holds the bytes the source range held before, and
  every byte outside the destination range is unchanged.
\<close>

theorem memory_copy_correct:
  assumes "d \<le> s \<or> s + n \<le> d"
  shows "bytes_at (memory_copy m d s n) d n = bytes_at m s n
    \<and> (\<forall>x. memory_copy m d s n x \<noteq> m x \<longrightarrow> d \<le> x \<and> x < d + n)"
  using memory_copy_bytes [OF assms] by (auto simp: memory_copy_apply [OF assms] split: if_splits)

theorem memory_copy_correct_witness:
  "bytes_at (memory_copy ((\<lambda>_. 0)(10 := 7, 11 := 9)) 100 10 2) 100 2 = [7, 9]"
proof -
  have h: "(100 :: nat) \<le> 10 \<or> 10 + 2 \<le> (100 :: nat)" by simp
  show ?thesis
    using memory_copy_correct [OF h, of "(\<lambda>_. 0)(10 := 7, 11 := 9)"]
    by (simp add: bytes_at_def upt_rec)
qed

text \<open>
  \<open>str_equals_cstr\<close> decides equality: for a counted string without zero bytes and a
  zero-terminated string it returns true exactly when the two have the same bytes, so neither a
  proper prefix nor a proper extension is taken for equal.
\<close>

theorem str_equals_cstr_correct:
  assumes "cstr_at m c cs" and "0 \<notin> set (bytes_at m (str_data s) (str_length s))"
  shows "str_equals_cstr m s c \<longleftrightarrow> bytes_at m (str_data s) (str_length s) = cs"
  using assms by (rule str_equals_cstr_bytes)

theorem str_equals_cstr_correct_witness:
  "str_equals_cstr ((\<lambda>_. 0)(10 := 97, 11 := 98, 20 := 97, 21 := 98))
     \<lparr>str_data = 20, str_length = 2\<rparr> 10"
proof -
  let ?m = "(\<lambda>_. 0)(10 := 97, 11 := 98, 20 := 97, 21 := 98) :: memory"
  have "cstr_at ?m 10 [97, 98]" and "0 \<notin> set (bytes_at ?m 20 2)"
    by (simp_all add: cstr_at_def bytes_at_def upt_rec)
  then show ?thesis
    using str_equals_cstr_correct [of ?m 10 "[97, 98]" "\<lparr>str_data = 20, str_length = 2\<rparr>"]
    by (simp add: bytes_at_def upt_rec)
qed

end
