(* ===== verification/Terminal.thy ===== *)
theory Terminal
  imports Prelude
begin

text \<open>
  The text-mode terminal: the entry encoding of \<open>src/src/hal/vga.c\<close> and the cursor, colour and
  scrolling logic of \<open>src/src/std/terminal.c\<close>. The video memory at \<open>VGA_MEMORY\<close> is the function
  \<open>terminal_buffer\<close>, indexed in 16-bit cells without a bound, so that a write outside the 80 x 25
  cells of the screen would be visible in the model.

  The abstract \<open>screen\<close> is what a reader of the display sees: 25 rows of 80 cells and a cursor.
  \<open>terminal_abs\<close> relates the two and the refinement lemmas show that each operation of the code
  is the corresponding operation on the rows.
\<close>

section \<open>Definitions\<close>

abbreviation (input) VGA_WIDTH :: nat where "VGA_WIDTH \<equiv> 80"
abbreviation (input) VGA_HEIGHT :: nat where "VGA_HEIGHT \<equiv> 25"

datatype vga_color =
    VGA_COLOR_BLACK
  | VGA_COLOR_BLUE
  | VGA_COLOR_GREEN
  | VGA_COLOR_CYAN
  | VGA_COLOR_RED
  | VGA_COLOR_MAGENTA
  | VGA_COLOR_BROWN
  | VGA_COLOR_LIGHT_GREY
  | VGA_COLOR_DARK_GREY
  | VGA_COLOR_LIGHT_BLUE
  | VGA_COLOR_LIGHT_GREEN
  | VGA_COLOR_LIGHT_CYAN
  | VGA_COLOR_LIGHT_RED
  | VGA_COLOR_LIGHT_MAGENTA
  | VGA_COLOR_LIGHT_BROWN
  | VGA_COLOR_WHITE

primrec vga_color_code :: "vga_color \<Rightarrow> u8" where
  "vga_color_code VGA_COLOR_BLACK = 0"
| "vga_color_code VGA_COLOR_BLUE = 1"
| "vga_color_code VGA_COLOR_GREEN = 2"
| "vga_color_code VGA_COLOR_CYAN = 3"
| "vga_color_code VGA_COLOR_RED = 4"
| "vga_color_code VGA_COLOR_MAGENTA = 5"
| "vga_color_code VGA_COLOR_BROWN = 6"
| "vga_color_code VGA_COLOR_LIGHT_GREY = 7"
| "vga_color_code VGA_COLOR_DARK_GREY = 8"
| "vga_color_code VGA_COLOR_LIGHT_BLUE = 9"
| "vga_color_code VGA_COLOR_LIGHT_GREEN = 10"
| "vga_color_code VGA_COLOR_LIGHT_CYAN = 11"
| "vga_color_code VGA_COLOR_LIGHT_RED = 12"
| "vga_color_code VGA_COLOR_LIGHT_MAGENTA = 13"
| "vga_color_code VGA_COLOR_LIGHT_BROWN = 14"
| "vga_color_code VGA_COLOR_WHITE = 15"

definition vga_entry_color :: "vga_color \<Rightarrow> vga_color \<Rightarrow> u8" where
  "vga_entry_color fg bg = vga_color_code fg OR push_bit 4 (vga_color_code bg)"

definition vga_entry :: "u8 \<Rightarrow> u8 \<Rightarrow> u16" where
  "vga_entry uc color = ucast uc OR push_bit 8 (ucast color)"

record terminal =
  terminal_row :: nat
  terminal_column :: nat
  terminal_color :: u8
  terminal_buffer :: "nat \<Rightarrow> u16"

definition terminal_init :: "terminal \<Rightarrow> terminal" where
  "terminal_init t =
     (let color = vga_entry_color VGA_COLOR_LIGHT_GREY VGA_COLOR_BLACK in
      t\<lparr>terminal_row := 0, terminal_column := 0, terminal_color := color,
        terminal_buffer :=
          foldl (\<lambda>b y. foldl (\<lambda>b x. b(y * VGA_WIDTH + x := vga_entry 32 color)) b [0..<VGA_WIDTH])
            (terminal_buffer t) [0..<VGA_HEIGHT]\<rparr>)"

definition terminal_setcolor :: "u8 \<Rightarrow> terminal \<Rightarrow> terminal" where
  "terminal_setcolor color t = t\<lparr>terminal_color := color\<rparr>"

definition terminal_increment_row :: "terminal \<Rightarrow> terminal" where
  "terminal_increment_row t =
     (let row = terminal_row t + 1 in
      if row \<ge> VGA_HEIGHT then
        (let scrolled =
           foldl (\<lambda>b y. foldl (\<lambda>b x. b(y * VGA_WIDTH + x := b (y * VGA_WIDTH + x + VGA_WIDTH)))
               b [0..<VGA_WIDTH])
             (terminal_buffer t) [0..<VGA_HEIGHT - 1];
             blanked =
           foldl (\<lambda>b x. b((VGA_HEIGHT - 1) * VGA_WIDTH + x := vga_entry 32 (terminal_color t)))
             scrolled [0..<VGA_WIDTH]
         in t\<lparr>terminal_row := VGA_HEIGHT - 1, terminal_buffer := blanked\<rparr>)
      else t\<lparr>terminal_row := row\<rparr>)"

definition terminal_putentryat :: "u8 \<Rightarrow> u8 \<Rightarrow> nat \<Rightarrow> nat \<Rightarrow> terminal \<Rightarrow> terminal" where
  "terminal_putentryat c color x y t =
     t\<lparr>terminal_buffer := (terminal_buffer t)(y * VGA_WIDTH + x := vga_entry c color)\<rparr>"

definition terminal_put_char :: "u8 \<Rightarrow> terminal \<Rightarrow> terminal" where
  "terminal_put_char c t =
     (if c = 10 then terminal_increment_row (t\<lparr>terminal_column := 0\<rparr>)
      else
        (let t1 = terminal_putentryat c (terminal_color t) (terminal_column t) (terminal_row t) t;
             t2 = t1\<lparr>terminal_column := terminal_column t1 + 1\<rparr>
         in if terminal_column t2 \<ge> VGA_WIDTH
            then terminal_increment_row (t2\<lparr>terminal_column := 0\<rparr>)
            else t2))"

text \<open>The cursor stays on the screen.\<close>

definition terminal_ok :: "terminal \<Rightarrow> bool" where
  "terminal_ok t \<longleftrightarrow> terminal_row t < VGA_HEIGHT \<and> terminal_column t < VGA_WIDTH"

text \<open>The abstract screen and its operations.\<close>

record screen =
  rows :: "u16 list list"
  cur_row :: nat
  cur_col :: nat

definition terminal_abs :: "terminal \<Rightarrow> screen" where
  "terminal_abs t =
     \<lparr>rows = map (\<lambda>y. map (\<lambda>x. terminal_buffer t (y * VGA_WIDTH + x)) [0..<VGA_WIDTH]) [0..<VGA_HEIGHT],
      cur_row = terminal_row t, cur_col = terminal_column t\<rparr>"

definition screen_newline :: "u16 \<Rightarrow> screen \<Rightarrow> screen" where
  "screen_newline blank s =
     (if cur_row s + 1 < VGA_HEIGHT then s\<lparr>cur_row := cur_row s + 1, cur_col := 0\<rparr>
      else s\<lparr>rows := tl (rows s) @ [replicate VGA_WIDTH blank], cur_col := 0\<rparr>)"

definition screen_put :: "u16 \<Rightarrow> screen \<Rightarrow> screen" where
  "screen_put e s = s\<lparr>rows := (rows s)[cur_row s := (rows s ! cur_row s)[cur_col s := e]]\<rparr>"

definition screen_char :: "u8 \<Rightarrow> u8 \<Rightarrow> screen \<Rightarrow> screen" where
  "screen_char color c s =
     (if c = 10 then screen_newline (vga_entry 32 color) s
      else let s1 = screen_put (vga_entry c color) s in
        if cur_col s + 1 < VGA_WIDTH then s1\<lparr>cur_col := cur_col s + 1\<rparr>
        else screen_newline (vga_entry 32 color) s1)"

section \<open>Entries\<close>

lemma vga_entry_char: "ucast (vga_entry uc color) = uc"
  by (rule bit_word_eqI) (auto simp: vga_entry_def bit_simps)

lemma vga_entry_color_of: "ucast (drop_bit 8 (vga_entry uc color)) = color"
  by (rule bit_word_eqI) (auto simp: vga_entry_def bit_simps dest: bit_imp_le_length)

section \<open>Row loops\<close>

lemma row_fill_eq:
  "foldl (\<lambda>b x. b(base + x := e)) b [0..<n] = (\<lambda>k. if base \<le> k \<and> k < base + n then e else b k)"
  by (induction n) (auto simp: fun_eq_iff)

lemma screen_fill_eq:
  "foldl (\<lambda>b y. foldl (\<lambda>b x. b(y * w + x := e)) b [0..<w]) b [0..<h] =
     (\<lambda>k. if k < h * w then e else b k)"
  unfolding row_fill_eq by (induction h) (auto simp: fun_eq_iff)

lemma row_shift_eq:
  assumes "n \<le> w"
  shows "foldl (\<lambda>b x. b(base + x := b (base + x + w))) b [0..<n] =
     (\<lambda>k. if base \<le> k \<and> k < base + n then b (k + w) else b k)"
  using assms by (induction n) (auto simp: fun_eq_iff)

lemma screen_shift_eq:
  "foldl (\<lambda>b y. foldl (\<lambda>b x. b(y * w + x := b (y * w + x + w))) b [0..<w]) b [0..<h] =
     (\<lambda>k. if k < h * w then b (k + w) else b k)"
  unfolding row_shift_eq [OF order_refl] by (induction h) (auto simp: fun_eq_iff)

lemma increment_row_buffer:
  "terminal_buffer (terminal_increment_row t) k =
     (if terminal_row t + 1 < VGA_HEIGHT then terminal_buffer t k
      else if k < 1920 then terminal_buffer t (k + 80)
      else if k < 2000 then vga_entry 32 (terminal_color t)
      else terminal_buffer t k)"
  unfolding terminal_increment_row_def Let_def screen_shift_eq row_fill_eq by simp

lemma increment_row_fields [simp]:
  "terminal_row (terminal_increment_row t) = min (terminal_row t + 1) 24"
  "terminal_column (terminal_increment_row t) = terminal_column t"
  "terminal_color (terminal_increment_row t) = terminal_color t"
  by (auto simp: terminal_increment_row_def Let_def min_def)

lemma putentryat_fields [simp]:
  "terminal_row (terminal_putentryat c col x y t) = terminal_row t"
  "terminal_column (terminal_putentryat c col x y t) = terminal_column t"
  "terminal_color (terminal_putentryat c col x y t) = terminal_color t"
  "terminal_buffer (terminal_putentryat c col x y t) =
     (terminal_buffer t)(y * 80 + x := vga_entry c col)"
  by (simp_all add: terminal_putentryat_def)

section \<open>The cursor and the screen bounds\<close>

lemma terminal_init_ok: "terminal_ok (terminal_init t)"
  by (simp add: terminal_init_def terminal_ok_def Let_def)

lemma terminal_put_char_ok: "terminal_ok t \<Longrightarrow> terminal_ok (terminal_put_char c t)"
  by (auto simp: terminal_ok_def terminal_put_char_def Let_def)

lemma terminal_put_char_color [simp]: "terminal_color (terminal_put_char c t) = terminal_color t"
  by (simp add: terminal_put_char_def Let_def)

lemma terminal_put_char_outside:
  assumes "terminal_ok t" and "2000 \<le> k"
  shows "terminal_buffer (terminal_put_char c t) k = terminal_buffer t k"
  using assms
  by (auto simp: terminal_ok_def terminal_put_char_def Let_def increment_row_buffer)

section \<open>Refinement\<close>

lemma rows_eqI:
  assumes "\<And>y x. y < 25 \<Longrightarrow> x < 80 \<Longrightarrow> f y x = rs ! y ! x"
    and "length rs = 25" and "\<And>y. y < 25 \<Longrightarrow> length (rs ! y) = 80"
  shows "map (\<lambda>y. map (\<lambda>x. f y x) [0..<80]) [0..<25] = rs"
  by (rule nth_equalityI) (auto simp: assms intro!: nth_equalityI)

lemma abs_row_nth [simp]:
  "y < 25 \<Longrightarrow> rows (terminal_abs t) ! y = map (\<lambda>x. terminal_buffer t (y * 80 + x)) [0..<80]"
  by (simp add: terminal_abs_def)

lemma abs_rows_length [simp]: "length (rows (terminal_abs t)) = 25"
  by (simp add: terminal_abs_def)

lemma abs_cursor [simp]:
  "cur_row (terminal_abs t) = terminal_row t" "cur_col (terminal_abs t) = terminal_column t"
  by (simp_all add: terminal_abs_def)

lemma abs_eqI:
  assumes "rows (terminal_abs t) = rows s" "terminal_row t = cur_row s"
    "terminal_column t = cur_col s" "screen.more s = ()"
  shows "terminal_abs t = s"
  using assms by (cases s) (simp add: terminal_abs_def)

lemma abs_column_update:
  "terminal_abs (t\<lparr>terminal_column := n\<rparr>) = (terminal_abs t)\<lparr>cur_col := n\<rparr>"
  by (simp add: terminal_abs_def)

lemma abs_increment_row:
  assumes "terminal_row t < 25"
  shows "terminal_abs (terminal_increment_row (t\<lparr>terminal_column := 0\<rparr>)) =
    screen_newline (vga_entry 32 (terminal_color t)) (terminal_abs t)"
proof (cases "terminal_row t + 1 < 25")
  case True
  then show ?thesis
    by (intro abs_eqI)
       (simp_all add: screen_newline_def terminal_abs_def increment_row_buffer)
next
  case False
  let ?t = "terminal_increment_row (t\<lparr>terminal_column := 0\<rparr>)"
  let ?rs = "tl (rows (terminal_abs t)) @ [replicate 80 (vga_entry 32 (terminal_color t))]"
  have "map (\<lambda>y. map (\<lambda>x. terminal_buffer ?t (y * 80 + x)) [0..<80]) [0..<25] = ?rs"
    using False
    by (intro rows_eqI) (auto simp: nth_append nth_tl increment_row_buffer algebra_simps)
  then have "rows (terminal_abs ?t) = ?rs"
    by (simp add: terminal_abs_def)
  with False assms show ?thesis
    by (intro abs_eqI) (simp_all add: screen_newline_def terminal_abs_def)
qed

lemma abs_putentry:
  assumes "terminal_ok t"
  shows "terminal_abs (terminal_putentryat c col (terminal_column t) (terminal_row t) t) =
    screen_put (vga_entry c col) (terminal_abs t)"
proof -
  let ?r = "terminal_row t" and ?c = "terminal_column t"
  let ?t = "terminal_putentryat c col ?c ?r t"
  have b: "?r < 25" "?c < 80"
    using assms by (simp_all add: terminal_ok_def)
  have inj: "y * 80 + x = ?r * 80 + ?c \<longleftrightarrow> y = ?r \<and> x = ?c" if "x < 80" for y x
    using that b by (metis div_mult_self3 div_less add.commute add_left_cancel
        add_cancel_right_right less_numeral_extra(3) zero_neq_numeral)
  have "rows (terminal_abs ?t) =
      (rows (terminal_abs t))[?r := (rows (terminal_abs t) ! ?r)[?c := vga_entry c col]]"
    unfolding terminal_abs_def screen.simps
    by (rule rows_eqI) (auto simp: inj nth_list_update b)
  then show ?thesis
    by (intro abs_eqI) (simp_all add: screen_put_def terminal_abs_def)
qed

lemma abs_put_char:
  assumes "terminal_ok t"
  shows "terminal_abs (terminal_put_char c t) = screen_char (terminal_color t) c (terminal_abs t)"
proof -
  let ?t1 = "terminal_putentryat c (terminal_color t) (terminal_column t) (terminal_row t) t"
  have b: "terminal_row t < 25"
    using assms by (simp add: terminal_ok_def)
  show ?thesis
    using abs_increment_row [of t] abs_increment_row [of ?t1] abs_putentry [OF assms] b
    by (simp add: terminal_put_char_def screen_char_def Let_def abs_column_update)
qed

text \<open>A whole string: what \<open>write\<close> leaves on the screen.\<close>

lemma abs_put_string:
  "terminal_ok t \<Longrightarrow> terminal_abs (fold terminal_put_char cs t) =
     fold (screen_char (terminal_color t)) cs (terminal_abs t)"
proof (induction cs arbitrary: t)
  case Nil
  then show ?case by simp
next
  case (Cons c cs)
  then show ?case by (simp add: terminal_put_char_ok abs_put_char)
qed

lemma put_string_ok: "terminal_ok t \<Longrightarrow> terminal_ok (fold terminal_put_char cs t)"
  by (induction cs arbitrary: t) (simp_all add: terminal_put_char_ok)

lemma put_string_outside:
  "terminal_ok t \<Longrightarrow> 2000 \<le> k \<Longrightarrow>
     terminal_buffer (fold terminal_put_char cs t) k = terminal_buffer t k"
  by (induction cs arbitrary: t) (simp_all add: terminal_put_char_ok terminal_put_char_outside)

section \<open>Properties\<close>

text \<open>
  (C29) From \<open>terminal_init\<close> on, whatever bytes are written: the cursor stays on the screen, the 25
  rows are what the abstract screen shows after the same bytes (a line feed or a full line moves to
  the next row, and at the bottom the top row is dropped and a blank row appended), and no cell
  outside the 2000 cells of the screen is ever written.
\<close>

theorem terminal_refines_screen:
  "terminal_ok (fold terminal_put_char cs (terminal_init t))
   \<and> terminal_abs (fold terminal_put_char cs (terminal_init t)) =
       fold (screen_char 7) cs
         \<lparr>rows = replicate 25 (replicate 80 (vga_entry 32 7)), cur_row = 0, cur_col = 0\<rparr>
   \<and> terminal_buffer (fold terminal_put_char cs (terminal_init t)) (2000 + k) =
       terminal_buffer t (2000 + k)"
proof -
  have buf: "terminal_buffer (terminal_init t) = (\<lambda>k. if k < 2000 then vga_entry 32 7 else terminal_buffer t k)"
    and col: "terminal_color (terminal_init t) = 7"
    unfolding terminal_init_def Let_def by (simp_all add: vga_entry_color_def screen_fill_eq)
  have start: "terminal_abs (terminal_init t) =
      \<lparr>rows = replicate 25 (replicate 80 (vga_entry 32 7)), cur_row = 0, cur_col = 0\<rparr>"
  proof (rule abs_eqI)
    have "map (\<lambda>y. map (\<lambda>x. terminal_buffer (terminal_init t) (y * 80 + x)) [0..<80]) [0..<25] =
        replicate 25 (replicate 80 (vga_entry 32 7))"
      by (rule rows_eqI) (simp_all add: buf)
    then show "rows (terminal_abs (terminal_init t)) =
        rows \<lparr>rows = replicate 25 (replicate 80 (vga_entry 32 7)), cur_row = 0, cur_col = 0\<rparr>"
      by (simp add: terminal_abs_def)
  qed (simp_all add: terminal_init_def Let_def)
  show ?thesis
    using abs_put_string [OF terminal_init_ok, of cs t] put_string_ok [OF terminal_init_ok, of cs t]
      put_string_outside [OF terminal_init_ok, of "2000 + k" cs t]
    by (simp add: start col buf)
qed

end
