(* ===== verification/Ports.thy ===== *)
theory Ports
  imports Terminal
begin

text \<open>
  Port I/O and the small drivers that are straight-line port programs: the \<open>in\<close>/\<open>out\<close> wrappers of
  \<open>src/src/arch/x86/instructions.c\<close>, the serial line (\<open>src/src/hal/serial.c\<close>), the interrupt
  controllers (\<open>src/src/hal/pic.c\<close>) and the PCI configuration space (\<open>src/src/hal/pci.c\<close>, whose
  \<open>pci_init\<close> is in the theory \<open>Ata\<close>, with the IDE driver it starts).

  The hardware is a parameter. A \<open>device\<close> answers a read of a port as an arbitrary function of
  the whole history of port accesses, so it may be busy for a while, change its mind or never
  become ready. The state \<open>hw\<close> holds that history (newest access first) and the text terminal.
  Loops that poll a device take a bound on the number of polls; running out is \<open>Diverged\<close>.
\<close>

section \<open>Definitions\<close>

datatype port_event =
    Out8 u16 u8 | In8 u16 u8
  | Out16 u16 u16 | In16 u16 u16
  | Out32 u16 u32 | In32 u16 u32

type_synonym device = "port_event list \<Rightarrow> u16 \<Rightarrow> u32"

record hw =
  hw_term :: terminal
  hw_ports :: "port_event list"

definition out_8 :: "u16 \<Rightarrow> u8 \<Rightarrow> hw \<Rightarrow> hw" where
  "out_8 port v s = s\<lparr>hw_ports := Out8 port v # hw_ports s\<rparr>"

definition in_8 :: "device \<Rightarrow> u16 \<Rightarrow> hw \<Rightarrow> u8 \<times> hw" where
  "in_8 dev port s =
     (let v = ucast (dev (hw_ports s) port) in (v, s\<lparr>hw_ports := In8 port v # hw_ports s\<rparr>))"

definition out_16 :: "u16 \<Rightarrow> u16 \<Rightarrow> hw \<Rightarrow> hw" where
  "out_16 port v s = s\<lparr>hw_ports := Out16 port v # hw_ports s\<rparr>"

definition in_16 :: "device \<Rightarrow> u16 \<Rightarrow> hw \<Rightarrow> u16 \<times> hw" where
  "in_16 dev port s =
     (let v = ucast (dev (hw_ports s) port) in (v, s\<lparr>hw_ports := In16 port v # hw_ports s\<rparr>))"

definition out_32 :: "u16 \<Rightarrow> u32 \<Rightarrow> hw \<Rightarrow> hw" where
  "out_32 port v s = s\<lparr>hw_ports := Out32 port v # hw_ports s\<rparr>"

definition in_32 :: "device \<Rightarrow> u16 \<Rightarrow> hw \<Rightarrow> u32 \<times> hw" where
  "in_32 dev port s =
     (let v = dev (hw_ports s) port in (v, s\<lparr>hw_ports := In32 port v # hw_ports s\<rparr>))"

text \<open>\<open>serial.c\<close>: the first serial port.\<close>

abbreviation (input) PORT :: u16 where "PORT \<equiv> 0x3f8"

definition serial_init :: "device \<Rightarrow> hw \<Rightarrow> bool \<times> hw" where
  "serial_init dev s0 =
     (let s1 = out_8 (PORT + 1) 0x00 s0;
          s2 = out_8 (PORT + 3) 0x80 s1;
          s3 = out_8 (PORT + 0) 0x03 s2;
          s4 = out_8 (PORT + 1) 0x00 s3;
          s5 = out_8 (PORT + 3) 0x03 s4;
          s6 = out_8 (PORT + 2) 0xC7 s5;
          s7 = out_8 (PORT + 4) 0x0B s6;
          s8 = out_8 (PORT + 4) 0x1E s7;
          s9 = out_8 (PORT + 0) 0xAE s8;
          (v, s10) = in_8 dev (PORT + 0) s9
      in if v \<noteq> 0xAE then (False, s10)
         else (True, out_8 (PORT + 4) 0x0F s10))"

definition serial_is_transmit_empty :: "device \<Rightarrow> hw \<Rightarrow> bool \<times> hw" where
  "serial_is_transmit_empty dev s =
     (let (v, s') = in_8 dev (PORT + 5) s in ((v AND 0x20) \<noteq> 0, s'))"

fun serial_wait :: "device \<Rightarrow> nat \<Rightarrow> hw \<Rightarrow> hw outcome" where
  "serial_wait dev 0 s = Diverged"
| "serial_wait dev (Suc fuel) s =
     (let (e, s') = serial_is_transmit_empty dev s in
      if e then Ok s' else serial_wait dev fuel s')"

definition serial_write :: "device \<Rightarrow> nat \<Rightarrow> u8 \<Rightarrow> hw \<Rightarrow> hw outcome" where
  "serial_write dev fuel a s = obind (serial_wait dev fuel s) (\<lambda>s'. Ok (out_8 PORT a s'))"

text \<open>\<open>pic.c\<close>, with the port numbers and command words of \<open>pic_def.h\<close>.\<close>

abbreviation (input) PICM_COMMAND :: u16 where "PICM_COMMAND \<equiv> 0x20"
abbreviation (input) PICM_DATA :: u16 where "PICM_DATA \<equiv> 0x21"
abbreviation (input) PICS_COMMAND :: u16 where "PICS_COMMAND \<equiv> 0x40"
abbreviation (input) PICS_DATA :: u16 where "PICS_DATA \<equiv> 0x41"
abbreviation (input) PIC_ICW1_ICW4 :: u8 where "PIC_ICW1_ICW4 \<equiv> 1"
abbreviation (input) PIC_ICW1_INIT :: u8 where "PIC_ICW1_INIT \<equiv> 0x10"
abbreviation (input) PIC_ICW3_S_IRQ :: u8 where "PIC_ICW3_S_IRQ \<equiv> 4"
abbreviation (input) PIC_ICW3_S_ID :: u8 where "PIC_ICW3_S_ID \<equiv> 2"
abbreviation (input) PIC_ICW4_8086 :: u8 where "PIC_ICW4_8086 \<equiv> 1"
abbreviation (input) PIC_ICW4_AUTO_EOI :: u8 where "PIC_ICW4_AUTO_EOI \<equiv> 2"

definition pic_init :: "hw \<Rightarrow> hw" where
  "pic_init s0 =
     (let s1 = out_8 PICM_COMMAND (PIC_ICW1_INIT OR PIC_ICW1_ICW4) s0;
          s2 = out_8 PICM_DATA 0x20 s1;
          s3 = out_8 PICM_DATA PIC_ICW3_S_IRQ s2;
          s4 = out_8 PICM_DATA (PIC_ICW4_8086 OR PIC_ICW4_AUTO_EOI) s3;
          s5 = out_8 PICS_COMMAND (PIC_ICW1_INIT OR PIC_ICW1_ICW4) s4;
          s6 = out_8 PICS_DATA 0x30 s5;
          s7 = out_8 PICS_DATA PIC_ICW3_S_ID s6;
          s8 = out_8 PICS_DATA (PIC_ICW4_8086 OR PIC_ICW4_AUTO_EOI) s7;
          s9 = out_8 PICM_DATA 0 s8
      in out_8 PICS_DATA 0 s9)"

text \<open>\<open>pci.c\<close>: configuration mechanism 1.\<close>

abbreviation (input) PCI_CONFIG_ADDRESS :: u16 where "PCI_CONFIG_ADDRESS \<equiv> 0xCF8"
abbreviation (input) PCI_CONFIG_DATA :: u16 where "PCI_CONFIG_DATA \<equiv> 0xCFC"
abbreviation (input) PCI_ADDRESS_ENABLE :: u32 where "PCI_ADDRESS_ENABLE \<equiv> 0x80000000"

definition pci_get_register_address :: "u8 \<Rightarrow> u8 \<Rightarrow> u8 \<Rightarrow> u8 \<Rightarrow> u32 outcome" where
  "pci_get_register_address bus device function reg =
     obind (ASSERT ((reg AND 0x3) = 0) ''reg does not point to a 32-bit aligned region.'') (\<lambda>_.
     Ok (PCI_ADDRESS_ENABLE OR push_bit 16 (ucast bus) OR push_bit 11 (ucast device)
         OR push_bit 8 (ucast function) OR ucast reg))"

definition pci_read_register :: "device \<Rightarrow> u8 \<Rightarrow> u8 \<Rightarrow> u8 \<Rightarrow> u8 \<Rightarrow> hw \<Rightarrow> (u32 \<times> hw) outcome" where
  "pci_read_register dev bus device function reg s =
     obind (pci_get_register_address bus device function reg) (\<lambda>address.
     Ok (in_32 dev PCI_CONFIG_DATA (out_32 PCI_CONFIG_ADDRESS address s)))"

definition pci_write_register :: "u8 \<Rightarrow> u8 \<Rightarrow> u8 \<Rightarrow> u8 \<Rightarrow> u32 \<Rightarrow> hw \<Rightarrow> hw outcome" where
  "pci_write_register bus device function reg v s =
     obind (pci_get_register_address bus device function reg) (\<lambda>address.
     Ok (out_32 PCI_CONFIG_DATA v (out_32 PCI_CONFIG_ADDRESS address s)))"

text \<open>The bytes sent over the serial line so far, oldest first.\<close>

fun sent_byte :: "port_event \<Rightarrow> u8 list" where
  "sent_byte (Out8 p v) = (if p = PORT then [v] else [])"
| "sent_byte _ = []"

definition serial_sent :: "hw \<Rightarrow> u8 list" where
  "serial_sent s = concat (map sent_byte (rev (hw_ports s)))"

text \<open>The state after \<open>k\<close> polls of the line status register.\<close>

fun serial_polled :: "device \<Rightarrow> nat \<Rightarrow> hw \<Rightarrow> hw" where
  "serial_polled dev 0 s = s"
| "serial_polled dev (Suc k) s = serial_polled dev k (snd (serial_is_transmit_empty dev s))"

text \<open>A machine on which nothing has been printed and no port has been touched.\<close>

definition hw_start :: hw where
  "hw_start = \<lparr>hw_term = \<lparr>terminal_row = 0, terminal_column = 0, terminal_color = 7,
     terminal_buffer = (\<lambda>_. 0)\<rparr>, hw_ports = []\<rparr>"

section \<open>Port accesses\<close>

lemma port_frame [simp]:
  "hw_term (out_8 p v8 s) = hw_term s"
  "hw_term (out_16 p v16 s) = hw_term s"
  "hw_term (out_32 p v32 s) = hw_term s"
  "hw_term (snd (in_8 dev p s)) = hw_term s"
  "hw_term (snd (in_16 dev p s)) = hw_term s"
  "hw_term (snd (in_32 dev p s)) = hw_term s"
  by (simp_all add: out_8_def out_16_def out_32_def in_8_def in_16_def in_32_def Let_def)

lemma serial_sent_access [simp]:
  "serial_sent (out_8 p v8 s) = serial_sent s @ (if p = PORT then [v8] else [])"
  "serial_sent (out_16 p v16 s) = serial_sent s"
  "serial_sent (out_32 p v32 s) = serial_sent s"
  "serial_sent (snd (in_8 dev p s)) = serial_sent s"
  "serial_sent (snd (in_16 dev p s)) = serial_sent s"
  "serial_sent (snd (in_32 dev p s)) = serial_sent s"
  "serial_sent (s\<lparr>hw_term := t\<rparr>) = serial_sent s"
  by (simp_all add: serial_sent_def out_8_def out_16_def out_32_def in_8_def in_16_def in_32_def
      Let_def)

section \<open>The serial line\<close>

lemma transmit_empty_frame [simp]:
  "hw_term (snd (serial_is_transmit_empty dev s)) = hw_term s"
  "serial_sent (snd (serial_is_transmit_empty dev s)) = serial_sent s"
  by (simp_all add: serial_is_transmit_empty_def Let_def case_prod_unfold)

lemma serial_wait_frame:
  "serial_wait dev fuel s = Ok s' \<Longrightarrow> hw_term s' = hw_term s \<and> serial_sent s' = serial_sent s"
proof (induction fuel arbitrary: s)
  case 0
  then show ?case by simp
next
  case (Suc fuel)
  have frame: "hw_term (snd (serial_is_transmit_empty dev s)) = hw_term s"
    "serial_sent (snd (serial_is_transmit_empty dev s)) = serial_sent s"
    by simp_all
  show ?case
    using Suc.prems frame Suc.IH [of "snd (serial_is_transmit_empty dev s)"]
    by (auto simp: Let_def case_prod_unfold split: if_splits)
qed

lemma serial_write_frame:
  assumes "serial_write dev fuel a s = Ok s'"
  shows "hw_term s' = hw_term s" and "serial_sent s' = serial_sent s @ [a]"
  using assms serial_wait_frame [of dev fuel s] by (auto simp: serial_write_def)

lemma serial_wait_ready:
  assumes "k < fuel" and "fst (serial_is_transmit_empty dev (serial_polled dev k s))"
    and "\<And>j. j < k \<Longrightarrow> \<not> fst (serial_is_transmit_empty dev (serial_polled dev j s))"
  shows "serial_wait dev fuel s = Ok (serial_polled dev (Suc k) s)"
  using assms
proof (induction k arbitrary: s fuel)
  case 0
  then obtain n where "fuel = Suc n" by (cases fuel) auto
  with 0 show ?case by (simp add: Let_def case_prod_unfold)
next
  case (Suc k)
  then obtain n where n: "fuel = Suc n" "k < n" by (cases fuel) auto
  let ?s = "snd (serial_is_transmit_empty dev s)"
  have "\<not> fst (serial_is_transmit_empty dev s)"
    using Suc.prems(3) [of 0] by simp
  moreover have "serial_wait dev n ?s = Ok (serial_polled dev (Suc k) ?s)"
    using Suc.prems(2) Suc.prems(3) [of "Suc _"] n(2) by (intro Suc.IH) auto
  ultimately show ?case by (simp add: n Let_def case_prod_unfold)
qed

lemma serial_wait_never_ready:
  "(\<And>k. \<not> fst (serial_is_transmit_empty dev (serial_polled dev k s))) \<Longrightarrow>
     serial_wait dev fuel s = Diverged"
proof (induction fuel arbitrary: s)
  case 0
  then show ?case by simp
next
  case (Suc fuel)
  let ?s = "snd (serial_is_transmit_empty dev s)"
  have "\<not> fst (serial_is_transmit_empty dev s)"
    using Suc.prems [of 0] by simp
  moreover have "serial_wait dev fuel ?s = Diverged"
    using Suc.prems [of "Suc _"] by (intro Suc.IH) simp
  ultimately show ?case by (simp add: Let_def case_prod_unfold)
qed

section \<open>PCI configuration addresses\<close>

lemma bits_above:
  fixes w :: "'a::len word"
  assumes "unat w < 2 ^ k" and "bit w n"
  shows "n < k"
proof -
  have "take_bit k w = w"
    using assms(1) by (auto intro!: word_unat_eq_iff [THEN iffD2] simp: unat_take_bit)
  with assms(2) show ?thesis by (metis bit_take_bit_iff)
qed

lemma pow5: "2 ^ 5 = (32 :: nat)" and pow3: "2 ^ 3 = (8 :: nat)"
  by simp_all

lemma pci_address_bit:
  assumes "pci_get_register_address bus device function reg = Ok a" and "n < 32"
    and "unat device < 32" and "unat function < 8"
  shows "bit a n = (if n = 31 then True else if 16 \<le> n then bit bus (n - 16)
     else if 11 \<le> n then bit device (n - 11) else if 8 \<le> n then bit function (n - 8) else bit reg n)"
proof -
  have d: "take_bit 5 device = device" and f: "take_bit 3 function = function"
    using assms(3,4) by (auto intro!: word_unat_eq_iff [THEN iffD2] simp: unat_take_bit)
  have dz: "\<not> bit device i" if "5 \<le> i" for i
    using that d by (metis bit_take_bit_iff not_le)
  have fz: "\<not> bit function i" if "3 \<le> i" for i
    using that f by (metis bit_take_bit_iff not_le)
  have a: "a = PCI_ADDRESS_ENABLE OR push_bit 16 (ucast bus) OR push_bit 11 (ucast device)
         OR push_bit 8 (ucast function) OR ucast reg"
    using assms(1) by (auto simp: pci_get_register_address_def)
  have e: "bit (2147483648 :: int) n \<longleftrightarrow> n = 31" "bit (2147483648 :: nat) n \<longleftrightarrow> n = 31"
    using bit_exp_iff [of 31 n, where ?'a = int] bit_exp_iff [of 31 n, where ?'a = nat] by auto
  show ?thesis
    using assms(2) dz [of "n - 11"] fz [of "n - 8"]
    unfolding a by (auto simp: bit_simps e dest: bit_imp_le_length)
qed

section \<open>Properties\<close>

text \<open>
  PCI configuration addresses decode back to what they were made from: for a device below 32, a
  function below 8 and a 4-byte aligned register, the address has the enable bit set and the bus,
  device, function and register are its fields, so distinct registers have distinct addresses.
\<close>

theorem pci_address_fields:
  assumes "unat device < 32" and "unat function < 8" and "reg AND 0x3 = 0"
  shows "\<exists>a. pci_get_register_address bus device function reg = Ok a \<and> bit a 31
    \<and> ucast (drop_bit 16 a) = bus \<and> take_bit 5 (ucast (drop_bit 11 a)) = device
    \<and> take_bit 3 (ucast (drop_bit 8 a)) = function \<and> ucast a = reg"
proof -
  obtain a where a: "pci_get_register_address bus device function reg = Ok a"
    using assms(3) by (simp add: pci_get_register_address_def)
  note bits = pci_address_bit [OF a _ assms(1,2)]
  have dz: "bit device n \<Longrightarrow> n < 5" and fz: "bit function n \<Longrightarrow> n < 3" for n
    using bits_above [OF assms(1) [folded pow5], of n] bits_above [OF assms(2) [folded pow3], of n]
    by auto
  have "ucast (drop_bit 16 a) = bus"
    by (rule bit_word_eqI) (auto simp: bit_simps bits)
  moreover have "take_bit 5 (ucast (drop_bit 11 a)) = device"
    by (rule bit_word_eqI) (auto simp: bit_simps bits dest: dz)
  moreover have "take_bit 3 (ucast (drop_bit 8 a)) = function"
    by (rule bit_word_eqI) (auto simp: bit_simps bits dest: fz)
  moreover have "ucast a = reg"
    by (rule bit_word_eqI) (auto simp: bit_simps bits)
  ultimately show ?thesis
    using a bits [of 31] by auto
qed

theorem pci_address_fields_witness:
  "pci_get_register_address 0 1 1 8 = Ok 0x80000908"
proof -
  have "unat (1 :: u8) < 32" "unat (1 :: u8) < 8" "(8 :: u8) AND 0x3 = 0"
    by simp_all
  from pci_address_fields [OF this, of 0] show ?thesis
    by (auto simp: pci_get_register_address_def)
qed

text \<open>
  \<open>serial_write\<close> returns as soon as the line is ready: if the transmitter is empty at the \<open>k\<close>-th
  poll and \<open>k\<close> is below the poll bound, the call returns, has sent exactly the one byte and left the
  terminal alone.
\<close>

theorem serial_write_sends:
  assumes "k < fuel" and "fst (serial_is_transmit_empty dev (serial_polled dev k s))"
  shows "\<exists>s'. serial_write dev fuel a s = Ok s' \<and> serial_sent s' = serial_sent s @ [a]
    \<and> hw_term s' = hw_term s"
proof -
  define j where "j = (LEAST i. fst (serial_is_transmit_empty dev (serial_polled dev i s)))"
  have j: "fst (serial_is_transmit_empty dev (serial_polled dev j s))" "j \<le> k"
    unfolding j_def using assms(2) by (rule LeastI, rule Least_le)
  have "serial_wait dev fuel s = Ok (serial_polled dev (Suc j) s)"
    by (rule serial_wait_ready) (use j assms(1) in \<open>auto simp: j_def dest: not_less_Least\<close>)
  then obtain s' where "serial_write dev fuel a s = Ok s'"
    by (simp add: serial_write_def)
  then show ?thesis using serial_write_frame by blast
qed

theorem serial_write_sends_witness:
  "\<exists>s'. serial_write (\<lambda>h p. if length h < 2 then 0 else 0x20) 3 65 hw_start = Ok s'
     \<and> serial_sent s' = [65] \<and> hw_term s' = hw_term hw_start"
proof -
  let ?dev = "\<lambda>h p. if length h < 2 then 0 else 0x20 :: u32"
  have "fst (serial_is_transmit_empty ?dev (serial_polled ?dev (Suc (Suc 0)) hw_start))"
    by (simp add: serial_is_transmit_empty_def in_8_def Let_def hw_start_def)
  moreover have "serial_sent hw_start = []"
    by (simp add: serial_sent_def hw_start_def)
  ultimately show ?thesis
    using serial_write_sends [of "Suc (Suc 0)" 3 ?dev hw_start 65] by simp
qed

end
