(* ===== verification/Io.thy ===== *)
theory Io
  imports Ports CMem
begin

text \<open>
  Character output and formatted printing, \<open>src/src/std/io.c\<close>. Every character goes to the text
  terminal and then to the serial line, which is polled until its transmitter is empty.

  The fixed digit buffers of \<open>put_uint\<close> and \<open>put_hex\<close> are modelled with their sizes: a digit past
  the end is a \<open>Fault\<close>. The variadic arguments are the 32-bit stack slots of the i386 calling
  convention, low half first for a 64-bit argument; reading past the last slot is a \<open>Fault\<close>. The
  format is the list of its bytes before the terminating zero, and a \<open>%s\<close> argument is the address
  of a string in \<open>memory\<close>.
\<close>

section \<open>Definitions\<close>

definition newline :: string where
  "newline = [CHR 0x0A]"

definition put_char :: "device \<Rightarrow> nat \<Rightarrow> u8 \<Rightarrow> hw \<Rightarrow> hw outcome" where
  "put_char dev fuel c s =
     serial_write dev fuel c (s\<lparr>hw_term := terminal_put_char c (hw_term s)\<rparr>)"

fun write_str :: "device \<Rightarrow> nat \<Rightarrow> u8 list \<Rightarrow> hw \<Rightarrow> hw outcome" where
  "write_str dev fuel [] s = Ok s"
| "write_str dev fuel (c # cs) s = obind (put_char dev fuel c s) (write_str dev fuel cs)"

definition write_string :: "device \<Rightarrow> nat \<Rightarrow> memory \<Rightarrow> nat \<Rightarrow> hw \<Rightarrow> hw outcome" where
  "write_string dev fuel m p s =
     obind (str_literal m p) (\<lambda>str.
     write_str dev fuel (bytes_at m (str_data str) (str_length str)) s)"

text \<open>\<open>char digits[19]\<close>, least significant digit first.\<close>

function uint_digits :: "u64 \<Rightarrow> u8 list \<Rightarrow> u8 list outcome" where
  "uint_digits n digits =
     (if n > 0 then
        (if length digits < 19 then uint_digits (n div 10) (digits @ [ucast (n mod 10)])
         else Fault ''digits[19] overflow'')
      else Ok digits)"
  by pat_completeness auto
termination
  by (relation "measure (\<lambda>(n, ds). 19 - length ds)") auto

definition put_uint :: "device \<Rightarrow> nat \<Rightarrow> u64 \<Rightarrow> hw \<Rightarrow> hw outcome" where
  "put_uint dev fuel n s =
     (if n = 0 then put_char dev fuel 48 s
      else obind (uint_digits n []) (\<lambda>digits.
        write_str dev fuel (map (\<lambda>d. d + 48) (rev digits)) s))"

function hex_digits :: "u64 \<Rightarrow> u8 list \<Rightarrow> u8 list outcome" where
  "hex_digits n digits =
     (if n > 0 then
        (if length digits < 16 then hex_digits (drop_bit 4 n) (digits @ [ucast (n AND 0xf)])
         else Fault ''digits[16] overflow'')
      else Ok digits)"
  by pat_completeness auto
termination
  by (relation "measure (\<lambda>(n, ds). 16 - length ds)") auto

declare uint_digits.simps [simp del] hex_digits.simps [simp del]

definition hex_char :: "u8 \<Rightarrow> u8" where
  "hex_char c = (if c \<le> 9 then c + 48 else c - 10 + 65)"

definition put_hex :: "device \<Rightarrow> nat \<Rightarrow> u64 \<Rightarrow> hw \<Rightarrow> hw outcome" where
  "put_hex dev fuel n s =
     (if n = 0 then put_char dev fuel 48 s
      else obind (hex_digits n []) (\<lambda>digits.
        write_str dev fuel (map hex_char (rev digits)) s))"

definition put_int :: "device \<Rightarrow> nat \<Rightarrow> u32 \<Rightarrow> hw \<Rightarrow> hw outcome" where
  "put_int dev fuel n s =
     (if n = 0 then put_char dev fuel 48 s
      else if sint n < 0 then
        obind (put_char dev fuel 45 s) (\<lambda>s1.
        if n = 0x80000000 then Fault ''signed overflow in -n''
        else put_uint dev fuel (scast (- n)) s1)
      else put_uint dev fuel (scast n) s)"

datatype Fmt_Print_Data_Type =
    FMT_PRINT_DT_UNKNOWN
  | FMT_PRINT_DT_CHAR
  | FMT_PRINT_DT_UINT
  | FMT_PRINT_DT_INT
  | FMT_PRINT_DT_HEX
  | FMT_PRINT_DT_STRING

datatype Fmt_Print_Length_Modifier =
    FMT_PRINT_LM_NONE
  | FMT_PRINT_LM_L
  | FMT_PRINT_LM_H
  | FMT_PRINT_LM_HH

record Fmt_Print_Specifier =
  data_type :: Fmt_Print_Data_Type
  length_modifier :: Fmt_Print_Length_Modifier

text \<open>
  The first switch of \<open>parse_specifier\<close> reads the length modifier (\<open>h\<close>, \<open>hh\<close>, \<open>l\<close>), the second
  the conversion. Both step over the character they look at, so a specifier cut off by the end of
  the format moves the pointer past the terminator.
\<close>

fun parse_length_modifier :: "u8 list \<Rightarrow> Fmt_Print_Length_Modifier \<times> u8 list" where
  "parse_length_modifier [] = (FMT_PRINT_LM_NONE, [])"
| "parse_length_modifier (c # fmt) =
     (if c = 104 then
        (case fmt of
           d # fmt' \<Rightarrow> if d = 104 then (FMT_PRINT_LM_HH, fmt') else (FMT_PRINT_LM_H, fmt)
         | [] \<Rightarrow> (FMT_PRINT_LM_H, fmt))
      else if c = 108 then (FMT_PRINT_LM_L, fmt)
      else (FMT_PRINT_LM_NONE, c # fmt))"

definition conversion :: "u8 \<Rightarrow> Fmt_Print_Data_Type" where
  "conversion c =
     (if c = 99 then FMT_PRINT_DT_CHAR
      else if c = 117 then FMT_PRINT_DT_UINT
      else if c = 100 then FMT_PRINT_DT_INT
      else if c = 120 then FMT_PRINT_DT_HEX
      else if c = 115 then FMT_PRINT_DT_STRING
      else FMT_PRINT_DT_UNKNOWN)"

definition parse_specifier :: "u8 list \<Rightarrow> (Fmt_Print_Specifier \<times> u8 list) outcome" where
  "parse_specifier fmt =
     (case parse_length_modifier fmt of
        (lm, []) \<Rightarrow> Fault ''format read past its terminator''
      | (lm, c # fmt') \<Rightarrow> Ok (\<lparr>data_type = conversion c, length_modifier = lm\<rparr>, fmt'))"

fun va_arg32 :: "u32 list \<Rightarrow> (u32 \<times> u32 list) outcome" where
  "va_arg32 [] = Fault ''va_arg past the last argument''"
| "va_arg32 (a # args) = Ok (a, args)"

fun va_arg64 :: "u32 list \<Rightarrow> (u64 \<times> u32 list) outcome" where
  "va_arg64 (lo # hi # args) = Ok (ucast lo OR push_bit 32 (ucast hi), args)"
| "va_arg64 _ = Fault ''va_arg past the last argument''"

definition va_unsigned :: "Fmt_Print_Length_Modifier \<Rightarrow> u32 list \<Rightarrow> (u64 \<times> u32 list) outcome" where
  "va_unsigned lm args =
     (case lm of
        FMT_PRINT_LM_NONE \<Rightarrow> obind (va_arg32 args) (\<lambda>(v, args'). Ok (ucast v, args'))
      | FMT_PRINT_LM_L \<Rightarrow> va_arg64 args
      | FMT_PRINT_LM_H \<Rightarrow> obind (va_arg32 args) (\<lambda>(v, args'). Ok (ucast (ucast v :: u16), args'))
      | FMT_PRINT_LM_HH \<Rightarrow> obind (va_arg32 args) (\<lambda>(v, args'). Ok (ucast (ucast v :: u8), args')))"

definition print_specifier ::
  "device \<Rightarrow> nat \<Rightarrow> memory \<Rightarrow> Fmt_Print_Specifier \<Rightarrow> u32 list \<Rightarrow> hw \<Rightarrow> (u32 list \<times> hw) outcome" where
  "print_specifier dev fuel m specifier args s =
     (case data_type specifier of
        FMT_PRINT_DT_CHAR \<Rightarrow>
          obind (va_arg32 args) (\<lambda>(v, args').
          obind (put_char dev fuel (ucast v) s) (\<lambda>s'. Ok (args', s')))
      | FMT_PRINT_DT_UINT \<Rightarrow>
          obind (va_unsigned (length_modifier specifier) args) (\<lambda>(v, args').
          obind (put_uint dev fuel v s) (\<lambda>s'. Ok (args', s')))
      | FMT_PRINT_DT_INT \<Rightarrow>
          obind (va_arg32 args) (\<lambda>(v, args').
          obind (put_int dev fuel v s) (\<lambda>s'. Ok (args', s')))
      | FMT_PRINT_DT_HEX \<Rightarrow>
          obind (va_unsigned (length_modifier specifier) args) (\<lambda>(v, args').
          obind (put_hex dev fuel v s) (\<lambda>s'. Ok (args', s')))
      | FMT_PRINT_DT_STRING \<Rightarrow>
          obind (va_arg32 args) (\<lambda>(v, args').
          obind (write_string dev fuel m (unat v) s) (\<lambda>s'. Ok (args', s')))
      | FMT_PRINT_DT_UNKNOWN \<Rightarrow>
          obind (write_str dev fuel (ascii ''%(UNKNOWN_SPECIFIER)'') s) (\<lambda>s'. Ok (args, s')))"

lemma parse_length_modifier_shorter:
  "length (snd (parse_length_modifier fmt)) \<le> length fmt"
  by (cases fmt rule: parse_length_modifier.cases) (auto split: list.splits)

lemma parse_specifier_shorter:
  "parse_specifier fmt = Ok (sp, fmt') \<Longrightarrow> length fmt' < length fmt"
  using parse_length_modifier_shorter [of fmt]
  by (auto simp: parse_specifier_def split: prod.splits list.splits)

function fmt_loop ::
  "device \<Rightarrow> nat \<Rightarrow> memory \<Rightarrow> u8 list \<Rightarrow> u32 list \<Rightarrow> hw \<Rightarrow> (u32 list \<times> hw) outcome" where
  "fmt_loop dev fuel m [] args s = Ok (args, s)"
| "fmt_loop dev fuel m (c # fmt) args s =
     (if c = 37 then
        obind (parse_specifier fmt) (\<lambda>r.
        obind (print_specifier dev fuel m (fst r) args s) (\<lambda>q.
        fmt_loop dev fuel m (snd r) (fst q) (snd q)))
      else obind (put_char dev fuel c s) (\<lambda>s'. fmt_loop dev fuel m fmt args s'))"
  by pat_completeness auto
termination
  by (relation "measure (\<lambda>(dev, fuel, m, fmt, args, s). length fmt)")
     (auto dest!: parse_specifier_shorter)

fun extra_arguments :: "device \<Rightarrow> nat \<Rightarrow> u32 list \<Rightarrow> hw \<Rightarrow> hw outcome" where
  "extra_arguments dev fuel [] s = Fault ''va_arg past the last argument''"
| "extra_arguments dev fuel (a # args) s =
     (if a = 0 then Ok s
      else obind (write_str dev fuel (ascii '' %(EXTRA_ARGUMENT)'') s) (extra_arguments dev fuel args))"

definition fmt_print_impl ::
  "device \<Rightarrow> nat \<Rightarrow> memory \<Rightarrow> u8 list \<Rightarrow> u32 list \<Rightarrow> hw \<Rightarrow> hw outcome" where
  "fmt_print_impl dev fuel m fmt args s =
     obind (fmt_loop dev fuel m fmt args s) (\<lambda>(args', s'). extra_arguments dev fuel args' s')"

text \<open>The \<open>fmt_print\<close> macro of \<open>io_def.h\<close> appends a zero argument.\<close>

definition fmt_print :: "device \<Rightarrow> nat \<Rightarrow> memory \<Rightarrow> string \<Rightarrow> u32 list \<Rightarrow> hw \<Rightarrow> hw outcome" where
  "fmt_print dev fuel m fmt args s = fmt_print_impl dev fuel m (ascii fmt) (args @ [0]) s"

text \<open>
  What printing means: the characters \<open>cs\<close> reached both the screen and the serial line, in order.
\<close>

definition emitted :: "u8 list \<Rightarrow> hw \<Rightarrow> hw \<Rightarrow> bool" where
  "emitted cs s s' \<longleftrightarrow> hw_term s' = fold terminal_put_char cs (hw_term s)
     \<and> serial_sent s' = serial_sent s @ cs"

text \<open>Reading a printed number back: the value of a digit string in a base.\<close>

definition digits_value :: "nat \<Rightarrow> nat list \<Rightarrow> nat" where
  "digits_value b ds = foldl (\<lambda>acc d. b * acc + d) 0 ds"

definition uint_chars :: "u64 \<Rightarrow> u8 list outcome" where
  "uint_chars n = (if n = 0 then Ok [48]
     else obind (uint_digits n []) (\<lambda>ds. Ok (map (\<lambda>d. d + 48) (rev ds))))"

definition hex_chars :: "u64 \<Rightarrow> u8 list outcome" where
  "hex_chars n = (if n = 0 then Ok [48]
     else obind (hex_digits n []) (\<lambda>ds. Ok (map hex_char (rev ds))))"

definition hex_digit_value :: "u8 \<Rightarrow> nat" where
  "hex_digit_value c = (if c \<le> 57 then unat c - 48 else unat c - 55)"

section \<open>Terminal and serial line see the same characters\<close>

lemma emitted_refl: "emitted [] s s"
  by (simp add: emitted_def)

lemma emitted_trans: "emitted cs s s' \<Longrightarrow> emitted ds s' s'' \<Longrightarrow> emitted (cs @ ds) s s''"
  by (simp add: emitted_def)

lemma put_char_emitted: "put_char dev fuel c s = Ok s' \<Longrightarrow> emitted [c] s s'"
  using serial_write_frame [of dev fuel c "s\<lparr>hw_term := terminal_put_char c (hw_term s)\<rparr>" s']
  by (simp add: put_char_def emitted_def)

lemma write_emitted: "write_str dev fuel cs s = Ok s' \<Longrightarrow> emitted cs s s'"
proof (induction cs arbitrary: s)
  case Nil
  then show ?case by (simp add: emitted_refl)
next
  case (Cons c cs)
  then obtain s1 where "put_char dev fuel c s = Ok s1" "write_str dev fuel cs s1 = Ok s'"
    by auto
  then have "emitted [c] s s1" "emitted cs s1 s'"
    by (auto dest: put_char_emitted Cons.IH)
  then show ?case using emitted_trans by fastforce
qed

lemma write_str_Nil_fun [simp]: "write_str dev fuel [] = Ok"
  by (simp add: fun_eq_iff)

lemma put_uint_chars: "put_uint dev fuel n s = obind (uint_chars n) (\<lambda>cs. write_str dev fuel cs s)"
  by (simp add: put_uint_def uint_chars_def obind_assoc)

lemma put_hex_chars: "put_hex dev fuel n s = obind (hex_chars n) (\<lambda>cs. write_str dev fuel cs s)"
  by (simp add: put_hex_def hex_chars_def obind_assoc)

lemma put_uint_emitted: "put_uint dev fuel n s = Ok s' \<Longrightarrow> \<exists>cs. uint_chars n = Ok cs \<and> emitted cs s s'"
  by (auto simp: put_uint_chars dest: write_emitted)

lemma put_hex_emitted: "put_hex dev fuel n s = Ok s' \<Longrightarrow> \<exists>cs. hex_chars n = Ok cs \<and> emitted cs s s'"
  by (auto simp: put_hex_chars dest: write_emitted)

text \<open>
  Everything that prints is a sequence of \<open>put_char\<close>. A relation between states that \<open>put_char\<close> keeps, and
  that composes, is kept by every print that returns.
\<close>

locale print_frame =
  fixes R :: "hw \<Rightarrow> hw \<Rightarrow> bool"
  assumes frame_refl: "R s s"
    and frame_trans: "R s s' \<Longrightarrow> R s' s'' \<Longrightarrow> R s s''"
    and frame_put_char: "put_char dev fuel c s = Ok s' \<Longrightarrow> R s s'"
begin

lemma frame_write_str: "write_str dev fuel cs s = Ok s' \<Longrightarrow> R s s'"
proof (induction cs arbitrary: s)
  case Nil
  then show ?case by (simp add: frame_refl)
next
  case (Cons c cs)
  then show ?case by (auto dest!: Cons.IH intro: frame_trans frame_put_char)
qed

lemma frame_numbers:
  "put_uint dev fuel n s = Ok s' \<Longrightarrow> R s s'" "put_hex dev fuel n s = Ok s' \<Longrightarrow> R s s'"
  by (auto simp: put_uint_chars put_hex_chars dest: frame_write_str)

lemma frame_write_string: "write_string dev fuel m p s = Ok s' \<Longrightarrow> R s s'"
  by (auto simp: write_string_def dest: frame_write_str)

lemma frame_put_int: "put_int dev fuel i s = Ok s' \<Longrightarrow> R s s'"
  by (auto simp: put_int_def split: if_splits dest: frame_put_char frame_numbers intro: frame_trans)

lemma frame_specifier:
  "print_specifier dev fuel m sp args s = Ok (args', s') \<Longrightarrow> R s s'"
  by (auto simp: print_specifier_def split: Fmt_Print_Data_Type.splits
      dest: frame_put_char frame_write_str frame_write_string frame_numbers frame_put_int)

lemma frame_loop: "fmt_loop dev fuel m fmt args s = Ok (args', s') \<Longrightarrow> R s s'"
proof (induction dev fuel m fmt args s arbitrary: args' s' rule: fmt_loop.induct)
  case (1 dev fuel m args s)
  then show ?case by (auto intro: frame_refl)
next
  case (2 dev fuel m c fmt args s)
  show ?case
  proof (cases "c = 37")
    case True
    with "2.prems" obtain r q where rq: "parse_specifier fmt = Ok r"
        "print_specifier dev fuel m (fst r) args s = Ok q"
        "fmt_loop dev fuel m (snd r) (fst q) (snd q) = Ok (args', s')"
      by auto
    have "R s (snd q)" using rq(2) frame_specifier by (metis prod.collapse)
    then show ?thesis using "2.IH"(1) [OF True rq(1,2,3)] by (rule frame_trans)
  next
    case False
    with "2.prems" obtain s1 where s1: "put_char dev fuel c s = Ok s1"
        "fmt_loop dev fuel m fmt args s1 = Ok (args', s')"
      by auto
    show ?thesis using frame_put_char [OF s1(1)] "2.IH"(2) [OF False s1(1,2)] by (rule frame_trans)
  qed
qed

lemma frame_extra: "extra_arguments dev fuel args s = Ok s' \<Longrightarrow> R s s'"
proof (induction args arbitrary: s)
  case Nil
  then show ?case by simp
next
  case (Cons a args)
  then show ?case
    by (auto intro: frame_refl split: if_splits dest!: Cons.IH dest: frame_write_str intro: frame_trans)
qed

lemma frame_fmt_print: "fmt_print dev fuel m fmt args s = Ok s' \<Longrightarrow> R s s'"
  by (auto simp: fmt_print_def fmt_print_impl_def dest!: frame_loop frame_extra intro: frame_trans)

end

interpretation mirrored: print_frame "\<lambda>s s'. \<exists>cs. emitted cs s s'"
  by unfold_locales (blast intro: emitted_refl emitted_trans put_char_emitted)+

text \<open>Printing touches no port but the two of the serial line.\<close>

fun serial_event :: "port_event \<Rightarrow> bool" where
  "serial_event (Out8 p v) \<longleftrightarrow> p = PORT"
| "serial_event (In8 p v) \<longleftrightarrow> p = PORT + 5"
| "serial_event _ \<longleftrightarrow> False"

definition only_serial :: "hw \<Rightarrow> hw \<Rightarrow> bool" where
  "only_serial s s' \<longleftrightarrow> (\<exists>evs. hw_ports s' = evs @ hw_ports s \<and> list_all serial_event evs)"

lemma only_serial_trans: "only_serial s s' \<Longrightarrow> only_serial s' s'' \<Longrightarrow> only_serial s s''"
  by (auto simp: only_serial_def)

lemma only_serial_refl: "only_serial s s"
  by (simp add: only_serial_def)

lemma serial_wait_only_serial: "serial_wait dev fuel s = Ok s' \<Longrightarrow> only_serial s s'"
proof (induction fuel arbitrary: s)
  case 0
  then show ?case by simp
next
  case (Suc fuel)
  have step: "only_serial s (snd (serial_is_transmit_empty dev s))"
    by (simp add: only_serial_def serial_is_transmit_empty_def in_8_def Let_def)
  with Suc show ?case
    by (auto simp: Let_def case_prod_unfold split: if_splits dest: Suc.IH intro: only_serial_trans)
qed

lemma put_char_only_serial: "put_char dev fuel c s = Ok s' \<Longrightarrow> only_serial s s'"
  by (auto simp: put_char_def serial_write_def out_8_def only_serial_def dest!: serial_wait_only_serial)

interpretation quiet: print_frame only_serial
  by unfold_locales (blast intro: only_serial_refl only_serial_trans put_char_only_serial)+

section \<open>Digit buffers\<close>

text \<open>
  The contract of the two digit loops: they peel base-\<open>base\<close> digits off a 64-bit number into a
  buffer of \<open>cap\<close> entries.
\<close>

locale digit_loop =
  fixes loop :: "u64 \<Rightarrow> u8 list \<Rightarrow> u8 list outcome"
    and dig :: "u64 \<Rightarrow> u8" and shift :: "u64 \<Rightarrow> u64"
    and base :: nat and cap :: nat and err :: string
  assumes loop_eq: "loop n ds =
      (if n > 0 then (if length ds < cap then loop (shift n) (ds @ [dig n]) else Fault err) else Ok ds)"
    and base: "2 \<le> base"
    and dig: "unat (dig n) = unat n mod base"
    and shift: "unat (shift n) = unat n div base"
begin

lemma digits_value_snoc: "digits_value b (ds @ [d]) = b * digits_value b ds + d"
  by (simp add: digits_value_def)

lemma loop_fits:
  "k + length ds = cap \<Longrightarrow> unat n < base ^ k \<Longrightarrow>
     \<exists>es. loop n ds = Ok (ds @ es) \<and> digits_value base (map unat (rev es)) = unat n
       \<and> (\<forall>d \<in> set es. unat d < base) \<and> (n \<noteq> 0 \<longrightarrow> es \<noteq> [] \<and> last es \<noteq> 0)"
proof (induction k arbitrary: n ds)
  case 0
  then have "n = 0" by (simp add: unat_eq_zero)
  then show ?case by (subst loop_eq) (simp add: digits_value_def)
next
  case (Suc k)
  show ?case
  proof (cases "n = 0")
    case True
    then show ?thesis by (subst loop_eq) (simp add: digits_value_def)
  next
    case False
    have "unat (shift n) < base ^ k"
      using Suc.prems(2) base by (simp add: shift less_mult_imp_div_less mult.commute)
    then obtain es where es: "loop (shift n) (ds @ [dig n]) = Ok ((ds @ [dig n]) @ es)"
        "digits_value base (map unat (rev es)) = unat (shift n)" "\<forall>d \<in> set es. unat d < base"
        "shift n \<noteq> 0 \<longrightarrow> es \<noteq> [] \<and> last es \<noteq> 0"
      using Suc.IH [of "ds @ [dig n]" "shift n"] Suc.prems(1) by auto
    have "loop n ds = Ok (ds @ dig n # es)"
      using es(1) False Suc.prems(1) by (subst loop_eq) (simp add: word_gt_0)
    moreover have "digits_value base (map unat (rev (dig n # es))) = unat n"
      using es(2) by (simp add: digits_value_snoc dig shift)
    moreover have "\<forall>d \<in> set (dig n # es). unat d < base"
      using es(3) base by (simp add: dig)
    moreover have "last (dig n # es) \<noteq> 0"
    proof (cases "shift n = 0")
      case True
      then have "unat n div base = 0"
        using shift [of n] by simp
      with base have "unat n < base"
        by (simp add: div_eq_0_iff)
      then have "unat (dig n) = unat n"
        by (simp add: dig)
      with False have "dig n \<noteq> 0" by (metis unat_eq_zero)
      moreover have "es = []"
      proof -
        have "loop (shift n) (ds @ [dig n]) = Ok (ds @ [dig n])"
          using True by (subst loop_eq) simp
        with es(1) show ?thesis by simp
      qed
      ultimately show ?thesis by simp
    next
      case False
      with es(4) show ?thesis by simp
    qed
    ultimately show ?thesis by (intro exI [of _ "dig n # es"]) simp
  qed
qed

lemma loop_overflows:
  "k + length ds = cap \<Longrightarrow> base ^ k \<le> unat n \<Longrightarrow> loop n ds = Fault err"
proof (induction k arbitrary: n ds)
  case 0
  then show ?case by (subst loop_eq) (auto simp: word_gt_0)
next
  case (Suc k)
  have "base ^ k \<le> unat (shift n)"
    using Suc.prems(2) base by (simp add: shift less_eq_div_iff_mult_less_eq mult.commute)
  then have "loop (shift n) (ds @ [dig n]) = Fault err"
    using Suc.IH [of "ds @ [dig n]" "shift n"] Suc.prems(1) by simp
  moreover have "n > 0"
  proof -
    have "0 < base ^ Suc k" using base by simp
    with Suc.prems(2) have "0 < unat n" by linarith
    then show ?thesis by (simp add: word_less_nat_alt)
  qed
  ultimately show ?case using Suc.prems(1) by (subst loop_eq) simp
qed

end

lemma unat_ucast_u8: "unat (n :: u64) < 256 \<Longrightarrow> unat (ucast n :: u8) = unat n"
  by (simp add: unsigned_ucast_eq take_bit_eq_mod)

interpretation dec: digit_loop uint_digits "\<lambda>n. ucast (n mod 10)" "\<lambda>n. n div 10" 10 19
  "''digits[19] overflow''"
proof
  fix n :: u64 and ds
  show "uint_digits n ds = (if n > 0 then (if length ds < 19
      then uint_digits (n div 10) (ds @ [ucast (n mod 10)]) else Fault ''digits[19] overflow'')
      else Ok ds)"
    by (subst uint_digits.simps) simp
  show "unat (ucast (n mod 10) :: u8) = unat n mod 10"
    by (simp add: unat_ucast_u8 unat_mod)
  show "unat (n div 10) = unat n div 10"
    by (simp add: unat_div)
qed simp

interpretation hex: digit_loop hex_digits "\<lambda>n. ucast (n AND 0xf)" "drop_bit 4" 16 16
  "''digits[16] overflow''"
proof
  fix n :: u64 and ds
  show "hex_digits n ds = (if n > 0 then (if length ds < 16
      then hex_digits (drop_bit 4 n) (ds @ [ucast (n AND 0xf)]) else Fault ''digits[16] overflow'')
      else Ok ds)"
    by (subst hex_digits.simps) simp
  have "n AND 0xf = take_bit 4 n"
    by (simp add: take_bit_eq_mask mask_numeral)
  then have m: "unat (n AND 0xf) = unat n mod 16"
    by (simp add: unat_take_bit)
  then show "unat (ucast (n AND 0xf) :: u8) = unat n mod 16"
    by (subst unat_ucast_u8) (simp_all add: m)
  show "unat (drop_bit 4 n) = unat n div 16"
    by (simp add: unat_drop_bit)
qed simp

section \<open>Printed numbers read back\<close>

lemma unat_digit_char: "unat (d :: u8) < 10 \<Longrightarrow> unat (d + 48) = unat d + 48"
  by (simp add: unat_word_ariths)

lemma uint_chars_value:
  assumes "unat n < 10 ^ 19"
  shows "\<exists>cs. uint_chars n = Ok cs \<and> cs \<noteq> [] \<and> (\<forall>c \<in> set cs. 48 \<le> unat c \<and> unat c \<le> 57)
    \<and> digits_value 10 (map (\<lambda>c. unat c - 48) cs) = unat n \<and> (n \<noteq> 0 \<longrightarrow> hd cs \<noteq> 48)"
proof (cases "n = 0")
  case True
  then show ?thesis by (simp add: uint_chars_def digits_value_def)
next
  case False
  obtain es where es: "uint_digits n [] = Ok es" "digits_value 10 (map unat (rev es)) = unat n"
      "\<forall>d \<in> set es. unat d < 10" "es \<noteq> []" "last es \<noteq> 0"
    using dec.loop_fits [of 19 "[]" n] assms False by auto
  define cs where "cs = map (\<lambda>d. d + 48) (rev es)"
  have "map (\<lambda>c. unat c - 48) cs = map unat (rev es)"
    using es(3) by (auto simp: cs_def unat_digit_char)
  moreover have "hd cs \<noteq> 48"
    using es(4,5) by (simp add: cs_def hd_map hd_rev)
  moreover have "\<forall>c \<in> set cs. 48 \<le> unat c \<and> unat c \<le> 57"
    using es(3) by (auto simp: cs_def unat_digit_char)
  moreover have "uint_chars n = Ok cs"
    using False es(1) by (simp add: uint_chars_def cs_def)
  moreover have "cs \<noteq> []"
    using es(4) by (simp add: cs_def)
  ultimately show ?thesis using es(2) by (intro exI [of _ cs]) simp
qed

lemma uint_chars_overflow:
  "10 ^ 19 \<le> unat n \<Longrightarrow> uint_chars n = Fault ''digits[19] overflow''"
  using dec.loop_overflows [of 19 "[]" n] by (auto simp: uint_chars_def)

lemma hex_digit_value_char:
  assumes "unat d < 16"
  shows "hex_digit_value (hex_char d) = unat d"
proof -
  have "d \<le> 9 \<longleftrightarrow> unat d \<le> 9" by (simp add: word_le_nat_alt)
  moreover have "unat (d + 48) = unat d + 48"
    using assms by (simp add: unat_word_ariths)
  moreover have "unat (d - 10 + 65) = unat d + 55"
  proof -
    have "d - 10 + 65 = d + 55" by simp
    with assms show ?thesis by (simp add: unat_word_ariths)
  qed
  ultimately show ?thesis
    by (auto simp: hex_digit_value_def hex_char_def word_le_nat_alt)
qed

lemma hex_chars_value:
  "\<exists>cs. hex_chars n = Ok cs \<and> cs \<noteq> [] \<and> digits_value 16 (map hex_digit_value cs) = unat n"
proof (cases "n = 0")
  case True
  then show ?thesis by (simp add: hex_chars_def digits_value_def hex_digit_value_def)
next
  case False
  have "unat n < 16 ^ 16"
    using unsigned_less [of n] by simp
  then obtain es where es: "hex_digits n [] = Ok es" "digits_value 16 (map unat (rev es)) = unat n"
      "\<forall>d \<in> set es. unat d < 16" "es \<noteq> []"
    using hex.loop_fits [of 16 "[]" n] False by auto
  have "map hex_digit_value (map hex_char (rev es)) = map unat (rev es)"
    using es(3) by (auto simp: hex_digit_value_char)
  with es(2) have "digits_value 16 (map hex_digit_value (map hex_char (rev es))) = unat n"
    by (simp only:)
  moreover have "hex_chars n = Ok (map hex_char (rev es))"
    using False es(1) by (simp add: hex_chars_def)
  ultimately show ?thesis
    using es(4) by (intro exI [of _ "map hex_char (rev es)"]) simp
qed

section \<open>Printing on a ready line\<close>

text \<open>The documented meaning of bit 5 of the line status register on an idle line.\<close>

definition line_ready :: "device \<Rightarrow> bool" where
  "line_ready dev \<longleftrightarrow> (\<forall>h. (ucast (dev h (PORT + 5)) :: u8) AND 0x20 \<noteq> 0)"

lemma put_char_ready:
  assumes "line_ready dev" and "0 < fuel"
  shows "\<exists>s'. put_char dev fuel c s = Ok s'"
proof -
  obtain n where "fuel = Suc n"
    using assms(2) by (cases fuel) auto
  then show ?thesis
    using assms(1)
    by (simp add: put_char_def serial_write_def serial_is_transmit_empty_def in_8_def Let_def
        line_ready_def)
qed

lemma write_str_ready:
  assumes "line_ready dev" and "0 < fuel"
  shows "\<exists>s'. write_str dev fuel cs s = Ok s' \<and> emitted cs s s'"
proof -
  have "\<exists>s'. write_str dev fuel cs s = Ok s'" for s
  proof (induction cs arbitrary: s)
    case Nil
    then show ?case by simp
  next
    case (Cons c cs)
    then show ?case using put_char_ready [OF assms, of c s] by auto
  qed
  then show ?thesis using write_emitted by blast
qed

lemma put_uint_ready:
  assumes "line_ready dev" and "0 < fuel" and "unat n < 10 ^ 19"
  shows "\<exists>s'. put_uint dev fuel n s = Ok s'"
  using uint_chars_value [OF assms(3)] write_str_ready [OF assms(1,2)]
  by (force simp: put_uint_chars)

lemma put_hex_ready:
  assumes "line_ready dev" and "0 < fuel"
  shows "\<exists>s'. put_hex dev fuel n s = Ok s'"
  using hex_chars_value [of n] write_str_ready [OF assms] by (force simp: put_hex_chars)

text \<open>Text without conversions is printed as it stands.\<close>

lemma fmt_loop_plain:
  "37 \<notin> set pre \<Longrightarrow> fmt_loop dev fuel m (pre @ rest) args s =
     obind (write_str dev fuel pre s) (fmt_loop dev fuel m rest args)"
  by (induction pre arbitrary: s) (auto simp: obind_assoc intro: obind_cong)

text \<open>A line with one hexadecimal conversion and nothing else to expand.\<close>

definition hex_line :: "u8 list \<Rightarrow> bool" where
  "hex_line fmt =
     (case dropWhile (\<lambda>c. c \<noteq> 37) fmt of
        c # rest \<Rightarrow> list_ex (\<lambda>conv. take (length conv) rest = conv \<and> 37 \<notin> set (drop (length conv) rest))
                     [[120], [104, 120], [104, 104, 120]]
      | [] \<Rightarrow> False)"

lemma hex_line_split:
  assumes "hex_line fmt"
  obtains pre conv post where "fmt = pre @ 37 # conv @ post" "37 \<notin> set pre" "37 \<notin> set post"
    "conv \<in> {[120], [104, 120], [104, 104, 120]}"
proof -
  obtain c rest conv where dw: "dropWhile (\<lambda>c. c \<noteq> 37) fmt = c # rest"
      and conv: "conv \<in> {[120], [104, 120], [104, 104, 120]}" "take (length conv) rest = conv"
        "37 \<notin> set (drop (length conv) rest)"
  proof (cases "dropWhile (\<lambda>c. c \<noteq> 37) fmt")
    case Nil
    then show ?thesis using assms unfolding hex_line_def by (simp only: list.case)
  next
    case (Cons c rest)
    with assms obtain conv where "conv \<in> set [[120], [104, 120], [104, 104, 120]]"
        "take (length conv) rest = conv \<and> 37 \<notin> set (drop (length conv) rest)"
      unfolding hex_line_def list_ex_iff by (simp only: list.case) blast
    with Cons show ?thesis by (intro that [of c rest conv]) simp_all
  qed
  have c: "c = 37"
    using dw by (metis (mono_tags, lifting) dropWhile_eq_Cons_conv)
  have "fmt = takeWhile (\<lambda>c. c \<noteq> 37) fmt @ 37 # conv @ drop (length conv) rest"
    using takeWhile_dropWhile_id [of "\<lambda>c. c \<noteq> 37" fmt] append_take_drop_id [of "length conv" rest]
    unfolding dw c conv(2) by simp
  then show thesis
    using conv by (intro that [of "takeWhile (\<lambda>c. c \<noteq> 37) fmt" conv "drop (length conv) rest"])
       (auto dest: set_takeWhileD)
qed

lemma fmt_print_hex_line:
  assumes "line_ready dev" and "0 < fuel" and "hex_line (ascii fmt)"
  shows "\<exists>s'. fmt_print dev fuel m fmt [v] s = Ok s'"
proof -
  note ready = write_str_ready [OF assms(1,2)]
  obtain pre conv post where f: "ascii fmt = pre @ 37 # conv @ post" "37 \<notin> set pre" "37 \<notin> set post"
      "conv \<in> {[120], [104, 120], [104, 104, 120]}"
    using hex_line_split [OF assms(3)] .
  obtain s1 where s1: "write_str dev fuel pre s = Ok s1"
    using ready by blast
  obtain sp u where sp: "parse_specifier (conv @ post) = Ok (sp, post)"
      "print_specifier dev fuel m sp [v, 0] s1 = obind (put_hex dev fuel u s1) (\<lambda>s'. Ok ([0], s'))"
    using f(4) by (auto simp: parse_specifier_def conversion_def print_specifier_def va_unsigned_def)
  obtain s2 where s2: "put_hex dev fuel u s1 = Ok s2"
    using put_hex_ready [OF assms(1,2)] by blast
  obtain s3 where s3: "write_str dev fuel post s2 = Ok s3"
    using ready by blast
  have "fmt_loop dev fuel m (pre @ 37 # conv @ post) [v, 0] s = Ok ([0], s3)"
    using fmt_loop_plain [OF f(3), of dev fuel m "[]" "[0]" s2]
    by (simp add: fmt_loop_plain [OF f(2)] s1 sp s2 s3)
  then show ?thesis by (simp add: fmt_print_def fmt_print_impl_def f(1))
qed

section \<open>Properties\<close>

text \<open>
  Whatever is printed, the screen and the serial line get the same characters: every call of
  \<open>fmt_print\<close> that returns has fed one sequence of characters to the terminal and appended exactly
  that sequence to what was sent over the serial line.
\<close>

theorem fmt_print_mirrored:
  assumes "fmt_print dev fuel m fmt args s = Ok s'"
  shows "\<exists>cs. hw_term s' = fold terminal_put_char cs (hw_term s)
    \<and> serial_sent s' = serial_sent s @ cs"
  using mirrored.frame_fmt_print [OF assms] unfolding emitted_def .

theorem fmt_print_mirrored_witness:
  "\<exists>s' cs. fmt_print (\<lambda>_ _. 0x20) 1 (\<lambda>_. 0) ''a%hhx'' [0xFF] hw_start = Ok s'
     \<and> hw_term s' = fold terminal_put_char cs (hw_term hw_start)"
proof -
  obtain s' where s': "fmt_print (\<lambda>_ _. 0x20) 1 (\<lambda>_. 0) ''a%hhx'' [0xFF] hw_start = Ok s'"
    by (simp add: fmt_print_def fmt_print_impl_def ascii_def parse_specifier_def conversion_def
        print_specifier_def va_unsigned_def put_hex_def hex_digits.simps put_char_def
        serial_write_def serial_is_transmit_empty_def in_8_def Let_def)
  then show ?thesis using fmt_print_mirrored by blast
qed

text \<open>
  (C33) \<open>put_uint\<close> prints a number below \<open>10 ^ 19\<close> in decimal: on a ready line it returns, what it sent
  is a non-empty string of decimal digits without a leading zero (but for 0 itself), and reading
  that string back gives the number.
\<close>

theorem put_uint_decimal:
  assumes "line_ready dev" and "0 < fuel" and "unat n < 10 ^ 19"
  shows "\<exists>s' cs. put_uint dev fuel n s = Ok s' \<and> emitted cs s s' \<and> cs \<noteq> []
    \<and> (\<forall>c \<in> set cs. 48 \<le> unat c \<and> unat c \<le> 57) \<and> (n \<noteq> 0 \<longrightarrow> hd cs \<noteq> 48)
    \<and> digits_value 10 (map (\<lambda>c. unat c - 48) cs) = unat n"
proof -
  obtain cs where cs: "uint_chars n = Ok cs" "cs \<noteq> []"
      "\<forall>c \<in> set cs. 48 \<le> unat c \<and> unat c \<le> 57" "n \<noteq> 0 \<longrightarrow> hd cs \<noteq> 48"
      "digits_value 10 (map (\<lambda>c. unat c - 48) cs) = unat n"
    using uint_chars_value [OF assms(3)] by blast
  moreover obtain s' where "write_str dev fuel cs s = Ok s'" "emitted cs s s'"
    using write_str_ready [OF assms(1,2)] by blast
  ultimately show ?thesis by (intro exI [of _ s'] exI [of _ cs]) (simp add: put_uint_chars)
qed

theorem put_uint_decimal_witness:
  "\<exists>s' cs. put_uint (\<lambda>_ _. 0x20) 1 1234 hw_start = Ok s' \<and> emitted cs hw_start s'
     \<and> digits_value 10 (map (\<lambda>c. unat c - 48) cs) = 1234"
proof -
  have "line_ready (\<lambda>_ _. 0x20)" "(0 :: nat) < 1" "unat (1234 :: u64) < 10 ^ 19"
    by (simp_all add: line_ready_def)
  from put_uint_decimal [OF this, of hw_start] show ?thesis by auto
qed

text \<open>
  The digit buffer of \<open>put_uint\<close> is one entry too short for 64-bit numbers: every number of
  twenty digits writes past the end of \<open>digits[19]\<close>, whatever the devices do.
\<close>

theorem put_uint_buffer_overflow:
  assumes "10 ^ 19 \<le> unat n"
  shows "put_uint dev fuel n s = Fault ''digits[19] overflow''"
  using uint_chars_overflow [OF assms] by (simp add: put_uint_chars)

theorem put_uint_buffer_overflow_witness:
  "put_uint (\<lambda>_ _. 0x20) 1 18446744073709551615 hw_start = Fault ''digits[19] overflow''"
  by (rule put_uint_buffer_overflow) simp

text \<open>
  \<open>put_hex\<close> prints every 64-bit number: on a ready line it returns, its 16-entry buffer never
  overflows, and the characters read back as hexadecimal digits give the number.
\<close>

theorem put_hex_roundtrip:
  assumes "line_ready dev" and "0 < fuel"
  shows "\<exists>s' cs. put_hex dev fuel n s = Ok s' \<and> emitted cs s s' \<and> cs \<noteq> []
    \<and> digits_value 16 (map hex_digit_value cs) = unat n"
proof -
  obtain cs where cs: "hex_chars n = Ok cs" "cs \<noteq> []"
      "digits_value 16 (map hex_digit_value cs) = unat n"
    using hex_chars_value by blast
  moreover obtain s' where "write_str dev fuel cs s = Ok s'" "emitted cs s s'"
    using write_str_ready [OF assms] by blast
  ultimately show ?thesis by (intro exI [of _ s'] exI [of _ cs]) (simp add: put_hex_chars)
qed

theorem put_hex_roundtrip_witness:
  "\<exists>s' cs. put_hex (\<lambda>_ _. 0x20) 1 0xDEADBEEF hw_start = Ok s' \<and> emitted cs hw_start s'
     \<and> digits_value 16 (map hex_digit_value cs) = 0xDEADBEEF"
proof -
  have "line_ready (\<lambda>_ _. 0x20)" "(0 :: nat) < 1"
    by (simp_all add: line_ready_def)
  from put_hex_roundtrip [OF this, of "0xDEADBEEF" hw_start] show ?thesis by auto
qed

end
