(* ===== verification/Interrupts.thy ===== *)
theory Interrupts
  imports Io
begin

text \<open>
  Interrupts: the descriptor table, the handler table and the C entry points of
  \<open>src/src/arch/x86/interrupts.c\<close>, the frame layout of \<open>interrupts_def.h\<close> and
  \<open>keyboard_handler\<close> of \<open>src/src/kernel/kernel.c\<close>.

  The 256 assignments of \<open>interrupts_init\<close> are kept in the order of the source, sixteen vectors to
  a definition. The addresses of the assembly stubs \<open>exc_start_0\<close> to \<open>int_start_255\<close> come from the
  linker and are a parameter. The words an interrupt leaves on the stack are modelled to state what
  a handler finds in its \<open>Interrupt_Frame\<close>.
\<close>

section \<open>Definitions\<close>

record Gate_Descriptor =
  offset_low :: u16
  segment_selector :: u16
  reserved :: u8
  gate_flags :: u8
  offset_high :: u16

record Interrupt_Frame =
  edi :: u32
  esi :: u32
  ebp :: u32
  ebx :: u32
  edx :: u32
  ecx :: u32
  eax :: u32
  error_code :: u16
  error_code_high :: u16
  eip :: u32
  cs :: u16
  cs_high :: u16
  eflags :: u32
  esp :: u32
  ss :: u16
  ss_high :: u16

abbreviation (input) IDT_GATE_INT32 :: u8 where "IDT_GATE_INT32 \<equiv> 0xE"
abbreviation (input) IDT_PRIV_3 :: u8 where "IDT_PRIV_3 \<equiv> 0x60"
abbreviation (input) IDT_PRESENT :: u8 where "IDT_PRESENT \<equiv> 0x80"

type_synonym idt_table = "nat \<Rightarrow> Gate_Descriptor"
type_synonym Registered_Handler = "Interrupt_Frame \<Rightarrow> hw \<Rightarrow> hw outcome"

record interrupts =
  idt :: idt_table
  idtr_size :: u16
  idtr_offset :: u32
  registered_handlers :: "nat \<Rightarrow> Registered_Handler"
  idt_loaded :: bool
  interrupts_enabled :: bool

definition interrupts_create_descriptor :: "u32 \<Rightarrow> u16 \<Rightarrow> u8 \<Rightarrow> Gate_Descriptor" where
  "interrupts_create_descriptor off sel fl =
     \<lparr>offset_low = ucast (off AND 0xffff), segment_selector = sel, reserved = 0, gate_flags = fl,
      offset_high = ucast (drop_bit 16 off AND 0xffff)\<rparr>"

definition default_registered_handler :: Registered_Handler where
  "default_registered_handler frame s = Ok s"

text \<open>The entry stub of each vector: exceptions below 32, interrupts from 32 on.\<close>

definition stub_address :: "(nat \<Rightarrow> u32) \<Rightarrow> (nat \<Rightarrow> u32) \<Rightarrow> nat \<Rightarrow> u32" where
  "stub_address exc_start int_start v = (if v < 32 then exc_start v else int_start v)"

definition set_gates :: "(nat \<Rightarrow> u32) \<Rightarrow> u16 \<Rightarrow> u8 \<Rightarrow> nat list \<Rightarrow> idt_table \<Rightarrow> idt_table" where
  "set_gates start sel fl vs t =
     fold (\<lambda>v t. t(v := interrupts_create_descriptor (start v) sel fl)) vs t"

definition idt_gates_0_15 :: "(nat \<Rightarrow> u32) \<Rightarrow> u16 \<Rightarrow> u8 \<Rightarrow> idt_table \<Rightarrow> idt_table" where
  "idt_gates_0_15 start sel fl t = set_gates start sel fl [0..<16] t"

definition idt_gates_16_31 :: "(nat \<Rightarrow> u32) \<Rightarrow> u16 \<Rightarrow> u8 \<Rightarrow> idt_table \<Rightarrow> idt_table" where
  "idt_gates_16_31 start sel fl t = set_gates start sel fl [16..<32] t"

definition idt_gates_32_47 :: "(nat \<Rightarrow> u32) \<Rightarrow> u16 \<Rightarrow> u8 \<Rightarrow> idt_table \<Rightarrow> idt_table" where
  "idt_gates_32_47 start sel fl t = set_gates start sel fl [32..<48] t"

definition idt_gates_48_63 :: "(nat \<Rightarrow> u32) \<Rightarrow> u16 \<Rightarrow> u8 \<Rightarrow> idt_table \<Rightarrow> idt_table" where
  "idt_gates_48_63 start sel fl t = set_gates start sel fl [48..<64] t"

definition idt_gates_64_79 :: "(nat \<Rightarrow> u32) \<Rightarrow> u16 \<Rightarrow> u8 \<Rightarrow> idt_table \<Rightarrow> idt_table" where
  "idt_gates_64_79 start sel fl t = set_gates start sel fl [64..<80] t"

definition idt_gates_80_95 :: "(nat \<Rightarrow> u32) \<Rightarrow> u16 \<Rightarrow> u8 \<Rightarrow> idt_table \<Rightarrow> idt_table" where
  "idt_gates_80_95 start sel fl t = set_gates start sel fl [80..<96] t"

definition idt_gates_96_111 :: "(nat \<Rightarrow> u32) \<Rightarrow> u16 \<Rightarrow> u8 \<Rightarrow> idt_table \<Rightarrow> idt_table" where
  "idt_gates_96_111 start sel fl t = set_gates start sel fl [96..<112] t"

definition idt_gates_112_127 :: "(nat \<Rightarrow> u32) \<Rightarrow> u16 \<Rightarrow> u8 \<Rightarrow> idt_table \<Rightarrow> idt_table" where
  "idt_gates_112_127 start sel fl t = set_gates start sel fl [112..<128] t"

definition idt_gates_128_143 :: "(nat \<Rightarrow> u32) \<Rightarrow> u16 \<Rightarrow> u8 \<Rightarrow> idt_table \<Rightarrow> idt_table" where
  "idt_gates_128_143 start sel fl t = set_gates start sel fl [128..<144] t"

definition idt_gates_144_159 :: "(nat \<Rightarrow> u32) \<Rightarrow> u16 \<Rightarrow> u8 \<Rightarrow> idt_table \<Rightarrow> idt_table" where
  "idt_gates_144_159 start sel fl t = set_gates start sel fl [144..<160] t"

definition idt_gates_160_175 :: "(nat \<Rightarrow> u32) \<Rightarrow> u16 \<Rightarrow> u8 \<Rightarrow> idt_table \<Rightarrow> idt_table" where
  "idt_gates_160_175 start sel fl t = set_gates start sel fl [160..<176] t"

definition idt_gates_176_191 :: "(nat \<Rightarrow> u32) \<Rightarrow> u16 \<Rightarrow> u8 \<Rightarrow> idt_table \<Rightarrow> idt_table" where
  "idt_gates_176_191 start sel fl t = set_gates start sel fl [176..<192] t"

definition idt_gates_192_207 :: "(nat \<Rightarrow> u32) \<Rightarrow> u16 \<Rightarrow> u8 \<Rightarrow> idt_table \<Rightarrow> idt_table" where
  "idt_gates_192_207 start sel fl t = set_gates start sel fl [192..<208] t"

definition idt_gates_208_223 :: "(nat \<Rightarrow> u32) \<Rightarrow> u16 \<Rightarrow> u8 \<Rightarrow> idt_table \<Rightarrow> idt_table" where
  "idt_gates_208_223 start sel fl t = set_gates start sel fl [208..<224] t"

definition idt_gates_224_239 :: "(nat \<Rightarrow> u32) \<Rightarrow> u16 \<Rightarrow> u8 \<Rightarrow> idt_table \<Rightarrow> idt_table" where
  "idt_gates_224_239 start sel fl t = set_gates start sel fl [224..<240] t"

definition idt_gates_240_255 :: "(nat \<Rightarrow> u32) \<Rightarrow> u16 \<Rightarrow> u8 \<Rightarrow> idt_table \<Rightarrow> idt_table" where
  "idt_gates_240_255 start sel fl t = set_gates start sel fl [240..<256] t"

definition idt_gates :: "(nat \<Rightarrow> u32) \<Rightarrow> u16 \<Rightarrow> u8 \<Rightarrow> idt_table \<Rightarrow> idt_table" where
  "idt_gates start sel fl t0 =
     (let t1 = idt_gates_0_15 start sel fl t0;
          t2 = idt_gates_16_31 start sel fl t1;
          t3 = idt_gates_32_47 start sel fl t2;
          t4 = idt_gates_48_63 start sel fl t3;
          t5 = idt_gates_64_79 start sel fl t4;
          t6 = idt_gates_80_95 start sel fl t5;
          t7 = idt_gates_96_111 start sel fl t6;
          t8 = idt_gates_112_127 start sel fl t7;
          t9 = idt_gates_128_143 start sel fl t8;
          t10 = idt_gates_144_159 start sel fl t9;
          t11 = idt_gates_160_175 start sel fl t10;
          t12 = idt_gates_176_191 start sel fl t11;
          t13 = idt_gates_192_207 start sel fl t12;
          t14 = idt_gates_208_223 start sel fl t13;
          t15 = idt_gates_224_239 start sel fl t14;
          t16 = idt_gates_240_255 start sel fl t15
      in t16)"

text \<open>The end of \<open>interrupts_init\<close>: the IDTR, the handler table, \<open>lidt\<close> and \<open>sti\<close>.\<close>

definition interrupts_load :: "u32 \<Rightarrow> interrupts \<Rightarrow> interrupts" where
  "interrupts_load idt_addr i =
     i\<lparr>idtr_size := of_nat (256 * 8) - 1, idtr_offset := idt_addr,
       registered_handlers :=
         fold (\<lambda>k h. h(k := default_registered_handler)) [0..<256 - 32] (registered_handlers i),
       idt_loaded := True, interrupts_enabled := True\<rparr>"

definition interrupts_init ::
  "(nat \<Rightarrow> u32) \<Rightarrow> (nat \<Rightarrow> u32) \<Rightarrow> u32 \<Rightarrow> interrupts \<Rightarrow> hw \<Rightarrow> interrupts \<times> hw" where
  "interrupts_init exc_start int_start idt_addr i s =
     (let s' = pic_init s;
          sel = 0x8;
          fl = IDT_GATE_INT32 OR IDT_PRIV_3 OR IDT_PRESENT;
          t = idt_gates (stub_address exc_start int_start) sel fl (idt i)
      in (interrupts_load idt_addr (i\<lparr>idt := t\<rparr>), s'))"

fun print_lines :: "device \<Rightarrow> nat \<Rightarrow> memory \<Rightarrow> (string \<times> u32) list \<Rightarrow> hw \<Rightarrow> hw outcome" where
  "print_lines dev fuel m [] s = Ok s"
| "print_lines dev fuel m ((fmt, v) # ls) s =
     obind (fmt_print dev fuel m fmt [v] s) (print_lines dev fuel m ls)"

definition c_exception_handler ::
  "device \<Rightarrow> nat \<Rightarrow> memory \<Rightarrow> u32 \<Rightarrow> Interrupt_Frame \<Rightarrow> hw \<Rightarrow> hw outcome" where
  "c_exception_handler dev fuel m vector frame s =
     obind (print_lines dev fuel m
       [(''Got exception %d!'' @ newline, vector),
        (''  edi: %x'' @ newline, edi frame),
        (''  esi: %x'' @ newline, esi frame),
        (''  ebp: %x'' @ newline, ebp frame),
        (''  ebx: %x'' @ newline, ebx frame),
        (''  edx: %x'' @ newline, edx frame),
        (''  ecx: %x'' @ newline, ecx frame),
        (''  eax: %x'' @ newline, eax frame),
        (''  error_code: %hx'' @ newline, ucast (error_code frame)),
        (''  eip: %x'' @ newline, eip frame),
        (''  cs: %hx'' @ newline, ucast (cs frame)),
        (''  eflags: %x'' @ newline, eflags frame),
        (''  esp: %x'' @ newline, esp frame),
        (''  ss: %hx'' @ newline, ucast (ss frame))] s)
     (\<lambda>_. Halted ''cpu_halt'')"

definition c_interrupt_dispatch :: "int \<Rightarrow> Interrupt_Frame \<Rightarrow> interrupts \<Rightarrow> hw \<Rightarrow> hw outcome" where
  "c_interrupt_dispatch vector frame i s =
     (if 0 \<le> vector - 32 \<and> vector - 32 < 256 - 32
      then registered_handlers i (nat (vector - 32)) frame s
      else Fault ''registered_handlers out of range'')"

definition interrupts_register_handler ::
  "int \<Rightarrow> Registered_Handler \<Rightarrow> interrupts \<Rightarrow> interrupts outcome" where
  "interrupts_register_handler vector handler i =
     (if 0 \<le> vector - 32 \<and> vector - 32 < 256 - 32
      then Ok (i\<lparr>registered_handlers := (registered_handlers i)(nat (vector - 32) := handler)\<rparr>)
      else Fault ''registered_handlers out of range'')"

definition keyboard_handler :: "device \<Rightarrow> nat \<Rightarrow> memory \<Rightarrow> Registered_Handler" where
  "keyboard_handler dev fuel m frame s = fmt_print dev fuel m ''Key press!'' [] s"

text \<open>
  Reading an \<open>Interrupt_Frame\<close> off the stack, word \<open>i\<close> above the frame pointer being \<open>w i\<close>, and
  the words left there by the stubs of \<open>asm_stubs.s\<close>: the seven saved registers (\<open>edi\<close> lowest)
  below what the CPU pushed. \<open>exc_start\<close> fills the error code slot, \<open>int_start\<close> does not.
\<close>

definition frame_of_words :: "(nat \<Rightarrow> u32) \<Rightarrow> Interrupt_Frame" where
  "frame_of_words w =
     \<lparr>edi = w 0, esi = w 1, ebp = w 2, ebx = w 3, edx = w 4, ecx = w 5, eax = w 6,
      error_code = ucast (w 7), error_code_high = ucast (drop_bit 16 (w 7)), eip = w 8,
      cs = ucast (w 9), cs_high = ucast (drop_bit 16 (w 9)), eflags = w 10,
      esp = w 11, ss = ucast (w 12), ss_high = ucast (drop_bit 16 (w 12))\<rparr>"

definition exc_start_words :: "u32 list \<Rightarrow> u32 list \<Rightarrow> u32 list" where
  "exc_start_words regs pushed = regs @ 0 # pushed"

definition int_start_words :: "u32 list \<Rightarrow> u32 list \<Rightarrow> u32 list" where
  "int_start_words regs pushed = regs @ pushed"

section \<open>Descriptors\<close>

text \<open>The address a gate transfers to.\<close>

definition gate_target :: "Gate_Descriptor \<Rightarrow> u32" where
  "gate_target g = ucast (offset_low g) OR push_bit 16 (ucast (offset_high g))"

lemma mask16_u32: "(0xffff :: u32) = mask 16"
  by (simp add: mask_eq_exp_minus_1)

lemma gate_target_create [simp]: "gate_target (interrupts_create_descriptor off sel fl) = off"
proof (rule bit_word_eqI)
  fix n
  assume "n < LENGTH(32)"
  then show "bit (gate_target (interrupts_create_descriptor off sel fl)) n = bit off n"
    by (cases "n < 16")
       (auto simp: gate_target_def interrupts_create_descriptor_def bit_simps mask16_u32
         simp del: mask_numeral dest: bit_imp_le_length)
qed

lemma set_gates_apply:
  "set_gates start sel fl vs t v =
     (if v \<in> set vs then interrupts_create_descriptor (start v) sel fl else t v)"
  by (induction vs arbitrary: t) (auto simp: set_gates_def)

lemma set_gates_upt_append:
  assumes "a \<le> b" and "b \<le> c"
  shows "set_gates start sel fl [b..<c] (set_gates start sel fl [a..<b] t) =
    set_gates start sel fl [a..<c] t"
proof -
  have "[a..<c] = [a..<b] @ [b..<c]"
    using assms upt_add_eq_append [of a b "c - b"] by simp
  then show ?thesis by (simp only: set_gates_def fold_append comp_apply)
qed

lemma idt_gates_apply:
  "idt_gates start sel fl t v =
     (if v < 256 then interrupts_create_descriptor (start v) sel fl else t v)"
  unfolding idt_gates_def Let_def idt_gates_0_15_def idt_gates_16_31_def idt_gates_32_47_def idt_gates_48_63_def idt_gates_64_79_def idt_gates_80_95_def idt_gates_96_111_def idt_gates_112_127_def idt_gates_128_143_def idt_gates_144_159_def idt_gates_160_175_def idt_gates_176_191_def idt_gates_192_207_def idt_gates_208_223_def idt_gates_224_239_def idt_gates_240_255_def
  by (simp add: set_gates_upt_append set_gates_apply del: upt.simps upt_rec_numeral)

lemma handlers_fill_eq:
  "fold (\<lambda>k h. h(k := d)) [0..<n] h = (\<lambda>k. if k < n then d else h k)"
  by (induction n) (auto simp: fun_eq_iff)

section \<open>Exceptions\<close>

lemma print_lines_ready:
  assumes "line_ready dev" and "0 < fuel" and "\<And>f v. (f, v) \<in> set ls \<Longrightarrow> hex_line (ascii f)"
  shows "\<exists>s'. print_lines dev fuel m ls s = Ok s'"
  using assms(3)
proof (induction ls arbitrary: s)
  case Nil
  then show ?case by simp
next
  case (Cons l ls)
  obtain f v where l: "l = (f, v)" by (cases l)
  have "hex_line (ascii f)"
    using Cons.prems [of f v] by (simp add: l)
  then obtain s1 where "fmt_print dev fuel m f [v] s = Ok s1"
    using fmt_print_hex_line [OF assms(1,2)] by blast
  moreover obtain s2 where "print_lines dev fuel m ls s1 = Ok s2"
    using Cons.IH [of s1] Cons.prems by auto
  ultimately show ?case by (simp add: l)
qed

lemma put_int_small_ready:
  assumes "line_ready dev" and "0 < fuel" and "unat n < 256"
  shows "\<exists>s'. put_int dev fuel n s = Ok s'"
proof -
  have s: "sint n = int (unat n)"
    using assms(3) by (simp add: sint_small)
  have "(scast n :: u64) = of_nat (unat n)"
    by (metis of_int_of_nat_eq of_int_sint s)
  then have "unat (scast n :: u64) = unat n"
    using assms(3) by (simp add: unsigned_ucast_eq take_bit_eq_mod)
  then show ?thesis
    using assms s put_uint_ready [OF assms(1,2), of "scast n" s] put_char_ready [OF assms(1,2)]
    by (auto simp: put_int_def)
qed

lemma exception_banner_ready:
  assumes "line_ready dev" and "0 < fuel" and "unat v < 256"
  shows "\<exists>s'. fmt_print dev fuel m (''Got exception %d!'' @ newline) [v] s = Ok s'"
proof -
  let ?pre = "ascii ''Got exception ''" and ?post = "ascii (CHR ''!'' # newline)"
  have split: "ascii (''Got exception %d!'' @ newline) = ?pre @ 37 # 100 # ?post"
    by (simp add: ascii_def)
  have plain: "37 \<notin> set ?pre" "37 \<notin> set ?post"
    by (simp_all add: ascii_def newline_def)
  obtain s1 where s1: "write_str dev fuel ?pre s = Ok s1"
    using write_str_ready [OF assms(1,2)] by blast
  obtain s2 where s2: "put_int dev fuel v s1 = Ok s2"
    using put_int_small_ready [OF assms] by blast
  obtain s3 where s3: "write_str dev fuel ?post s2 = Ok s3"
    using write_str_ready [OF assms(1,2)] by blast
  have "fmt_loop dev fuel m (?pre @ 37 # 100 # ?post) [v, 0] s = Ok ([0], s3)"
    using fmt_loop_plain [OF plain(2), of dev fuel m "[]" "[0]" s2]
    by (simp add: fmt_loop_plain [OF plain(1)] s1 s2 s3 parse_specifier_def conversion_def
        print_specifier_def)
  then show ?thesis
    unfolding fmt_print_def fmt_print_impl_def split by simp
qed

section \<open>Properties\<close>

lemma gates_installed:
  assumes "v < 256" and "k < 224"
    and "interrupts_init exc_start int_start idt_addr i s = (i', s')"
  shows "gate_target (idt i' v) = stub_address exc_start int_start v
    \<and> segment_selector (idt i' v) = 8 \<and> gate_flags (idt i' v) = 0xEE
    \<and> registered_handlers i' k = default_registered_handler
    \<and> idt_loaded i' \<and> interrupts_enabled i' \<and> idtr_offset i' = idt_addr \<and> idtr_size i' = 2047"
proof -
  have i': "i' = interrupts_load idt_addr
      (i\<lparr>idt := idt_gates (stub_address exc_start int_start) 8 0xEE (idt i)\<rparr>)"
    using assms(3) by (auto simp: interrupts_init_def Let_def)
  show ?thesis
    unfolding i' interrupts_load_def handlers_fill_eq
    using assms(1,2) by (simp add: idt_gates_apply) (simp add: interrupts_create_descriptor_def)
qed

text \<open>
  (C32) After \<open>interrupts_init\<close> the descriptor table is complete: each of the 256 gates transfers to
  the stub of its own vector, through the kernel code segment, as a present 32-bit interrupt gate;
  every handler slot holds the default handler, which returns without an effect; and the table is
  loaded and interrupts are enabled.
\<close>

theorem idt_complete:
  assumes "v < 256" and "k < 224"
    and "interrupts_init exc_start int_start idt_addr i s = (i', s')"
  shows "gate_target (idt i' v) = stub_address exc_start int_start v
    \<and> segment_selector (idt i' v) = 8 \<and> gate_flags (idt i' v) = 0xEE
    \<and> registered_handlers i' k = default_registered_handler
    \<and> idt_loaded i' \<and> interrupts_enabled i' \<and> idtr_offset i' = idt_addr \<and> idtr_size i' = 2047"
  by (rule gates_installed [OF assms])

theorem idt_complete_witness:
  "gate_target (idt (fst (interrupts_init (\<lambda>v. 0xC0001000) (\<lambda>v. 0xC0002000 + 32 * of_nat v) 0xC0010000
     \<lparr>idt = (\<lambda>_. interrupts_create_descriptor 0 0 0), idtr_size = 0, idtr_offset = 0,
      registered_handlers = (\<lambda>_. default_registered_handler), idt_loaded = False,
      interrupts_enabled = False\<rparr> hw_start)) 33) = 0xC0002420"
proof -
  let ?i = "\<lparr>idt = (\<lambda>_. interrupts_create_descriptor 0 0 0), idtr_size = 0, idtr_offset = 0,
      registered_handlers = (\<lambda>_. default_registered_handler), idt_loaded = False,
      interrupts_enabled = False\<rparr> :: interrupts"
  let ?r = "interrupts_init (\<lambda>v. 0xC0001000) (\<lambda>v. 0xC0002000 + 32 * of_nat v) 0xC0010000 ?i hw_start"
  have "?r = (fst ?r, snd ?r)" by simp
  from idt_complete [of 33 0, OF _ _ this] show ?thesis
    by (simp add: stub_address_def)
qed

text \<open>
  A registered handler is the one dispatched: after \<open>interrupts_register_handler\<close> on a vector
  from 32 to 255, dispatching that vector runs the handler and dispatching any other vector is as
  before; on any other vector number both calls leave the table.
\<close>

theorem register_then_dispatch:
  assumes "32 \<le> v" and "v \<le> 255"
  shows "\<exists>i'. interrupts_register_handler v h i = Ok i'
    \<and> c_interrupt_dispatch v frame i' s = h frame s
    \<and> (\<forall>u. u \<noteq> v \<longrightarrow> c_interrupt_dispatch u frame i' s = c_interrupt_dispatch u frame i s)"
  using assms
  by (auto simp: interrupts_register_handler_def c_interrupt_dispatch_def)

theorem register_then_dispatch_witness:
  "\<exists>i'. interrupts_register_handler 33 (keyboard_handler (\<lambda>_ _. 0x20) 1 (\<lambda>_. 0))
     \<lparr>idt = (\<lambda>_. interrupts_create_descriptor 0 0 0), idtr_size = 0, idtr_offset = 0,
      registered_handlers = (\<lambda>_. default_registered_handler), idt_loaded = False,
      interrupts_enabled = False\<rparr> = Ok i'
   \<and> c_interrupt_dispatch 33 (frame_of_words (\<lambda>_. 0)) i' hw_start =
       keyboard_handler (\<lambda>_ _. 0x20) 1 (\<lambda>_. 0) (frame_of_words (\<lambda>_. 0)) hw_start"
proof -
  have "(32 :: int) \<le> 33" "(33 :: int) \<le> 255" by simp_all
  from register_then_dispatch [OF this] show ?thesis by blast
qed

text \<open>
  An exception stops the machine: for each of the exception vectors, with the serial line
  ready, \<open>c_exception_handler\<close> prints its register dump without overrunning a buffer or an argument
  list and then halts; it never returns to the interrupted code.
\<close>

theorem exception_halts:
  assumes "line_ready dev" and "0 < fuel" and "unat vector < 256"
  shows "c_exception_handler dev fuel m vector frame s = Halted ''cpu_halt''"
proof -
  let ?ls = "[(''  edi: %x'' @ newline, edi frame), (''  esi: %x'' @ newline, esi frame),
        (''  ebp: %x'' @ newline, ebp frame), (''  ebx: %x'' @ newline, ebx frame),
        (''  edx: %x'' @ newline, edx frame), (''  ecx: %x'' @ newline, ecx frame),
        (''  eax: %x'' @ newline, eax frame),
        (''  error_code: %hx'' @ newline, ucast (error_code frame)),
        (''  eip: %x'' @ newline, eip frame), (''  cs: %hx'' @ newline, ucast (cs frame)),
        (''  eflags: %x'' @ newline, eflags frame), (''  esp: %x'' @ newline, esp frame),
        (''  ss: %hx'' @ newline, ucast (ss frame))]"
  obtain s1 where s1: "fmt_print dev fuel m (''Got exception %d!'' @ newline) [vector] s = Ok s1"
    using exception_banner_ready [OF assms] by blast
  have "\<exists>s'. print_lines dev fuel m ?ls s1 = Ok s'"
    by (rule print_lines_ready [OF assms(1,2)])
       (auto simp: ascii_def newline_def hex_line_def)
  then obtain s2 where s2: "print_lines dev fuel m ?ls s1 = Ok s2" ..
  show ?thesis
    unfolding c_exception_handler_def print_lines.simps(2) [of _ _ _ "''Got exception %d!'' @ newline"]
      s1 obind.simps s2 ..
qed

theorem exception_halts_witness:
  "c_exception_handler (\<lambda>_ _. 0x20) 1 (\<lambda>_. 0) 13 (frame_of_words (\<lambda>_. 0)) hw_start =
     Halted ''cpu_halt''"
  by (rule exception_halts) (simp_all add: line_ready_def)

text \<open>
  What a handler finds in its frame. On the words left by \<open>exc_start\<close> the frame fields are the
  saved registers, error code 0 and the interrupted \<open>eip\<close>, \<open>cs\<close> and \<open>eflags\<close>. On the words left by
  \<open>int_start\<close>, which does not fill the error code slot, the frame is shifted by one word: the
  interrupted \<open>eip\<close> is in the error code fields, \<open>eip\<close> holds the code segment and \<open>cs\<close> the flags.
\<close>

theorem interrupt_frame_contents:
  "length regs = 7 \<Longrightarrow>
   (let f = frame_of_words (\<lambda>k. exc_start_words regs (old_eip # old_cs # old_eflags # rest) ! k);
        g = frame_of_words (\<lambda>k. int_start_words regs (old_eip # old_cs # old_eflags # rest) ! k)
    in eax f = regs ! 6 \<and> error_code f = 0 \<and> eip f = old_eip \<and> cs f = ucast old_cs
       \<and> eflags f = old_eflags
       \<and> eax g = regs ! 6 \<and> error_code g = ucast old_eip \<and> eip g = old_cs \<and> cs g = ucast old_eflags)"
  by (simp add: Let_def frame_of_words_def exc_start_words_def int_start_words_def nth_append)

theorem interrupt_frame_contents_witness:
  "eip (frame_of_words (\<lambda>k. int_start_words [1, 2, 3, 4, 5, 6, 7] [0xC0001234, 8, 0x202] ! k)) = 8"
  using interrupt_frame_contents [of "[1, 2, 3, 4, 5, 6, 7]" "0xC0001234" 8 "0x202" "[]"]
  by (simp add: Let_def)

end
