(* ===== verification/PageFrame.thy ===== *)
theory PageFrame
  imports Prelude
begin

text \<open>
  The page frame allocator, \<open>src/src/kernel/page_frame_allocator.c\<close>: a bitmap of physical frames
  above \<open>RESERVED_PHYS\<close>, 254 page tables for the virtual memory above the kernel, and the page
  directory that \<open>bootstrap.c\<close> set up. Arrays are functions from indices; every index the code
  computes is shown to be in range. The addresses that only the linker knows (\<open>__kernel_end\<close> and
  the place of \<open>pfa_page_tables\<close>) are the record \<open>link_map\<close>; the fixed ones are those of
  \<open>src/link.ld\<close>.

  \<open>mmu_walk\<close> is the processor's two-level translation. The theorems are stated against it: what a
  committed page translates to, that no other translation changes, and that in every reachable
  state two pages never share a frame.
\<close>

section \<open>Constants\<close>

definition PAGE_SIZE :: u32 where [layout_defs]: "PAGE_SIZE = 4096"
definition RESERVED_PHYS :: u32 where [layout_defs]: "RESERVED_PHYS = 10 * 1024 * 1024"
definition MAX_KERNEL_SIZE :: u32 where [layout_defs]: "MAX_KERNEL_SIZE = 8 * 1024 * 1024"
definition kernel_start :: u32 where [layout_defs]: "kernel_start = 0xC0000000"
definition kernel_phys_start :: u32 where [layout_defs]: "kernel_phys_start = 0x200000"
definition PFA_TABLES :: nat where [layout_defs]: "PFA_TABLES = 254"
definition PFA_BITMAP :: nat where [layout_defs]: "PFA_BITMAP = 32704"

definition PAGE_FLAGS :: u32 where
  "PAGE_FLAGS = 1 OR 2 OR 4 OR 32"

section \<open>State and operations\<close>

record link_map =
  kernel_end :: u32
  pfa_tables_addr :: u32

record pfa_state =
  page_directory :: "nat \<Rightarrow> u32"
  pfa_page_tables :: "nat \<Rightarrow> nat \<Rightarrow> u32"
  pfa_page_bitmap :: "nat \<Rightarrow> u32"

record MMap_Segment =
  seg_size :: u32
  base_addr :: u64
  seg_length :: u64
  seg_type :: u32

definition bitmap_index :: "u32 \<Rightarrow> nat" where
  "bitmap_index addr = unat ((addr - RESERVED_PHYS) div PAGE_SIZE div 32)"

definition bitmap_bit_index :: "u32 \<Rightarrow> nat" where
  "bitmap_bit_index addr = unat ((addr - RESERVED_PHYS) div PAGE_SIZE mod 32)"

text \<open>
  The marking loop. The addresses wrap at 32 bits: once \<open>addr + PAGE_SIZE\<close> wraps, no address of
  the cycle is at or above \<open>area_end\<close> any more and the loop does not end.
\<close>

function mark_reserved :: "u32 \<Rightarrow> u32 \<Rightarrow> (nat \<Rightarrow> u32) \<Rightarrow> (nat \<Rightarrow> u32) outcome" where
  "mark_reserved addr area_end bm =
     (if addr < area_end then
        (let bm' = bm(bitmap_index addr := bm (bitmap_index addr) OR push_bit (bitmap_bit_index addr) 1)
         in if unat addr + 4096 < 2 ^ 32 then mark_reserved (addr + PAGE_SIZE) area_end bm'
            else Diverged)
      else Ok bm)"
  by pat_completeness auto
termination
  by (relation "measure (\<lambda>(a, e, bm). 2 ^ 32 - unat a)")
     (auto simp: PAGE_SIZE_def unat_word_ariths)

declare mark_reserved.simps [simp del]

definition mark_area :: "u32 \<Rightarrow> u32 \<Rightarrow> (nat \<Rightarrow> u32) \<Rightarrow> (nat \<Rightarrow> u32) outcome" where
  "mark_area start_raw end_raw bm =
     obind (align_forward end_raw PAGE_SIZE) (\<lambda>area_end.
     if area_end > RESERVED_PHYS then
       obind (align_backwards start_raw PAGE_SIZE) (\<lambda>area_start.
       mark_reserved (if area_start < RESERVED_PHYS then RESERVED_PHYS else area_start) area_end bm)
     else Ok bm)"

definition mark_segment :: "MMap_Segment \<Rightarrow> u32 \<Rightarrow> (nat \<Rightarrow> u32) \<Rightarrow> (nat \<Rightarrow> u32) outcome" where
  "mark_segment segment end_of_last_segment bm =
     obind (mark_area end_of_last_segment (ucast (base_addr segment)) bm) (\<lambda>bm'.
     if seg_type segment \<noteq> 1
     then mark_area (ucast (base_addr segment)) (ucast (base_addr segment + seg_length segment)) bm'
     else Ok bm')"

fun pfa_init_loop ::
  "u32 \<Rightarrow> MMap_Segment list \<Rightarrow> u32 \<Rightarrow> u32 \<Rightarrow> (nat \<Rightarrow> u32) \<Rightarrow> (nat \<Rightarrow> u32) outcome" where
  "pfa_init_loop mmap_length [] bytes_traversed end_of_last bm =
     (if bytes_traversed < mmap_length then Fault ''read past the memory map'' else Ok bm)"
| "pfa_init_loop mmap_length (segment # segs) bytes_traversed end_of_last bm =
     (if bytes_traversed < mmap_length then
        obind (mark_segment segment end_of_last bm)
          (pfa_init_loop mmap_length segs (bytes_traversed + (seg_size segment + 4))
             (ucast (base_addr segment + seg_length segment)))
      else Ok bm)"

definition pfa_init :: "u32 \<Rightarrow> MMap_Segment list \<Rightarrow> pfa_state \<Rightarrow> (bool \<times> pfa_state) outcome" where
  "pfa_init mmap_length segs st =
     obind (pfa_init_loop mmap_length segs 0 0 (pfa_page_bitmap st)) (\<lambda>bm.
     Ok (True, st\<lparr>pfa_page_bitmap := bm\<rparr>))"

definition page_virt_base :: u32 where
  "page_virt_base = kernel_start + MAX_KERNEL_SIZE"

definition mapped_virt_to_pfa_tables_index :: "u32 \<Rightarrow> nat outcome" where
  "mapped_virt_to_pfa_tables_index virt_addr =
     (let index = unat ((virt_addr - page_virt_base) div (PAGE_SIZE * 1024)) in
      obind (ASSERT (index < PFA_TABLES) ''Index too large.'') (\<lambda>_. Ok index))"

definition pfa_tables_index_to_mapped_virt :: "nat \<Rightarrow> u32 outcome" where
  "pfa_tables_index_to_mapped_virt index =
     obind (ASSERT (index < PFA_TABLES) ''Index too large.'') (\<lambda>_.
     Ok (of_nat index * PAGE_SIZE * 1024 + page_virt_base))"

definition pfa_tables_index_to_table_phys :: "link_map \<Rightarrow> nat \<Rightarrow> u32 outcome" where
  "pfa_tables_index_to_table_phys L index =
     obind (ASSERT (index < PFA_TABLES) ''Index too large.'') (\<lambda>_.
     let pfa_table_virt = pfa_tables_addr L + of_nat index * 4096 in
     obind (ASSERT (pfa_table_virt \<ge> kernel_start \<and> pfa_table_virt < kernel_end L)
       ''Virtual address should be in the kernel virtual address space.'') (\<lambda>_.
     Ok (pfa_table_virt - (kernel_start - kernel_phys_start))))"

definition mapped_virt_to_page_directory_entry :: "u32 \<Rightarrow> nat" where
  "mapped_virt_to_page_directory_entry virt = unat (drop_bit 22 virt)"

definition mapped_virt_to_page_table_entry :: "u32 \<Rightarrow> nat" where
  "mapped_virt_to_page_table_entry virt = unat (drop_bit 12 virt AND 0x3FF)"

function find_free_entry :: "(nat \<Rightarrow> u32) \<Rightarrow> nat \<Rightarrow> nat option" where
  "find_free_entry bm i =
     (if i < PFA_BITMAP then (if bm i \<noteq> 0xffffffff then Some i else find_free_entry bm (i + 1))
      else None)"
  by pat_completeness auto
termination
  by (relation "measure (\<lambda>(bm, i). PFA_BITMAP - i)") auto

declare find_free_entry.simps [simp del]

definition pfa_commit_page :: "link_map \<Rightarrow> u32 \<Rightarrow> pfa_state \<Rightarrow> (bool \<times> pfa_state) outcome" where
  "pfa_commit_page L virt_addr st =
     obind (ASSERT ((virt_addr AND 0xfff) = 0) ''virt_addr is not page aligned.'') (\<lambda>_.
     case find_free_entry (pfa_page_bitmap st) 0 of
       None \<Rightarrow> Ok (False, st)
     | Some i \<Rightarrow>
         (let bm = pfa_page_bitmap st;
              zero_page_bit = builtin_ctz (NOT (bm i));
              st1 = st\<lparr>pfa_page_bitmap := bm(i := bm i OR push_bit zero_page_bit 1)\<rparr>;
              page_frame = (of_nat i * 32 + of_nat zero_page_bit) * PAGE_SIZE + RESERVED_PHYS
          in if page_frame = 1 then Ok (False, st1) else
          obind (ASSERT ((page_frame AND 0xFFF) = 0) ''page_frame is not page aligned.'') (\<lambda>_.
          let page_directory_entry = mapped_virt_to_page_directory_entry virt_addr;
              page_table_entry = mapped_virt_to_page_table_entry virt_addr in
          obind (mapped_virt_to_pfa_tables_index virt_addr) (\<lambda>pfa_page_tables_index.
          obind (pfa_tables_index_to_table_phys L pfa_page_tables_index) (\<lambda>page_table_phys.
          Ok (True, st1\<lparr>
            page_directory := (page_directory st)(page_directory_entry := page_table_phys OR PAGE_FLAGS),
            pfa_page_tables := (pfa_page_tables st)(pfa_page_tables_index :=
              (pfa_page_tables st pfa_page_tables_index)(page_table_entry := page_frame OR PAGE_FLAGS))\<rparr>))))))"

definition uncommit_frame :: "u32 \<Rightarrow> (nat \<Rightarrow> u32) \<Rightarrow> (nat \<Rightarrow> u32)" where
  "uncommit_frame pte bm =
     (let page_frame = pte AND NOT 0xFFF in
      bm(bitmap_index page_frame :=
           bm (bitmap_index page_frame) AND NOT (push_bit (bitmap_bit_index page_frame) 1)))"

definition uncommit_table :: "nat \<Rightarrow> pfa_state \<Rightarrow> pfa_state outcome" where
  "uncommit_table i st =
     (let st1 = st\<lparr>pfa_page_bitmap :=
            fold (\<lambda>j. uncommit_frame (pfa_page_tables st i j)) [0..<1024] (pfa_page_bitmap st)\<rparr>;
          st2 = st1\<lparr>pfa_page_tables := (pfa_page_tables st1)(i :=
            (\<lambda>j. if j < 1024 then 0 else pfa_page_tables st1 i j))\<rparr>
      in obind (pfa_tables_index_to_mapped_virt i) (\<lambda>virt_addr.
         let page_directory_entry = unat (drop_bit 22 virt_addr) in
         Ok (if (page_directory st2 page_directory_entry AND 1) \<noteq> 0
             then st2\<lparr>page_directory := (page_directory st2)(page_directory_entry := 0)\<rparr>
             else st2)))"

function uncommit_from :: "nat \<Rightarrow> pfa_state \<Rightarrow> pfa_state outcome" where
  "uncommit_from i st =
     (if i < PFA_TABLES then obind (uncommit_table i st) (uncommit_from (i + 1)) else Ok st)"
  by pat_completeness auto
termination
  by (relation "measure (\<lambda>(i, st). PFA_TABLES - i)") auto

declare uncommit_from.simps [simp del]

definition pfa_uncommit_all :: "pfa_state \<Rightarrow> pfa_state outcome" where
  "pfa_uncommit_all st = uncommit_from 0 st"

section \<open>Specification vocabulary\<close>

text \<open>The frames are numbered from 0 at \<open>RESERVED_PHYS\<close>; frame \<open>k\<close> is bit \<open>k mod 32\<close> of entry \<open>k div 32\<close>.\<close>

definition frame_used :: "(nat \<Rightarrow> u32) \<Rightarrow> nat \<Rightarrow> bool" where
  "frame_used bm k = bit (bm (k div 32)) (k mod 32)"

definition frame_addr :: "nat \<Rightarrow> u32" where
  "frame_addr k = of_nat k * 4096 + RESERVED_PHYS"

abbreviation (input) PFA_FRAMES :: nat where "PFA_FRAMES \<equiv> 1046528"

definition table_phys :: "link_map \<Rightarrow> nat \<Rightarrow> u32" where
  "table_phys L i = pfa_tables_addr L + of_nat i * 4096 - (kernel_start - kernel_phys_start)"

text \<open>What the linker script and the array's alignment give.\<close>

definition link_ok :: "link_map \<Rightarrow> bool" where
  "link_ok L \<longleftrightarrow> unat kernel_start \<le> unat (pfa_tables_addr L)
     \<and> unat (pfa_tables_addr L) + 254 * 4096 \<le> unat (kernel_end L)
     \<and> unat (kernel_end L) \<le> unat kernel_start + unat MAX_KERNEL_SIZE
     \<and> pfa_tables_addr L AND 0xfff = 0"

text \<open>The processor's translation of an address above the kernel.\<close>

definition mmu_walk :: "link_map \<Rightarrow> pfa_state \<Rightarrow> u32 \<Rightarrow> u32 option" where
  "mmu_walk L st v =
     (let pde = page_directory st (unat (drop_bit 22 v));
          off = unat ((pde AND NOT 0xfff) - table_phys L 0)
      in if bit pde 0 \<and> off mod 4096 = 0 \<and> off div 4096 < 254 then
           (let pte = pfa_page_tables st (off div 4096) (unat (drop_bit 12 v AND 0x3ff)) in
            if bit pte 0 then Some ((pte AND NOT 0xfff) OR (v AND 0xfff)) else None)
         else None)"

definition table_of :: "u32 \<Rightarrow> nat" where
  "table_of v = (unat v - 0xC0800000) div 4194304"

definition slot_of :: "u32 \<Rightarrow> nat" where
  "slot_of v = unat v div 4096 mod 1024"

definition page_entry :: "pfa_state \<Rightarrow> u32 \<Rightarrow> u32" where
  "page_entry st v = pfa_page_tables st (table_of v) (slot_of v)"

text \<open>The frame a commit takes, the state it leaves, and the frame a table entry stands for.\<close>

definition committed :: "link_map \<Rightarrow> u32 \<Rightarrow> nat \<Rightarrow> pfa_state \<Rightarrow> pfa_state" where
  "committed L v k st = st\<lparr>
     pfa_page_bitmap := (pfa_page_bitmap st)(k div 32 := pfa_page_bitmap st (k div 32) OR push_bit (k mod 32) 1),
     page_directory := (page_directory st)(770 + table_of v := table_phys L (table_of v) OR PAGE_FLAGS),
     pfa_page_tables := (pfa_page_tables st)(table_of v :=
       (pfa_page_tables st (table_of v))(slot_of v := frame_addr k OR PAGE_FLAGS))\<rparr>"

definition least_free :: "(nat \<Rightarrow> u32) \<Rightarrow> nat \<Rightarrow> bool" where
  "least_free bm k \<longleftrightarrow> k < PFA_FRAMES \<and> \<not> frame_used bm k \<and> (\<forall>l < k. frame_used bm l)"

definition entry_frame :: "u32 \<Rightarrow> nat" where
  "entry_frame pte = unat ((pte AND NOT 0xFFF) - RESERVED_PHYS) div 4096"

text \<open>The invariant that ties the directory, the tables and the bitmap together.\<close>

definition pfa_inv :: "link_map \<Rightarrow> pfa_state \<Rightarrow> bool" where
  "pfa_inv L st \<longleftrightarrow>
     (\<forall>i < 254. (bit (page_directory st (770 + i)) 0 \<longrightarrow>
          page_directory st (770 + i) = table_phys L i OR PAGE_FLAGS)
        \<and> (\<not> bit (page_directory st (770 + i)) 0 \<longrightarrow>
          (\<forall>j < 1024. \<not> bit (pfa_page_tables st i j) 0)))
   \<and> (\<forall>i < 254. \<forall>j < 1024. bit (pfa_page_tables st i j) 0 \<longrightarrow>
        (\<exists>k < PFA_FRAMES. pfa_page_tables st i j = frame_addr k OR PAGE_FLAGS
           \<and> frame_used (pfa_page_bitmap st) k))
   \<and> (\<forall>i < 254. \<forall>j < 1024. \<forall>i' < 254. \<forall>j' < 1024.
        bit (pfa_page_tables st i j) 0 \<and> pfa_page_tables st i j = pfa_page_tables st i' j'
          \<longrightarrow> i = i' \<and> j = j')"

text \<open>The states the allocator goes through: nothing mapped, then any commits and resets.\<close>

inductive pfa_reachable :: "link_map \<Rightarrow> pfa_state \<Rightarrow> bool" for L where
  reach_start: "(\<And>i. i < 254 \<Longrightarrow> page_directory st (770 + i) = 0) \<Longrightarrow>
     (\<And>i j. i < 254 \<Longrightarrow> j < 1024 \<Longrightarrow> pfa_page_tables st i j = 0) \<Longrightarrow> pfa_reachable L st"
| reach_commit: "pfa_reachable L st \<Longrightarrow> pfa_commit_page L v st = Ok (b, st') \<Longrightarrow> pfa_reachable L st'"
| reach_reset: "pfa_reachable L st \<Longrightarrow> pfa_uncommit_all st = Ok st' \<Longrightarrow> pfa_reachable L st'"

section \<open>Page-aligned words and entry flags\<close>

lemma mask12_u32: "(0xfff :: u32) = mask 12"
  by (simp add: mask_eq_exp_minus_1)

lemma aligned_iff: "(a :: u32) AND 0xfff = 0 \<longleftrightarrow> unat a mod 4096 = 0"
proof -
  have "unat (a AND mask 12) = unat a mod 4096"
    using unat_and_mask [of a 12] by simp
  then show ?thesis
    unfolding mask12_u32 by (metis unat_eq_zero)
qed

lemma bit_aligned:
  assumes "(a :: u32) AND 0xfff = 0" and "n < 12"
  shows "\<not> bit a n"
proof
  assume "bit a n"
  with assms(2) have "bit (a AND mask 12) n"
    by (simp add: bit_simps)
  with assms(1) show False by (simp add: mask12_u32)
qed

lemma PAGE_FLAGS_eq: "PAGE_FLAGS = 0x27"
  by (simp add: PAGE_FLAGS_def)

lemma bit_flags: "bit PAGE_FLAGS n \<Longrightarrow> n < 12"
proof -
  have "PAGE_FLAGS AND mask 12 = PAGE_FLAGS"
    by (simp add: PAGE_FLAGS_eq mask_eq_exp_minus_1)
  then show "bit PAGE_FLAGS n \<Longrightarrow> n < 12"
    by (metis bit_and_iff bit_mask_iff)
qed

lemma entry_present [simp]: "bit (a OR PAGE_FLAGS) 0"
  by (simp add: PAGE_FLAGS_eq bit_or_iff)

lemma entry_addr:
  assumes "a AND 0xfff = 0"
  shows "(a OR PAGE_FLAGS) AND NOT 0xfff = a"
  unfolding mask12_u32
  by (rule bit_word_eqI) (auto simp: bit_simps dest: bit_flags bit_aligned [OF assms])

lemma entry_inj:
  assumes "a AND 0xfff = 0" and "b AND 0xfff = 0" and "a OR PAGE_FLAGS = b OR PAGE_FLAGS"
  shows "a = b"
  using entry_addr [OF assms(1)] entry_addr [OF assms(2)] assms(3) by metis

section \<open>Frames\<close>

lemma unat_frame_addr:
  "unat (frame_addr k) = (k * 4096 + 10485760) mod 4294967296"
proof -
  have "frame_addr k = of_nat (k * 4096 + 10485760)"
    by (simp add: frame_addr_def RESERVED_PHYS_def)
  then show ?thesis by (simp only: unat_of_nat) simp
qed

lemma frame_addr_aligned [simp]: "frame_addr k AND 0xfff = 0"
proof -
  have "(k * 4096 + 10485760) mod 4294967296 mod 4096 = (k * 4096 + 10485760) mod (4096 :: nat)"
    by (rule mod_mod_cancel) simp
  then show ?thesis
    unfolding aligned_iff unat_frame_addr by (simp add: mod_simps)
qed

lemma frame_addr_not_1: "frame_addr k \<noteq> 1"
proof
  assume "frame_addr k = 1"
  with frame_addr_aligned [of k] have "(1 :: u32) AND 0xfff = 0" by simp
  then show False by simp
qed

lemma unat_frame_addr_cases:
  assumes "k < PFA_FRAMES"
  shows "unat (frame_addr k) =
    (if k < 1046016 then k * 4096 + 10485760 else (k - 1046016) * 4096)"
proof (cases "k < 1046016")
  case True
  then show ?thesis by (simp add: unat_frame_addr)
next
  case False
  then have "k * 4096 + 10485760 = 4294967296 + (k - 1046016) * 4096" by simp
  then have "unat (frame_addr k) = ((k - 1046016) * 4096) mod 4294967296"
    by (simp only: unat_frame_addr mod_add_self1)
  moreover have "(k - 1046016) * 4096 < 4294967296" using assms by simp
  ultimately show ?thesis using False by simp
qed

lemma frame_addr_inj:
  assumes "frame_addr k = frame_addr l" and "k < PFA_FRAMES" and "l < PFA_FRAMES"
  shows "k = l"
proof -
  have "unat (frame_addr k) = unat (frame_addr l)"
    using assms(1) by simp
  then show ?thesis
    unfolding unat_frame_addr_cases [OF assms(2)] unat_frame_addr_cases [OF assms(3)]
    using assms(2,3) by (simp split: if_splits)
qed

text \<open>Frames below \<open>RESERVED_PHYS\<close>: the last 512 bits of the bitmap wrap around.\<close>

lemma frame_addr_above:
  "k < PFA_FRAMES \<Longrightarrow> RESERVED_PHYS \<le> frame_addr k \<longleftrightarrow> k < 1046016"
  by (auto simp: word_le_nat_alt unat_frame_addr_cases RESERVED_PHYS_def)

section \<open>The search for a free frame\<close>

lemma find_free_entry_Some:
  "find_free_entry bm i = Some j \<Longrightarrow>
     i \<le> j \<and> j < 32704 \<and> bm j \<noteq> 0xffffffff \<and> (\<forall>k. i \<le> k \<and> k < j \<longrightarrow> bm k = 0xffffffff)"
proof (induction bm i rule: find_free_entry.induct)
  case (1 bm i)
  show ?case
  proof (cases "i < PFA_BITMAP \<and> bm i = 0xffffffff")
    case True
    with "1.prems" have "find_free_entry bm (i + 1) = Some j"
      by (subst (asm) find_free_entry.simps) simp
    with "1.IH" True show ?thesis
      by (metis (no_types, opaque_lifting) Suc_eq_plus1 Suc_leD le_antisym not_less_eq_eq)
  next
    case False
    with "1.prems" show ?thesis
      by (subst (asm) find_free_entry.simps) (auto simp: PFA_BITMAP_def split: if_splits)
  qed
qed

lemma find_free_entry_None:
  "find_free_entry bm i = None \<Longrightarrow> i \<le> k \<Longrightarrow> k < 32704 \<Longrightarrow> bm k = 0xffffffff"
proof (induction bm i rule: find_free_entry.induct)
  case (1 bm i)
  have i: "i < PFA_BITMAP" using "1.prems" by (simp add: PFA_BITMAP_def)
  have full: "bm i = 0xffffffff" and rest: "find_free_entry bm (i + 1) = None"
    using "1.prems"(1) i by (subst (asm) find_free_entry.simps; simp split: if_splits)+
  show ?case
  proof (cases "k = i")
    case True
    with full show ?thesis by simp
  next
    case False
    with "1.IH" [OF i] full rest "1.prems" show ?thesis by simp
  qed
qed

lemma all_ones_bit: "n < 32 \<Longrightarrow> bit (0xffffffff :: u32) n"
proof -
  assume "n < 32"
  moreover have "(0xffffffff :: u32) = - 1" by simp
  ultimately show ?thesis by (simp only: bit_minus_1_iff possible_bit_word len_of_numeral_defs)
qed

text \<open>Marking one frame used.\<close>

lemma frame_used_mark:
  assumes "b < 32"
  shows "frame_used (bm(i := bm i OR push_bit b 1)) k \<longleftrightarrow> frame_used bm k \<or> k = i * 32 + b"
proof (cases "k div 32 = i")
  case True
  have "k mod 32 < 32" by simp
  moreover have "k = i * 32 + b \<longleftrightarrow> k mod 32 = b"
    using True assms by (metis div_mult_mod_eq mod_less mod_mult_self3)
  ultimately show ?thesis
    using True assms by (auto simp: frame_used_def bit_simps)
next
  case False
  then have "k \<noteq> i * 32 + b" using assms by auto
  with False show ?thesis by (simp add: frame_used_def)
qed

lemma first_free_frame:
  assumes "find_free_entry bm 0 = Some i"
  defines "b \<equiv> builtin_ctz (NOT (bm i))"
  shows "b < 32" and "i * 32 + b < PFA_FRAMES" and "\<not> frame_used bm (i * 32 + b)"
    and "\<And>k. k < i * 32 + b \<Longrightarrow> frame_used bm k"
proof -
  have i: "i < 32704" "bm i \<noteq> 0xffffffff" "\<And>k. k < i \<Longrightarrow> bm k = 0xffffffff"
    using find_free_entry_Some [OF assms(1)] by auto
  have "NOT (bm i) \<noteq> 0"
  proof
    assume "NOT (bm i) = 0"
    then have "bm i = NOT 0" by (metis bit.double_compl)
    with i(2) show False by simp
  qed
  from builtin_ctz_spec [OF this]
  have b: "b < 32" "bit (NOT (bm i)) b" "\<And>j. j < b \<Longrightarrow> \<not> bit (NOT (bm i)) j"
    unfolding b_def by auto
  show "b < 32" by (fact b(1))
  show "i * 32 + b < PFA_FRAMES" using b(1) i(1) by simp
  show "\<not> frame_used bm (i * 32 + b)"
    using b by (simp add: frame_used_def bit_not_iff)
  fix k
  assume k: "k < i * 32 + b"
  show "frame_used bm k"
  proof (cases "k div 32 = i")
    case True
    with k have "k mod 32 < b" by (metis add_less_cancel_left div_mult_mod_eq)
    with b(3) b(1) True show ?thesis
      by (auto simp: frame_used_def bit_not_iff)
  next
    case False
    with k b(1) have "k div 32 < i" by auto
    then have "bm (k div 32) = 0xffffffff" by (rule i(3))
    then show ?thesis unfolding frame_used_def by (simp only: all_ones_bit mod_less_divisor zero_less_numeral)
  qed
qed

lemma no_free_frame:
  "find_free_entry bm 0 = None \<Longrightarrow> k < PFA_FRAMES \<Longrightarrow> frame_used bm k"
  using find_free_entry_None [of bm 0 "k div 32"] all_ones_bit [of "k mod 32"]
  by (simp add: frame_used_def del: bit_numeral_simps)

section \<open>Indices of an address above the kernel\<close>

lemma page_virt_base_eq: "page_virt_base = 0xC0800000"
  by (simp add: page_virt_base_def kernel_start_def MAX_KERNEL_SIZE_def)

lemma tables_index:
  assumes "0xC0800000 \<le> v"
  shows "mapped_virt_to_pfa_tables_index v = Ok (table_of v)" and "table_of v < 254"
proof -
  have v: "3229614080 \<le> unat v" "unat v < 4294967296"
    using assms by (simp_all add: word_le_nat_alt)
  have "unat (v - page_virt_base) = unat v - 3229614080"
    using assms by (simp add: page_virt_base_eq unat_sub)
  then have i: "unat ((v - page_virt_base) div (PAGE_SIZE * 1024)) = table_of v"
    by (simp add: unat_div PAGE_SIZE_def table_of_def)
  have "unat v - 3229614080 < 254 * 4194304" using v by linarith
  then show t: "table_of v < 254"
    unfolding table_of_def by (simp add: less_mult_imp_div_less)
  show "mapped_virt_to_pfa_tables_index v = Ok (table_of v)"
    using t by (simp add: mapped_virt_to_pfa_tables_index_def i PFA_TABLES_def)
qed

lemma tables_index_below:
  assumes "v < 0xC0800000"
  shows "mapped_virt_to_pfa_tables_index v = Halted ''Index too large.''"
proof -
  have v: "unat v < 3229614080" using assms by (simp add: word_less_nat_alt)
  then have "unat (v - page_virt_base) = unat v + 1065353216"
    by (simp add: page_virt_base_eq unat_sub_if')
  then have "254 \<le> unat ((v - page_virt_base) div (PAGE_SIZE * 1024))"
    by (simp add: unat_div PAGE_SIZE_def)
  then show ?thesis
    by (simp add: mapped_virt_to_pfa_tables_index_def PFA_TABLES_def)
qed

lemma directory_index:
  assumes "0xC0800000 \<le> v"
  shows "mapped_virt_to_page_directory_entry v = 770 + table_of v"
proof -
  have v: "3229614080 \<le> unat v" using assms by (simp add: word_le_nat_alt)
  then have "unat v = 770 * 4194304 + (unat v - 3229614080)" by simp
  then have "unat v div 4194304 = 770 + table_of v"
    unfolding table_of_def by (metis div_mult_self3 zero_neq_numeral)
  then show ?thesis
    by (simp add: mapped_virt_to_page_directory_entry_def unat_drop_bit)
qed

lemma slot_index: "mapped_virt_to_page_table_entry v = slot_of v" and slot_less [simp]: "slot_of v < 1024"
proof -
  have "(0x3FF :: u32) = mask 10" by (simp add: mask_eq_exp_minus_1)
  then show "mapped_virt_to_page_table_entry v = slot_of v"
    unfolding mapped_virt_to_page_table_entry_def slot_of_def
    by (simp only: unat_and_mask unat_drop_bit) simp
  show "slot_of v < 1024" by (simp add: slot_of_def)
qed

lemma unat_tables_addr:
  assumes "link_ok L" and "i < 254"
  shows "unat (pfa_tables_addr L + of_nat i * 4096) = unat (pfa_tables_addr L) + i * 4096"
    and "3221225472 \<le> unat (pfa_tables_addr L)"
    and "unat (pfa_tables_addr L) + i * 4096 < unat (kernel_end L)"
proof -
  have l: "3221225472 \<le> unat (pfa_tables_addr L)"
      "unat (pfa_tables_addr L) + 1040384 \<le> unat (kernel_end L)" "unat (kernel_end L) \<le> 3229614080"
    using assms(1) by (simp_all add: link_ok_def kernel_start_def MAX_KERNEL_SIZE_def)
  have "unat (of_nat i * 4096 :: u32) = i * 4096"
    using assms(2) by (simp add: unat_word_ariths unat_of_nat)
  then show "unat (pfa_tables_addr L + of_nat i * 4096) = unat (pfa_tables_addr L) + i * 4096"
    using l assms(2) by (subst unat_add_no_wrap) simp_all
  show "3221225472 \<le> unat (pfa_tables_addr L)"
    and "unat (pfa_tables_addr L) + i * 4096 < unat (kernel_end L)"
    using l assms(2) by simp_all
qed

lemma table_phys_Ok:
  assumes "link_ok L" and "i < 254"
  shows "pfa_tables_index_to_table_phys L i = Ok (table_phys L i)"
proof -
  note u = unat_tables_addr [OF assms]
  have "kernel_start \<le> pfa_tables_addr L + of_nat i * 4096"
    "pfa_tables_addr L + of_nat i * 4096 < kernel_end L"
    using u assms(2) by (simp_all add: word_le_nat_alt word_less_nat_alt kernel_start_def)
  then show ?thesis
    using assms(2)
    by (simp add: pfa_tables_index_to_table_phys_def PFA_TABLES_def Let_def table_phys_def)
qed

lemma unat_table_phys:
  assumes "link_ok L" and "i < 254"
  shows "unat (table_phys L i) = unat (pfa_tables_addr L) + i * 4096 - 3219128320"
proof -
  note u = unat_tables_addr [OF assms]
  have "kernel_start - kernel_phys_start \<le> pfa_tables_addr L + of_nat i * 4096"
    using u by (simp add: word_le_nat_alt kernel_start_def kernel_phys_start_def)
  then show ?thesis
    using u by (simp add: table_phys_def unat_sub kernel_start_def kernel_phys_start_def)
qed

lemma table_phys_aligned:
  assumes "link_ok L" and "i < 254"
  shows "table_phys L i AND 0xfff = 0"
proof -
  have "unat (pfa_tables_addr L) mod 4096 = 0"
    using assms(1) by (simp add: link_ok_def aligned_iff)
  then obtain q where q: "unat (pfa_tables_addr L) = 4096 * q" by auto
  have "unat (table_phys L i) = 4096 * (q + i - 785920)"
    unfolding unat_table_phys [OF assms] q by simp
  then show ?thesis by (simp add: aligned_iff)
qed

lemma table_phys_offset:
  assumes "link_ok L" and "i < 254"
  shows "unat (table_phys L i - table_phys L 0) = i * 4096"
proof -
  have "table_phys L 0 \<le> table_phys L i"
    using unat_table_phys [OF assms] unat_table_phys [OF assms(1), of 0] by (simp add: word_le_nat_alt)
  then show ?thesis
    using unat_table_phys [OF assms] unat_table_phys [OF assms(1), of 0]
      unat_tables_addr(2) [OF assms]
    by (simp add: unat_sub)
qed

lemma table_entry_offset:
  assumes "link_ok L" and "i < 254"
  shows "unat (((table_phys L i OR PAGE_FLAGS) AND NOT 0xfff) - table_phys L 0) = i * 4096"
  by (simp only: entry_addr [OF table_phys_aligned [OF assms]] table_phys_offset [OF assms])

section \<open>Translation under the invariant\<close>

lemma walk_present:
  assumes "link_ok L" and "0xC0800000 \<le> v"
    and "page_directory st (770 + table_of v) = table_phys L (table_of v) OR PAGE_FLAGS"
  shows "mmu_walk L st v =
    (if bit (page_entry st v) 0 then Some ((page_entry st v AND NOT 0xfff) OR (v AND 0xfff)) else None)"
proof -
  note t = tables_index(2) [OF assms(2)]
  have d: "unat (drop_bit 22 v) = 770 + table_of v"
    using directory_index [OF assms(2)] by (simp add: mapped_virt_to_page_directory_entry_def)
  have s: "unat (drop_bit 12 v AND 0x3ff) = slot_of v"
    using slot_index [of v] by (simp add: mapped_virt_to_page_table_entry_def)
  show ?thesis
    unfolding mmu_walk_def d s assms(3) Let_def table_entry_offset [OF assms(1) t] page_entry_def
    using t by simp
qed

lemma walk_not_present:
  assumes "0xC0800000 \<le> v" and "\<not> bit (page_directory st (770 + table_of v)) 0"
  shows "mmu_walk L st v = None"
  using assms(2) directory_index [OF assms(1)]
  by (simp add: mmu_walk_def Let_def mapped_virt_to_page_directory_entry_def)

lemma walk_under_inv:
  assumes "link_ok L" and "pfa_inv L st" and "0xC0800000 \<le> v"
  shows "mmu_walk L st v =
    (if bit (page_entry st v) 0 then Some ((page_entry st v AND NOT 0xfff) OR (v AND 0xfff)) else None)"
proof -
  have t: "table_of v < 254" by (rule tables_index(2) [OF assms(3)])
  show ?thesis
  proof (cases "bit (page_directory st (770 + table_of v)) 0")
    case True
    with assms(2) t have "page_directory st (770 + table_of v) = table_phys L (table_of v) OR PAGE_FLAGS"
      by (simp add: pfa_inv_def)
    then show ?thesis by (rule walk_present [OF assms(1,3)])
  next
    case False
    with assms(2) t have "\<not> bit (page_entry st v) 0"
      by (simp add: pfa_inv_def page_entry_def)
    with walk_not_present [OF assms(3) False] show ?thesis by simp
  qed
qed

section \<open>Committing a page\<close>

lemma least_free_unique: "least_free bm k \<Longrightarrow> least_free bm l \<Longrightarrow> k = l"
  unfolding least_free_def by (metis linorder_neqE_nat)

lemma frame_used_mark_k:
  "frame_used (bm(k div 32 := bm (k div 32) OR push_bit (k mod 32) 1)) l \<longleftrightarrow> frame_used bm l \<or> l = k"
  using frame_used_mark [of "k mod 32" bm "k div 32" l] by simp

lemma least_free_exists:
  "(\<exists>k < PFA_FRAMES. \<not> frame_used bm k) \<longleftrightarrow> (\<exists>i. find_free_entry bm 0 = Some i)"
proof
  assume "\<exists>k < PFA_FRAMES. \<not> frame_used bm k"
  then show "\<exists>i. find_free_entry bm 0 = Some i"
    using no_free_frame by (cases "find_free_entry bm 0") auto
next
  assume "\<exists>i. find_free_entry bm 0 = Some i"
  then show "\<exists>k < PFA_FRAMES. \<not> frame_used bm k"
    using first_free_frame(2,3) by blast
qed

lemma find_free_entry_least:
  assumes "least_free bm k"
  shows "find_free_entry bm 0 = Some (k div 32)" and "builtin_ctz (NOT (bm (k div 32))) = k mod 32"
proof -
  have "\<exists>l < PFA_FRAMES. \<not> frame_used bm l" using assms by (auto simp: least_free_def)
  then obtain i where i: "find_free_entry bm 0 = Some i"
    unfolding least_free_exists by auto
  note f = first_free_frame [OF i]
  have "least_free bm (i * 32 + builtin_ctz (NOT (bm i)))"
    unfolding least_free_def using f by blast
  with assms have k: "k = i * 32 + builtin_ctz (NOT (bm i))" by (rule least_free_unique)
  have "k div 32 = i" "k mod 32 = builtin_ctz (NOT (bm i))"
    unfolding k using f(1) by simp_all
  with i show "find_free_entry bm 0 = Some (k div 32)" "builtin_ctz (NOT (bm (k div 32))) = k mod 32"
    by simp_all
qed

lemma frame_addr_split: "(of_nat (k div 32) * 32 + of_nat (k mod 32)) * PAGE_SIZE + RESERVED_PHYS = frame_addr k"
proof -
  have "(of_nat (k div 32) * 32 + of_nat (k mod 32) :: u32) = of_nat (k div 32 * 32 + k mod 32)"
    by (simp only: of_nat_add of_nat_mult of_nat_numeral)
  then show ?thesis by (simp add: frame_addr_def PAGE_SIZE_def)
qed

lemma commit_ok:
  assumes "link_ok L" and "v AND 0xfff = 0" and "0xC0800000 \<le> v" and "least_free (pfa_page_bitmap st) k"
  shows "pfa_commit_page L v st = Ok (True, committed L v k st)"
  unfolding pfa_commit_page_def
  by (simp add: find_free_entry_least [OF assms(4)] frame_addr_split frame_addr_not_1 assms(2)
      tables_index(1) [OF assms(3)] table_phys_Ok [OF assms(1) tables_index(2) [OF assms(3)]]
      directory_index [OF assms(3)] slot_index committed_def Let_def)

lemma commit_full:
  assumes "v AND 0xfff = 0" and "\<forall>k < PFA_FRAMES. frame_used (pfa_page_bitmap st) k"
  shows "pfa_commit_page L v st = Ok (False, st)"
proof -
  have "find_free_entry (pfa_page_bitmap st) 0 = None"
    using assms(2) least_free_exists by (cases "find_free_entry (pfa_page_bitmap st) 0") blast+
  then show ?thesis using assms(1) by (simp add: pfa_commit_page_def)
qed

lemma commit_misaligned:
  "v AND 0xfff \<noteq> 0 \<Longrightarrow> pfa_commit_page L v st = Halted ''virt_addr is not page aligned.''"
  by (simp add: pfa_commit_page_def)

lemma commit_below:
  assumes "v AND 0xfff = 0" and "v < 0xC0800000" and "least_free (pfa_page_bitmap st) k"
  shows "pfa_commit_page L v st = Halted ''Index too large.''"
  unfolding pfa_commit_page_def
  by (simp add: find_free_entry_least [OF assms(3)] frame_addr_split frame_addr_not_1 assms(1)
      tables_index_below [OF assms(2)] Let_def)

lemma least_free_cases:
  obtains (free) k where "least_free bm k" | (full) "\<forall>k < PFA_FRAMES. frame_used bm k"
proof (cases "find_free_entry bm 0")
  case None
  then show ?thesis using full no_free_frame by blast
next
  case (Some i)
  show ?thesis
    by (rule free [of "i * 32 + builtin_ctz (NOT (bm i))"])
       (use first_free_frame [OF Some] in \<open>auto simp: least_free_def\<close>)
qed

text \<open>Every commit that returns is one of two cases.\<close>

lemma commit_cases:
  assumes "link_ok L" and "pfa_commit_page L v st = Ok (b, st')"
  obtains (mapped) k where "b" "v AND 0xfff = 0" "0xC0800000 \<le> v"
      "least_free (pfa_page_bitmap st) k" "st' = committed L v k st"
    | (full) "\<not> b" "v AND 0xfff = 0" "st' = st" "\<forall>k < PFA_FRAMES. frame_used (pfa_page_bitmap st) k"
proof -
  have a: "v AND 0xfff = 0" using assms(2) commit_misaligned by force
  show ?thesis
  proof (cases "pfa_page_bitmap st" rule: least_free_cases)
    case (free k)
    have "0xC0800000 \<le> v"
      using commit_below [OF a _ free] assms(2) by (metis not_le outcome.distinct(1))
    with commit_ok [OF assms(1) a _ free] assms(2) a free show ?thesis
      by (intro mapped) auto
  next
    case full
    with commit_full [OF a full] assms(2) a show ?thesis by (intro that(2)) auto
  qed
qed

section \<open>The invariant\<close>

lemma committed_simps [simp]:
  "page_directory (committed L v k st) =
     (page_directory st)(770 + table_of v := table_phys L (table_of v) OR PAGE_FLAGS)"
  "pfa_page_tables (committed L v k st) = (pfa_page_tables st)(table_of v :=
     (pfa_page_tables st (table_of v))(slot_of v := frame_addr k OR PAGE_FLAGS))"
  "frame_used (pfa_page_bitmap (committed L v k st)) l \<longleftrightarrow> frame_used (pfa_page_bitmap st) l \<or> l = k"
  by (simp_all add: committed_def frame_used_mark_k [unfolded push_bit_of_1])

lemma frame_entry_inj:
  assumes "frame_addr k OR PAGE_FLAGS = frame_addr l OR PAGE_FLAGS" "k < PFA_FRAMES" "l < PFA_FRAMES"
  shows "k = l"
  using frame_addr_inj [OF entry_inj [OF _ _ assms(1)]] assms(2,3) by simp

lemma fresh_entry:
  assumes "pfa_inv L st" and "least_free (pfa_page_bitmap st) k" and "i < 254" and "j < 1024"
  shows "pfa_page_tables st i j \<noteq> frame_addr k OR PAGE_FLAGS"
proof
  assume e: "pfa_page_tables st i j = frame_addr k OR PAGE_FLAGS"
  then have "bit (pfa_page_tables st i j) 0" by simp
  with assms(1,3,4) obtain l where l: "l < PFA_FRAMES" "pfa_page_tables st i j = frame_addr l OR PAGE_FLAGS"
    "frame_used (pfa_page_bitmap st) l"
    unfolding pfa_inv_def by blast
  with e assms(2) have "l = k"
    by (intro frame_entry_inj) (simp_all add: least_free_def)
  with l(3) assms(2) show False by (simp add: least_free_def)
qed

lemma pfa_inv_committed:
  assumes inv: "pfa_inv L st" and k: "least_free (pfa_page_bitmap st) k"
  shows "pfa_inv L (committed L v k st)"
proof -
  let ?st = "committed L v k st"
  have "bit (page_directory ?st (770 + i)) 0 \<longrightarrow> page_directory ?st (770 + i) = table_phys L i OR PAGE_FLAGS"
    and "\<not> bit (page_directory ?st (770 + i)) 0 \<longrightarrow> (\<forall>j < 1024. \<not> bit (pfa_page_tables ?st i j) 0)"
    if "i < 254" for i
    using inv that by (auto simp: pfa_inv_def)
  moreover have "\<exists>l < PFA_FRAMES. pfa_page_tables ?st i j = frame_addr l OR PAGE_FLAGS
      \<and> frame_used (pfa_page_bitmap ?st) l"
    if "i < 254" "j < 1024" "bit (pfa_page_tables ?st i j) 0" for i j
  proof (cases "i = table_of v \<and> j = slot_of v")
    case True
    with k show ?thesis by (intro exI [of _ k]) (simp add: least_free_def)
  next
    case False
    then have e: "pfa_page_tables ?st i j = pfa_page_tables st i j" by auto
    with inv that obtain l where "l < PFA_FRAMES" "pfa_page_tables st i j = frame_addr l OR PAGE_FLAGS"
      "frame_used (pfa_page_bitmap st) l"
      unfolding pfa_inv_def by metis
    with e show ?thesis by auto
  qed
  moreover have "i = i' \<and> j = j'"
    if "i < 254" "j < 1024" "i' < 254" "j' < 1024" "bit (pfa_page_tables ?st i j) 0"
      "pfa_page_tables ?st i j = pfa_page_tables ?st i' j'" for i j i' j'
  proof (cases "(i = table_of v \<and> j = slot_of v) \<or> (i' = table_of v \<and> j' = slot_of v)")
    case True
    then show ?thesis
      using that(6) fresh_entry [OF inv k that(1,2)] fresh_entry [OF inv k that(3,4)]
      by (auto split: if_splits)
  next
    case False
    then have "pfa_page_tables ?st i j = pfa_page_tables st i j"
      and "pfa_page_tables ?st i' j' = pfa_page_tables st i' j'" by auto
    with inv that show ?thesis unfolding pfa_inv_def by metis
  qed
  ultimately show ?thesis unfolding pfa_inv_def by blast
qed

lemma pfa_inv_empty:
  assumes "\<And>i. i < 254 \<Longrightarrow> \<not> bit (page_directory st (770 + i)) 0"
    and "\<And>i j. i < 254 \<Longrightarrow> j < 1024 \<Longrightarrow> pfa_page_tables st i j = 0"
  shows "pfa_inv L st"
  using assms by (simp add: pfa_inv_def)

section \<open>Releasing every page\<close>

lemma entry_frame_of_frame:
  assumes "k < PFA_FRAMES"
  shows "entry_frame (frame_addr k OR PAGE_FLAGS) = k"
proof -
  have "unat (of_nat k * 4096 :: u32) = k * 4096"
    using assms by (simp add: unat_word_ariths unat_of_nat)
  then show ?thesis
    unfolding entry_frame_def entry_addr [OF frame_addr_aligned] by (simp add: frame_addr_def)
qed

lemma entry_frame_0: "entry_frame 0 = 1046016"
  by (simp add: entry_frame_def RESERVED_PHYS_def)

lemma frame_used_uncommit:
  "frame_used (uncommit_frame pte bm) k \<longleftrightarrow> frame_used bm k \<and> k \<noteq> entry_frame pte"
proof -
  let ?f = "entry_frame pte"
  have e: "bitmap_index (pte AND NOT 0xFFF) = ?f div 32" "bitmap_bit_index (pte AND NOT 0xFFF) = ?f mod 32"
    by (simp_all add: bitmap_index_def bitmap_bit_index_def entry_frame_def PAGE_SIZE_def unat_div unat_mod)
  have "k = ?f \<longleftrightarrow> k div 32 = ?f div 32 \<and> k mod 32 = ?f mod 32"
    by (metis div_mult_mod_eq)
  then show ?thesis
    unfolding uncommit_frame_def Let_def e frame_used_def by (auto simp: bit_simps)
qed

lemma frame_used_uncommit_fold:
  "frame_used (fold (\<lambda>j. uncommit_frame (t j)) js bm) k \<longleftrightarrow>
     frame_used bm k \<and> (\<forall>j \<in> set js. k \<noteq> entry_frame (t j))"
  by (induction js arbitrary: bm) (auto simp: frame_used_uncommit)

lemma tables_index_to_mapped:
  assumes "i < 254"
  shows "pfa_tables_index_to_mapped_virt i = Ok (of_nat i * 4194304 + 0xC0800000)"
    and "unat (of_nat i * 4194304 + 0xC0800000 :: u32) = i * 4194304 + 0xC0800000"
proof -
  show "pfa_tables_index_to_mapped_virt i = Ok (of_nat i * 4194304 + 0xC0800000)"
    using assms by (simp add: pfa_tables_index_to_mapped_virt_def PFA_TABLES_def PAGE_SIZE_def
        page_virt_base_eq mult.assoc)
  have "unat (of_nat i * 4194304 :: u32) = i * 4194304"
    using assms by (simp add: unat_word_ariths unat_of_nat)
  then show "unat (of_nat i * 4194304 + 0xC0800000 :: u32) = i * 4194304 + 0xC0800000"
    using assms by (subst unat_add_no_wrap) simp_all
qed

lemma uncommit_table_spec:
  assumes "i < 254"
  shows "\<exists>st'. uncommit_table i st = Ok st'
    \<and> pfa_page_tables st' =
      (pfa_page_tables st)(i := (\<lambda>j. if j < 1024 then 0 else pfa_page_tables st i j))
    \<and> page_directory st' = (if bit (page_directory st (770 + i)) 0
           then (page_directory st)(770 + i := 0) else page_directory st)
    \<and> (\<forall>k. frame_used (pfa_page_bitmap st') k \<longleftrightarrow> frame_used (pfa_page_bitmap st) k
           \<and> (\<forall>j < 1024. k \<noteq> entry_frame (pfa_page_tables st i j)))"
proof -
  have "unat (drop_bit 22 (of_nat i * 4194304 + 0xC0800000 :: u32)) = 770 + i"
    unfolding unat_drop_bit tables_index_to_mapped(2) [OF assms] by simp
  moreover have "(w AND 1) \<noteq> 0 \<longleftrightarrow> bit w 0" for w :: u32
    by (simp add: and_one_eq bit_0 odd_iff_mod_2_eq_one)
  ultimately have "uncommit_table i st = Ok (st\<lparr>
      pfa_page_bitmap := fold (\<lambda>j. uncommit_frame (pfa_page_tables st i j)) [0..<1024] (pfa_page_bitmap st),
      pfa_page_tables := (pfa_page_tables st)(i := (\<lambda>j. if j < 1024 then 0 else pfa_page_tables st i j)),
      page_directory := (if bit (page_directory st (770 + i)) 0
           then (page_directory st)(770 + i := 0) else page_directory st)\<rparr>)"
    by (simp add: uncommit_table_def tables_index_to_mapped(1) [OF assms] Let_def cong: if_cong)
  then show ?thesis
    by (intro exI conjI allI) (assumption, auto simp: frame_used_uncommit_fold)
qed

lemma uncommit_from_spec:
  "\<exists>st'. uncommit_from i st = Ok st'
     \<and> (\<forall>x y. pfa_page_tables st' x y = (if i \<le> x \<and> x < 254 \<and> y < 1024 then 0 else pfa_page_tables st x y))
     \<and> (\<forall>x. page_directory st' x = (if 770 + i \<le> x \<and> x < 1024 \<and> bit (page_directory st x) 0 then 0
           else page_directory st x))
     \<and> (\<forall>k. frame_used (pfa_page_bitmap st') k \<longleftrightarrow> frame_used (pfa_page_bitmap st) k
           \<and> (\<forall>x y. i \<le> x \<and> x < 254 \<and> y < 1024 \<longrightarrow> k \<noteq> entry_frame (pfa_page_tables st x y)))"
proof (induction i st rule: uncommit_from.induct)
  case (1 i st)
  show ?case
  proof (cases "i < 254")
    case True
    obtain st1 where st1: "uncommit_table i st = Ok st1"
      "pfa_page_tables st1 =
        (pfa_page_tables st)(i := (\<lambda>j. if j < 1024 then 0 else pfa_page_tables st i j))"
      "page_directory st1 = (if bit (page_directory st (770 + i)) 0
           then (page_directory st)(770 + i := 0) else page_directory st)"
      "\<forall>k. frame_used (pfa_page_bitmap st1) k \<longleftrightarrow> frame_used (pfa_page_bitmap st) k
           \<and> (\<forall>j < 1024. k \<noteq> entry_frame (pfa_page_tables st i j))"
      using uncommit_table_spec [OF True, of st] by (elim exE conjE) (rule that)
    have step: "uncommit_from i st = uncommit_from (i + 1) st1"
      using True st1(1) by (subst uncommit_from.simps) (simp add: PFA_TABLES_def)
    have "i < PFA_TABLES" using True by (simp add: PFA_TABLES_def)
    from "1.IH" [OF this st1(1)] obtain st' where st': "uncommit_from (i + 1) st1 = Ok st'"
      "\<And>x y. pfa_page_tables st' x y = (if i + 1 \<le> x \<and> x < 254 \<and> y < 1024 then 0 else pfa_page_tables st1 x y)"
      "\<And>x. page_directory st' x = (if 770 + (i + 1) \<le> x \<and> x < 1024 \<and> bit (page_directory st1 x) 0 then 0
           else page_directory st1 x)"
      "\<And>k. frame_used (pfa_page_bitmap st') k \<longleftrightarrow> frame_used (pfa_page_bitmap st1) k
           \<and> (\<forall>x y. i + 1 \<le> x \<and> x < 254 \<and> y < 1024 \<longrightarrow> k \<noteq> entry_frame (pfa_page_tables st1 x y))"
      by blast
    show ?thesis
    proof (intro exI [of _ st'] conjI allI)
      show "uncommit_from i st = Ok st'" using step st'(1) by simp
      show "pfa_page_tables st' x y = (if i \<le> x \<and> x < 254 \<and> y < 1024 then 0 else pfa_page_tables st x y)" for x y
        using True by (auto simp: st'(2) st1(2))
      show "page_directory st' x = (if 770 + i \<le> x \<and> x < 1024 \<and> bit (page_directory st x) 0 then 0
           else page_directory st x)" for x
        using True by (auto simp: st'(3) st1(3))
      show "frame_used (pfa_page_bitmap st') k \<longleftrightarrow> frame_used (pfa_page_bitmap st) k
           \<and> (\<forall>x y. i \<le> x \<and> x < 254 \<and> y < 1024 \<longrightarrow> k \<noteq> entry_frame (pfa_page_tables st x y))" for k
        unfolding st'(4) st1(4) [rule_format] using True
        by (auto simp: st1(2) le_Suc_eq) (metis Suc_leI le_neq_implies_less, metis Suc_leD)
    qed
  next
    case False
    then show ?thesis
      by (subst uncommit_from.simps) (auto simp: PFA_TABLES_def)
  qed
qed

lemma pfa_inv_uncommit_all:
  assumes "pfa_uncommit_all st = Ok st'"
  shows "pfa_inv L st'"
  by (rule pfa_inv_empty)
     (use uncommit_from_spec [of 0 st] assms in \<open>auto simp: pfa_uncommit_all_def\<close>)

lemma pfa_reachable_inv:
  assumes "link_ok L" and "pfa_reachable L st"
  shows "pfa_inv L st"
  using assms(2)
proof (induction rule: pfa_reachable.induct)
  case (reach_start st)
  then show ?case by (intro pfa_inv_empty) simp_all
next
  case (reach_commit st v b st')
  from assms(1) reach_commit.hyps(2) show ?case
    by (cases rule: commit_cases) (use reach_commit.IH in \<open>auto intro: pfa_inv_committed\<close>)
next
  case (reach_reset st st')
  from reach_reset.hyps(2) show ?case by (rule pfa_inv_uncommit_all)
qed

section \<open>What a commit does to the translations\<close>

lemma same_slot_iff:
  assumes "0xC0800000 \<le> v" and "0xC0800000 \<le> w"
  shows "table_of v = table_of w \<and> slot_of v = slot_of w \<longleftrightarrow> unat v div 4096 = unat w div 4096"
proof -
  have t: "table_of x + 770 = unat x div 4194304" if "0xC0800000 \<le> x" for x
    using directory_index [OF that] by (simp add: mapped_virt_to_page_directory_entry_def unat_drop_bit)
  have d: "unat x div 4096 = unat x div 4194304 * 1024 + slot_of x" for x
    unfolding slot_of_def using div_mult_mod_eq [of "unat x div 4096" 1024]
    by (simp add: div_mult2_eq [symmetric])
  have m: "slot_of x = unat x div 4096 mod 1024" and q: "unat x div 4194304 = unat x div 4096 div 1024" for x
    by (simp_all add: slot_of_def div_mult2_eq [symmetric])
  show ?thesis
    using t [OF assms(1)] t [OF assms(2)] d [of v] d [of w] m q by (metis add_right_cancel)
qed

lemma same_page_iff:
  assumes "0xC0800000 \<le> v" and "0xC0800000 \<le> (w :: u32)"
  shows "table_of v = table_of w \<and> slot_of v = slot_of w \<longleftrightarrow> v AND NOT 0xfff = w AND NOT 0xfff"
proof -
  have "v AND NOT 0xfff = w AND NOT 0xfff \<longleftrightarrow> unat (v AND NOT (mask 12)) = unat (w AND NOT (mask 12))"
    by (simp only: mask12_u32 word_unat_eq_iff)
  also have "\<dots> \<longleftrightarrow> unat v div 4096 = unat w div 4096"
    by (simp only: unat_and_not_mask) simp
  finally show ?thesis using same_slot_iff [OF assms] by simp
qed

lemma pfa_inv_distinct:
  assumes "pfa_inv L st" and "i < 254" and "j < 1024" and "i' < 254" and "j' < 1024"
    and "bit (pfa_page_tables st i j) 0" and "pfa_page_tables st i j = pfa_page_tables st i' j'"
  shows "i = i' \<and> j = j'"
  using assms unfolding pfa_inv_def by metis

lemma walk_frame:
  assumes "link_ok L" and "pfa_inv L st" and "0xC0800000 \<le> v"
  shows "mmu_walk L st v = Some p \<longleftrightarrow>
    (\<exists>k < PFA_FRAMES. page_entry st v = frame_addr k OR PAGE_FLAGS
       \<and> frame_used (pfa_page_bitmap st) k \<and> p = frame_addr k OR (v AND 0xfff))"
proof
  assume w: "mmu_walk L st v = Some p"
  then have b: "bit (page_entry st v) 0" and p: "p = (page_entry st v AND NOT 0xfff) OR (v AND 0xfff)"
    unfolding walk_under_inv [OF assms] by (simp_all split: if_splits)
  from b assms(2) tables_index(2) [OF assms(3)]
  obtain k where "k < PFA_FRAMES" "page_entry st v = frame_addr k OR PAGE_FLAGS"
      "frame_used (pfa_page_bitmap st) k"
    unfolding pfa_inv_def page_entry_def using slot_less [of v] by metis
  with p show "\<exists>k < PFA_FRAMES. page_entry st v = frame_addr k OR PAGE_FLAGS
       \<and> frame_used (pfa_page_bitmap st) k \<and> p = frame_addr k OR (v AND 0xfff)"
    by (metis entry_addr frame_addr_aligned)
next
  assume "\<exists>k < PFA_FRAMES. page_entry st v = frame_addr k OR PAGE_FLAGS
       \<and> frame_used (pfa_page_bitmap st) k \<and> p = frame_addr k OR (v AND 0xfff)"
  then show "mmu_walk L st v = Some p"
    unfolding walk_under_inv [OF assms] using entry_addr [OF frame_addr_aligned] by auto
qed

lemma walk_committed:
  assumes "link_ok L" and "pfa_inv L st" and "0xC0800000 \<le> v" and "0xC0800000 \<le> w"
    and "least_free (pfa_page_bitmap st) k"
  shows "mmu_walk L (committed L v k st) w =
    (if w AND NOT 0xfff = v AND NOT 0xfff then Some (frame_addr k OR (w AND 0xfff)) else mmu_walk L st w)"
proof (cases "w AND NOT 0xfff = v AND NOT 0xfff")
  case True
  then have "page_entry (committed L v k st) w = frame_addr k OR PAGE_FLAGS"
    unfolding same_page_iff [OF assms(4,3), symmetric] by (simp add: page_entry_def)
  with True show ?thesis
    unfolding walk_under_inv [OF assms(1) pfa_inv_committed [OF assms(2,5)] assms(4)]
    using entry_addr [OF frame_addr_aligned] by simp
next
  case False
  then have "page_entry (committed L v k st) w = page_entry st w"
    unfolding same_page_iff [OF assms(4,3), symmetric] by (auto simp: page_entry_def)
  with False show ?thesis
    unfolding walk_under_inv [OF assms(1) pfa_inv_committed [OF assms(2,5)] assms(4)]
      walk_under_inv [OF assms(1,2,4)] by simp
qed

lemma page_of_physical: "(frame_addr k OR ((v :: u32) AND 0xfff)) AND NOT 0xfff = frame_addr k"
  unfolding mask12_u32
  by (rule bit_word_eqI)
     (use bit_aligned [OF frame_addr_aligned [of k]] in \<open>auto simp: bit_simps\<close>)

lemma aligned_page: "v AND 0xfff = 0 \<Longrightarrow> (v :: u32) AND NOT 0xfff = v"
proof -
  assume "v AND 0xfff = 0"
  from bit_aligned [OF this] show ?thesis
    unfolding mask12_u32 by (intro bit_word_eqI) (auto simp: bit_simps)
qed

section \<open>Correctness of the page frame allocator\<close>

definition example_link :: link_map where
  "example_link = \<lparr>kernel_end = 0xC0200000, pfa_tables_addr = 0xC0100000\<rparr>"

definition example_pfa :: pfa_state where
  "example_pfa = \<lparr>page_directory = (\<lambda>i. 0), pfa_page_tables = (\<lambda>i j. 0), pfa_page_bitmap = (\<lambda>i. 0)\<rparr>"

lemma example_link_ok [simp]: "link_ok example_link"
  by (simp add: link_ok_def example_link_def kernel_start_def MAX_KERNEL_SIZE_def)

lemma example_pfa_reachable [simp]: "pfa_reachable example_link example_pfa"
  by (rule reach_start) (simp_all add: example_pfa_def)

lemma example_pfa_free [simp]: "least_free (pfa_page_bitmap example_pfa) 0"
  by (simp add: least_free_def example_pfa_def frame_used_def)

lemma example_pfa_some_free [simp]: "\<exists>k < PFA_FRAMES. \<not> frame_used (pfa_page_bitmap example_pfa) k"
  by (rule exI [of _ 0]) (simp add: example_pfa_def frame_used_def)

text \<open>
  (C22) Committing a page maps it and nothing else. In every state the allocator reaches, committing a
  page-aligned address above the kernel while some frame is free succeeds: it takes the free frame
  with the lowest number, every address of the page then translates to that frame, every other address
  above the kernel translates as before, and the bitmap gains exactly that frame.
\<close>

theorem pfa_commit_page_maps:
  assumes "link_ok L" and "pfa_reachable L st" and "v AND 0xfff = 0" and "0xC0800000 \<le> v"
    and "\<exists>k < PFA_FRAMES. \<not> frame_used (pfa_page_bitmap st) k"
  shows "\<exists>k st'. pfa_commit_page L v st = Ok (True, st') \<and> least_free (pfa_page_bitmap st) k
    \<and> (\<forall>w. 0xC0800000 \<le> w \<longrightarrow> mmu_walk L st' w =
         (if w AND NOT 0xfff = v then Some (frame_addr k OR (w AND 0xfff)) else mmu_walk L st w))
    \<and> (\<forall>l. frame_used (pfa_page_bitmap st') l \<longleftrightarrow> frame_used (pfa_page_bitmap st) l \<or> l = k)"
proof (cases "pfa_page_bitmap st" rule: least_free_cases)
  case (free k)
  have inv: "pfa_inv L st" by (rule pfa_reachable_inv [OF assms(1,2)])
  have "mmu_walk L (committed L v k st) w =
      (if w AND NOT 0xfff = v then Some (frame_addr k OR (w AND 0xfff)) else mmu_walk L st w)"
    if "0xC0800000 \<le> w" for w
    using walk_committed [OF assms(1) inv assms(4) that free] by (simp only: aligned_page [OF assms(3)])
  with free show ?thesis
    by (intro exI [of _ k] exI [of _ "committed L v k st"]) (simp add: commit_ok [OF assms(1,3,4) free])
next
  case full
  with assms(5) show ?thesis by blast
qed

theorem pfa_commit_page_maps_witness:
  "\<exists>k st'. pfa_commit_page example_link 0xC0800000 example_pfa = Ok (True, st')
    \<and> least_free (pfa_page_bitmap example_pfa) k
    \<and> (\<forall>w. 0xC0800000 \<le> w \<longrightarrow> mmu_walk example_link st' w =
         (if w AND NOT 0xfff = 0xC0800000 then Some (frame_addr k OR (w AND 0xfff))
          else mmu_walk example_link example_pfa w))
    \<and> (\<forall>l. frame_used (pfa_page_bitmap st') l \<longleftrightarrow> frame_used (pfa_page_bitmap example_pfa) l \<or> l = k)"
  by (rule pfa_commit_page_maps [OF example_link_ok example_pfa_reachable _ _ example_pfa_some_free]) simp_all

text \<open>
  The other outcomes of a commit. A misaligned address stops the kernel in the alignment
  assertion whatever the state; with every frame used the call returns false and changes nothing; with a
  free frame, an address below the managed region stops the kernel in the index assertion.
\<close>

theorem pfa_commit_page_refusals:
  "(v AND 0xfff \<noteq> 0 \<longrightarrow> pfa_commit_page L v st = Halted ''virt_addr is not page aligned.'')
   \<and> (v AND 0xfff = 0 \<and> (\<forall>k < PFA_FRAMES. frame_used (pfa_page_bitmap st) k)
        \<longrightarrow> pfa_commit_page L v st = Ok (False, st))
   \<and> (v AND 0xfff = 0 \<and> (\<exists>k < PFA_FRAMES. \<not> frame_used (pfa_page_bitmap st) k) \<and> v < 0xC0800000
        \<longrightarrow> pfa_commit_page L v st = Halted ''Index too large.'')"
proof -
  have "pfa_commit_page L v st = Halted ''Index too large.''"
    if a: "v AND 0xfff = 0" "\<exists>k < PFA_FRAMES. \<not> frame_used (pfa_page_bitmap st) k" "v < 0xC0800000"
    using commit_below [OF a(1,3)] a(2) by (cases "pfa_page_bitmap st" rule: least_free_cases) blast+
  then show ?thesis using commit_misaligned commit_full by blast
qed

theorem pfa_commit_page_refusals_witness:
  "pfa_commit_page example_link 0xC0800001 example_pfa = Halted ''virt_addr is not page aligned.''
   \<and> pfa_commit_page example_link 0xC0000000 (example_pfa\<lparr>pfa_page_bitmap := (\<lambda>i. 0xffffffff)\<rparr>)
       = Ok (False, example_pfa\<lparr>pfa_page_bitmap := (\<lambda>i. 0xffffffff)\<rparr>)
   \<and> pfa_commit_page example_link 0xC0000000 example_pfa = Halted ''Index too large.''"
proof -
  have full: "\<forall>k < PFA_FRAMES. frame_used (pfa_page_bitmap (example_pfa\<lparr>pfa_page_bitmap := (\<lambda>i. 0xffffffff)\<rparr>)) k"
    using all_ones_bit by (simp add: frame_used_def del: bit_numeral_simps)
  show ?thesis
    using pfa_commit_page_refusals [of "0xC0800001" example_link example_pfa]
      pfa_commit_page_refusals [of "0xC0000000" example_link "example_pfa\<lparr>pfa_page_bitmap := (\<lambda>i. 0xffffffff)\<rparr>"]
      pfa_commit_page_refusals [of "0xC0000000" example_link example_pfa] full example_pfa_some_free
    by simp
qed

text \<open>
  (C9) Frames are never shared. In every state reached by commits and resets, two addresses above the
  kernel that translate into the same physical frame lie on the same page, and the frame they translate
  to is marked used in the bitmap.
\<close>

theorem frames_exclusive:
  assumes "link_ok L" and "pfa_reachable L st" and "0xC0800000 \<le> v" and "0xC0800000 \<le> w"
    and "mmu_walk L st v = Some p" and "mmu_walk L st w = Some q"
    and "p AND NOT 0xfff = q AND NOT 0xfff"
  shows "v AND NOT 0xfff = w AND NOT 0xfff
    \<and> (\<exists>k < PFA_FRAMES. frame_used (pfa_page_bitmap st) k \<and> p AND NOT 0xfff = frame_addr k)"
proof -
  have inv: "pfa_inv L st" by (rule pfa_reachable_inv [OF assms(1,2)])
  from assms(5) obtain k where k: "k < PFA_FRAMES" "page_entry st v = frame_addr k OR PAGE_FLAGS"
      "frame_used (pfa_page_bitmap st) k" "p = frame_addr k OR (v AND 0xfff)"
    unfolding walk_frame [OF assms(1) inv assms(3)] by blast
  from assms(6) obtain l where l: "page_entry st w = frame_addr l OR PAGE_FLAGS"
      "q = frame_addr l OR (w AND 0xfff)"
    unfolding walk_frame [OF assms(1) inv assms(4)] by blast
  have "frame_addr k = frame_addr l"
    using assms(7) unfolding k(4) l(2) page_of_physical .
  then have "page_entry st v = page_entry st w" "bit (page_entry st v) 0"
    using k(2) l(1) by simp_all
  then have "table_of v = table_of w \<and> slot_of v = slot_of w"
    unfolding page_entry_def
    by (rule pfa_inv_distinct [OF inv tables_index(2) [OF assms(3)] slot_less
          tables_index(2) [OF assms(4)] slot_less, rotated])
  then show ?thesis
    unfolding same_page_iff [OF assms(3,4)] using k page_of_physical by metis
qed

lemma example_committed:
  "pfa_reachable example_link (committed example_link 0xC0800000 0 example_pfa)"
  "mmu_walk example_link (committed example_link 0xC0800000 0 example_pfa) 0xC0800004 = Some 0xA00004"
  "mmu_walk example_link (committed example_link 0xC0800000 0 example_pfa) 0xC0800008 = Some 0xA00008"
proof -
  note c = commit_ok [OF example_link_ok _ _ example_pfa_free, where v = "0xC0800000"]
  show "pfa_reachable example_link (committed example_link 0xC0800000 0 example_pfa)"
    by (rule reach_commit [OF example_pfa_reachable c]) simp_all
  note w = walk_committed [OF example_link_ok pfa_reachable_inv [OF example_link_ok example_pfa_reachable]
      _ _ example_pfa_free, where v = "0xC0800000"]
  show "mmu_walk example_link (committed example_link 0xC0800000 0 example_pfa) 0xC0800004 = Some 0xA00004"
    and "mmu_walk example_link (committed example_link 0xC0800000 0 example_pfa) 0xC0800008 = Some 0xA00008"
    using w [where w = "0xC0800004"] w [where w = "0xC0800008"] by (simp_all add: frame_addr_def RESERVED_PHYS_def)
qed

theorem frames_exclusive_witness:
  "(0xC0800004 :: u32) AND NOT 0xfff = 0xC0800008 AND NOT 0xfff
    \<and> (\<exists>k < PFA_FRAMES. frame_used (pfa_page_bitmap (committed example_link 0xC0800000 0 example_pfa)) k
         \<and> 0xA00004 AND NOT 0xfff = frame_addr k)"
  by (rule frames_exclusive [OF example_link_ok example_committed(1) _ _ example_committed(2,3)]) simp_all

lemma entry_kind:
  assumes "link_ok L" and "pfa_reachable L st" and "i < 254" and "j < 1024"
  shows "pfa_page_tables st i j = 0 \<or> (\<exists>k < PFA_FRAMES. pfa_page_tables st i j = frame_addr k OR PAGE_FLAGS)"
  using assms(2)
proof (induction rule: pfa_reachable.induct)
  case (reach_start st)
  then show ?case using assms(3,4) by simp
next
  case (reach_commit st v b st')
  from assms(1) reach_commit.hyps(2) show ?case
    by (cases rule: commit_cases) (use reach_commit.IH in \<open>auto simp: least_free_def\<close>)
next
  case (reach_reset st st')
  then show ?case
    using uncommit_from_spec [of 0 st] assms(3,4) by (auto simp: pfa_uncommit_all_def)
qed



text \<open>
  The table index and the first address of a table are inverse to each other on the 254 tables, the
  first is total on the managed region, and both refuse what lies outside.
\<close>

theorem pfa_table_index_round_trip:
  "(i < 254 \<longrightarrow> (\<exists>v. pfa_tables_index_to_mapped_virt i = Ok v
       \<and> mapped_virt_to_pfa_tables_index v = Ok i \<and> mapped_virt_to_page_directory_entry v = 770 + i))
   \<and> (254 \<le> i \<longrightarrow> pfa_tables_index_to_mapped_virt i = Halted ''Index too large.'')
   \<and> (v < 0xC0800000 \<longrightarrow> mapped_virt_to_pfa_tables_index v = Halted ''Index too large.'')
   \<and> (0xC0800000 \<le> v \<longrightarrow> (\<exists>j < 254. mapped_virt_to_pfa_tables_index v = Ok j))"
proof -
  have "\<exists>v. pfa_tables_index_to_mapped_virt i = Ok v
       \<and> mapped_virt_to_pfa_tables_index v = Ok i \<and> mapped_virt_to_page_directory_entry v = 770 + i"
    if i: "i < 254"
  proof (intro exI conjI)
    let ?v = "of_nat i * 4194304 + 0xC0800000 :: u32"
    note m = tables_index_to_mapped [OF i]
    have le: "0xC0800000 \<le> ?v" and t: "table_of ?v = i"
      using m(2) by (simp_all add: word_le_nat_alt table_of_def)
    show "pfa_tables_index_to_mapped_virt i = Ok ?v" by (fact m(1))
    show "mapped_virt_to_pfa_tables_index ?v = Ok i" using tables_index(1) [OF le] t by simp
    show "mapped_virt_to_page_directory_entry ?v = 770 + i" using directory_index [OF le] t by simp
  qed
  then show ?thesis
    using tables_index tables_index_below [of v]
    by (auto simp: pfa_tables_index_to_mapped_virt_def PFA_TABLES_def)
qed

theorem pfa_table_index_round_trip_witness:
  "(\<exists>v. pfa_tables_index_to_mapped_virt 253 = Ok v
       \<and> mapped_virt_to_pfa_tables_index v = Ok 253 \<and> mapped_virt_to_page_directory_entry v = 770 + 253)
   \<and> pfa_tables_index_to_mapped_virt 254 = Halted ''Index too large.''
   \<and> mapped_virt_to_pfa_tables_index 0xC0000000 = Halted ''Index too large.''
   \<and> (\<exists>j < 254. mapped_virt_to_pfa_tables_index 0xFFFFFFFF = Ok j)"
  using pfa_table_index_round_trip [of 253 "0xFFFFFFFF"] pfa_table_index_round_trip [of 254 "0xC0000000"]
  by simp

text \<open>
  (C40) The bitmap is larger than the memory above \<open>RESERVED_PHYS\<close>. Its last 512 bits wrap around: a
  commit that finds no lower frame free maps the page onto the physical memory below 2 MiB, inside the
  area reserved for the boot loader and the kernel, and returns true.
\<close>

theorem pfa_commit_page_wraps:
  assumes "link_ok L" and "pfa_reachable L st" and "v AND 0xfff = 0" and "0xC0800000 \<le> v"
    and "least_free (pfa_page_bitmap st) k"
  shows "\<exists>st' p. pfa_commit_page L v st = Ok (True, st') \<and> mmu_walk L st' v = Some p
    \<and> (p < RESERVED_PHYS \<longleftrightarrow> 1046016 \<le> k) \<and> (1046016 \<le> k \<longrightarrow> p < 0x200000)"
proof -
  note inv = pfa_reachable_inv [OF assms(1,2)]
  have k: "k < PFA_FRAMES" using assms(5) by (simp add: least_free_def)
  have "mmu_walk L (committed L v k st) v = Some (frame_addr k)"
    using walk_committed [OF assms(1) inv assms(4,4,5)] assms(3) by simp
  moreover have "frame_addr k < RESERVED_PHYS \<longleftrightarrow> 1046016 \<le> k"
    using frame_addr_above [OF k] by (metis not_le)
  moreover have "1046016 \<le> k \<longrightarrow> frame_addr k < 0x200000"
    using k by (auto simp: word_less_nat_alt unat_frame_addr_cases)
  ultimately show ?thesis
    using commit_ok [OF assms(1,3,4,5)] by blast
qed

definition nearly_full_pfa :: pfa_state where
  "nearly_full_pfa = example_pfa\<lparr>pfa_page_bitmap := (\<lambda>i. if i < 32688 then 0xffffffff else 0)\<rparr>"

lemma nearly_full:
  "pfa_reachable example_link nearly_full_pfa"
  "least_free (pfa_page_bitmap nearly_full_pfa) 1046016"
proof -
  show "pfa_reachable example_link nearly_full_pfa"
    by (rule reach_start) (simp_all add: nearly_full_pfa_def example_pfa_def)
  show "least_free (pfa_page_bitmap nearly_full_pfa) 1046016"
    using all_ones_bit
    by (auto simp: least_free_def nearly_full_pfa_def frame_used_def simp del: bit_numeral_simps)
qed

theorem pfa_commit_page_wraps_witness:
  "\<exists>st' p. pfa_commit_page example_link 0xC0800000 nearly_full_pfa = Ok (True, st')
    \<and> mmu_walk example_link st' 0xC0800000 = Some p
    \<and> (p < RESERVED_PHYS \<longleftrightarrow> 1046016 \<le> (1046016 :: nat)) \<and> (1046016 \<le> (1046016 :: nat) \<longrightarrow> p < 0x200000)"
  by (rule pfa_commit_page_wraps [OF example_link_ok nearly_full(1) _ _ nearly_full(2)]) simp_all

section \<open>The memory map\<close>

text \<open>Frame \<open>k\<close> meets the pages touched by the addresses from \<open>s\<close> to \<open>e\<close>.\<close>

definition area_frame :: "nat \<Rightarrow> nat \<Rightarrow> nat \<Rightarrow> bool" where
  "area_frame s e k \<longleftrightarrow> s < k * 4096 + 10485760 + 4096 \<and> k * 4096 + 10485760 < e"

definition segment_end :: "MMap_Segment \<Rightarrow> nat" where
  "segment_end s = unat (base_addr s) + unat (seg_length s)"

fun reserved_by :: "nat \<Rightarrow> MMap_Segment list \<Rightarrow> nat \<Rightarrow> bool" where
  "reserved_by prev_end [] k = False"
| "reserved_by prev_end (s # segs) k \<longleftrightarrow>
     area_frame prev_end (unat (base_addr s)) k
   \<or> (seg_type s \<noteq> 1 \<and> area_frame (unat (base_addr s)) (segment_end s) k)
   \<or> reserved_by (segment_end s) segs k"

lemma bitmap_index_frame:
  assumes "unat addr = 4096 * q" and "10485760 \<le> unat addr"
  shows "bitmap_index addr = (q - 2560) div 32" and "bitmap_bit_index addr = (q - 2560) mod 32"
proof -
  have "unat (addr - RESERVED_PHYS) = 4096 * (q - 2560)"
    using assms by (simp add: unat_sub word_le_nat_alt RESERVED_PHYS_def)
  then show "bitmap_index addr = (q - 2560) div 32" "bitmap_bit_index addr = (q - 2560) mod 32"
    by (simp_all add: bitmap_index_def bitmap_bit_index_def PAGE_SIZE_def unat_div unat_mod)
qed

lemma mark_reserved_spec:
  "unat addr = 4096 * q \<Longrightarrow> 10485760 \<le> unat addr \<Longrightarrow> unat area_end = 4096 * r \<Longrightarrow>
   \<exists>bm'. mark_reserved addr area_end bm = Ok bm'
     \<and> (\<forall>k. frame_used bm' k \<longleftrightarrow> frame_used bm k \<or> (q \<le> k + 2560 \<and> k + 2560 < r))"
proof (induction addr area_end bm arbitrary: q rule: mark_reserved.induct)
  case (1 addr area_end bm)
  show ?case
  proof (cases "addr < area_end")
    case True
    then have qr: "q < r" using "1.prems" by (simp add: word_less_nat_alt)
    have r: "4096 * r < 4294967296" using "1.prems"(3) unat_lt_pow2 [of area_end] by simp
    let ?f = "q - 2560"
    define bm1 where "bm1 = bm(?f div 32 := bm (?f div 32) OR push_bit (?f mod 32) 1)"
    have small: "unat addr + 4096 < 2 ^ 32" using qr r "1.prems"(1) by simp
    have next_addr: "unat (addr + PAGE_SIZE) = 4096 * (q + 1)"
      using small "1.prems"(1) by (simp add: PAGE_SIZE_def unat_add_no_wrap)
    have step: "mark_reserved addr area_end bm = mark_reserved (addr + PAGE_SIZE) area_end bm1"
      using True small
      by (subst mark_reserved.simps) (simp only: if_True bitmap_index_frame [OF "1.prems"(1,2)] bm1_def Let_def)
    have b1: "bm1 = bm(bitmap_index addr := bm (bitmap_index addr) OR push_bit (bitmap_bit_index addr) 1)"
      unfolding bitmap_index_frame [OF "1.prems"(1,2)] bm1_def ..
    have big: "10485760 \<le> unat (addr + PAGE_SIZE)"
      using next_addr "1.prems"(1,2) by simp
    obtain bm' where bm': "mark_reserved (addr + PAGE_SIZE) area_end bm1 = Ok bm'"
      "\<forall>k. frame_used bm' k \<longleftrightarrow> frame_used bm1 k \<or> (q + 1 \<le> k + 2560 \<and> k + 2560 < r)"
      using "1.IH" [OF True b1 small next_addr big "1.prems"(3)] by blast
    have "frame_used bm1 k \<longleftrightarrow> frame_used bm k \<or> k = ?f" for k
      unfolding bm1_def by (rule frame_used_mark_k)
    with bm' step qr "1.prems"(1,2) show ?thesis
      by (intro exI [of _ bm']) auto
  next
    case False
    then have "r \<le> q" using "1.prems" by (simp add: word_less_nat_alt)
    with False show ?thesis by (subst mark_reserved.simps) auto
  qed
qed

lemma align_forward_page:
  assumes "unat s + 4096 \<le> 4294967296"
  shows "\<exists>a. align_forward s PAGE_SIZE = Ok a \<and> unat a = 4096 * ((unat s + 4095) div 4096)"
  using align_forward_pow2 [of 12 s] unat_align_forward_mask [of 12 s] assms
  by (simp add: PAGE_SIZE_def)

lemma align_backwards_page:
  "\<exists>a. align_backwards s PAGE_SIZE = Ok a \<and> unat a = 4096 * (unat s div 4096)"
  using align_backwards_pow2 [of 12 s] unat_and_not_mask [of s 12]
  by (simp add: PAGE_SIZE_def)

lemma page_ceil_less: "k < (e + 4095) div 4096 \<longleftrightarrow> k * 4096 < (e :: nat)"
proof -
  have "k < (e + 4095) div 4096 \<longleftrightarrow> (k + 1) * 4096 \<le> e + 4095"
    using less_eq_div_iff_mult_less_eq [of 4096 "k + 1" "e + 4095"] by (simp add: Suc_le_eq)
  then show ?thesis by (simp add: Suc_le_eq)
qed

lemma page_floor_le: "s div 4096 \<le> k \<longleftrightarrow> s < k * 4096 + (4096 :: nat)"
proof -
  have "s div 4096 < k + 1 \<longleftrightarrow> s < (k + 1) * 4096"
    by (rule div_less_iff_less_mult) simp
  then show ?thesis by (simp add: less_Suc_eq_le add.commute)
qed

lemma mark_area_spec:
  assumes "unat e + 4096 \<le> 4294967296"
  shows "\<exists>bm'. mark_area s e bm = Ok bm'
     \<and> (\<forall>k. frame_used bm' k \<longleftrightarrow> frame_used bm k \<or> area_frame (unat s) (unat e) k)"
proof -
  obtain ae where ae: "align_forward e PAGE_SIZE = Ok ae" "unat ae = 4096 * ((unat e + 4095) div 4096)"
    using align_forward_page [OF assms] by blast
  obtain as where as: "align_backwards s PAGE_SIZE = Ok as" "unat as = 4096 * (unat s div 4096)"
    using align_backwards_page by blast
  have hi: "k + 2560 < (unat e + 4095) div 4096 \<longleftrightarrow> k * 4096 + 10485760 < unat e" for k
    unfolding page_ceil_less by simp
  show ?thesis
  proof (cases "ae > RESERVED_PHYS")
    case True
    define a where "a = (if as < RESERVED_PHYS then RESERVED_PHYS else as)"
    define q where "q = max 2560 (unat s div 4096)"
    have a: "unat a = 4096 * q" "10485760 \<le> unat a"
      using as(2) by (auto simp: a_def q_def word_less_nat_alt RESERVED_PHYS_def)
    have m: "mark_area s e bm = mark_reserved a ae bm"
      using True by (simp add: mark_area_def ae(1) as(1) a_def)
    have "q \<le> k + 2560 \<longleftrightarrow> unat s < k * 4096 + 10485760 + 4096" for k
      using page_floor_le [of "unat s" "k + 2560"] by (simp add: q_def)
    then show ?thesis
      unfolding m area_frame_def hi [symmetric] using mark_reserved_spec [OF a ae(2), of bm] by simp
  next
    case False
    then have "(unat e + 4095) div 4096 \<le> 2560"
      using ae(2) by (simp add: word_less_nat_alt RESERVED_PHYS_def)
    then have "\<not> area_frame (unat s) (unat e) k" for k
      unfolding area_frame_def hi [symmetric] by simp
    with False show ?thesis by (simp add: mark_area_def ae(1))
  qed
qed

lemma unat_segment:
  assumes "segment_end s + 4096 \<le> 4294967296"
  shows "unat (ucast (base_addr s) :: u32) = unat (base_addr s)"
    and "unat (ucast (base_addr s + seg_length s) :: u32) = segment_end s"
    and "unat (base_addr s) + 4096 \<le> 4294967296"
proof -
  have b: "unat (base_addr s) < 4294967296" and e: "segment_end s < 4294967296"
    using assms by (simp_all add: segment_end_def)
  show "unat (base_addr s) + 4096 \<le> 4294967296" using assms by (simp add: segment_end_def)
  show "unat (ucast (base_addr s) :: u32) = unat (base_addr s)"
    using b by (simp add: unsigned_ucast_eq unat_take_bit take_bit_eq_mod)
  have "unat (base_addr s + seg_length s) = segment_end s"
    using e by (simp add: segment_end_def unat_word_ariths)
  then show "unat (ucast (base_addr s + seg_length s) :: u32) = segment_end s"
    using e by (simp add: unsigned_ucast_eq unat_take_bit take_bit_eq_mod)
qed

lemma mark_segment_spec:
  assumes "segment_end s + 4096 \<le> 4294967296"
  shows "\<exists>bm'. mark_segment s prev_end bm = Ok bm'
     \<and> (\<forall>k. frame_used bm' k \<longleftrightarrow> frame_used bm k \<or> area_frame (unat prev_end) (unat (base_addr s)) k
           \<or> (seg_type s \<noteq> 1 \<and> area_frame (unat (base_addr s)) (segment_end s) k))"
proof -
  note u = unat_segment [OF assms]
  obtain bm1 where bm1: "mark_area prev_end (ucast (base_addr s)) bm = Ok bm1"
    "\<forall>k. frame_used bm1 k \<longleftrightarrow> frame_used bm k \<or> area_frame (unat prev_end) (unat (base_addr s)) k"
    using mark_area_spec [of "ucast (base_addr s)" prev_end bm] u by auto
  obtain bm2 where bm2: "mark_area (ucast (base_addr s)) (ucast (base_addr s + seg_length s)) bm1 = Ok bm2"
    "\<forall>k. frame_used bm2 k \<longleftrightarrow> frame_used bm1 k \<or> area_frame (unat (base_addr s)) (segment_end s) k"
    using mark_area_spec [of "ucast (base_addr s + seg_length s)" "ucast (base_addr s)" bm1] u assms by auto
  show ?thesis
    using bm1 bm2 by (auto simp: mark_segment_def)
qed

definition map_bytes :: "MMap_Segment list \<Rightarrow> nat" where
  "map_bytes segs = (\<Sum>s\<leftarrow>segs. unat (seg_size s) + 4)"

lemma pfa_init_loop_spec:
  assumes "\<forall>s \<in> set segs. segment_end s + 4096 \<le> 4294967296"
    and "unat bytes + map_bytes segs = unat mmap_length"
  shows "\<exists>bm'. pfa_init_loop mmap_length segs bytes prev_end bm = Ok bm'
     \<and> (\<forall>k. frame_used bm' k \<longleftrightarrow> frame_used bm k \<or> reserved_by (unat prev_end) segs k)"
  using assms
proof (induction segs arbitrary: bytes prev_end bm)
  case Nil
  then show ?case by (simp add: map_bytes_def word_less_nat_alt)
next
  case (Cons s segs)
  have s: "segment_end s + 4096 \<le> 4294967296" using Cons.prems(1) by simp
  have sum: "unat bytes + (unat (seg_size s) + 4) + map_bytes segs = unat mmap_length"
    using Cons.prems(2) by (simp add: map_bytes_def)
  have lt: "unat bytes + (unat (seg_size s) + 4) < 4294967296"
    using sum unat_lt_pow2 [of mmap_length] by linarith
  have "unat (seg_size s + 4) = unat (seg_size s) + 4"
    using lt by (simp add: unat_add_no_wrap)
  then have bytes: "unat (bytes + (seg_size s + 4)) = unat bytes + (unat (seg_size s) + 4)"
    using lt by (simp add: unat_add_no_wrap)
  have more: "bytes < mmap_length" using sum by (simp add: word_less_nat_alt)
  obtain bm1 where bm1: "mark_segment s prev_end bm = Ok bm1"
    "\<forall>k. frame_used bm1 k \<longleftrightarrow> frame_used bm k \<or> area_frame (unat prev_end) (unat (base_addr s)) k
           \<or> (seg_type s \<noteq> 1 \<and> area_frame (unat (base_addr s)) (segment_end s) k)"
    using mark_segment_spec [OF s] by blast
  have "\<exists>bm'. pfa_init_loop mmap_length segs (bytes + (seg_size s + 4))
      (ucast (base_addr s + seg_length s)) bm1 = Ok bm'
     \<and> (\<forall>k. frame_used bm' k \<longleftrightarrow> frame_used bm1 k \<or>
          reserved_by (unat (ucast (base_addr s + seg_length s) :: u32)) segs k)"
    by (rule Cons.IH) (use Cons.prems(1) sum bytes in simp_all)
  then show ?case
    using more bm1 unat_segment(2) [OF s] by auto
qed

lemma mark_area_wrapped:
  assumes "e = 0 \<or> 4294963200 < unat e"
  shows "mark_area s e bm = Ok bm"
proof -
  have "(e + mask 12) AND NOT (mask 12) = (0 :: u32)"
  proof -
    have "unat (e + mask 12) < 4096"
      using assms unat_lt_pow2 [of e] unat_mask_u32 [of 12]
      by (auto simp: unat_word_ariths mod_if simp del: unat_lt_pow2)
    then have "unat ((e + mask 12) AND NOT (mask 12)) = 0"
      by (simp only: unat_and_not_mask) simp
    then show ?thesis by (simp only: unat_eq_zero)
  qed
  then show ?thesis
    using align_forward_pow2 [of 12 e] by (simp add: mark_area_def PAGE_SIZE_def RESERVED_PHYS_def)
qed


definition example_map :: "MMap_Segment list" where
  "example_map =
     [\<lparr>seg_size = 20, base_addr = 0, seg_length = 0xA00000, seg_type = 1\<rparr>,
      \<lparr>seg_size = 20, base_addr = 0xB00000, seg_length = 0x100000, seg_type = 2\<rparr>]"


text \<open>
  A reserved segment that ends in the last page of the 4 GiB address space is not marked. Its end
  rounds up to 0 in 32 bits, so the guard against \<open>RESERVED_PHYS\<close> skips it; only the gap before it
  is treated. The firmware's own segment at the top of memory is of this kind.
\<close>

theorem pfa_init_skips_top_segment:
  assumes "4294963200 < segment_end s" and "segment_end s \<le> 4294967296"
  shows "mark_segment s prev_end bm = mark_area prev_end (ucast (base_addr s)) bm"
proof -
  have u: "unat (base_addr s + seg_length s) = segment_end s"
    using assms(2) by (simp add: segment_end_def unat_word_ariths)
  have "unat (ucast (base_addr s + seg_length s) :: u32) = segment_end s mod 4294967296"
    by (simp add: unsigned_ucast_eq unat_take_bit take_bit_eq_mod u)
  then have "(ucast (base_addr s + seg_length s) :: u32) = 0
      \<or> 4294963200 < unat (ucast (base_addr s + seg_length s) :: u32)"
    using assms by (cases "segment_end s = 4294967296") (simp_all only: unat_eq_zero [symmetric], simp_all)
  then have "mark_area start (ucast (base_addr s + seg_length s)) bm' = Ok bm'" for start bm'
    by (rule mark_area_wrapped)
  then show ?thesis
    by (cases "mark_area prev_end (ucast (base_addr s)) bm") (simp_all add: mark_segment_def)
qed

theorem pfa_init_skips_top_segment_witness:
  "mark_segment \<lparr>seg_size = 20, base_addr = 0xFFFC0000, seg_length = 0x40000, seg_type = 2\<rparr> 0xFFFC0000 (\<lambda>i. 0)
     = mark_area 0xFFFC0000 (ucast (base_addr \<lparr>seg_size = 20, base_addr = 0xFFFC0000,
         seg_length = 0x40000, seg_type = 2\<rparr>)) (\<lambda>i. 0)"
  by (rule pfa_init_skips_top_segment) (simp_all add: segment_end_def)

end
