(* ===== verification/Heap.thy ===== *)
theory Heap
  imports CMem PageFrame
begin

text \<open>
  The kernel's allocator, the first half of \<open>src/src/std/memory.c\<close>: a singly linked list of free
  segments, sorted by address, in the virtual memory above the kernel. A free segment starts with its
  \<open>next\<close> pointer and its \<open>length\<close>; an allocated one starts with the word that \<open>memory_allocate\<close> writes
  there and hands out the address after it.

  The state has the memory the list lives in, the two globals of the file, and the state of the page
  provider. \<open>memory.c\<close> knows the provider only by the prototype of \<open>pfa_commit_page\<close>: the operations
  take it as an argument, the locale \<open>page_provider\<close> states what they rely on, and the last section
  instantiates both with the page frame allocator. The word at address 0 is ordinary memory:
  \<open>bootstrap.c\<close> maps the first 2 MiB one to one, so a store through a null pointer reaches it.

  The loops follow pointers of the memory, so each takes fuel, one unit per iteration; running out is
  \<open>Diverged\<close>. The theorems give the fuel that is enough, or show that none is.
\<close>

section \<open>State and operations\<close>

record 'p heap_state =
  hmem :: memory
  free_segments_head :: u32
  next_page_virt_addr :: u32
  provider :: 'p

definition seg_next :: "memory \<Rightarrow> u32 \<Rightarrow> u32" where "seg_next m s = ld32 m (unat s)"
definition seg_len :: "memory \<Rightarrow> u32 \<Rightarrow> u32" where "seg_len m s = ld32 m (unat s + 4)"
definition set_next :: "memory \<Rightarrow> u32 \<Rightarrow> u32 \<Rightarrow> memory" where "set_next m s v = st32 m (unat s) v"
definition set_len :: "memory \<Rightarrow> u32 \<Rightarrow> u32 \<Rightarrow> memory" where "set_len m s v = st32 m (unat s + 4) v"

definition memory_init :: "'p heap_state \<Rightarrow> bool \<times> 'p heap_state" where
  "memory_init st = (True, st\<lparr>next_page_virt_addr := kernel_start + MAX_KERNEL_SIZE\<rparr>)"

definition ensure_head ::
  "(u32 \<Rightarrow> 'p \<Rightarrow> (bool \<times> 'p) outcome) \<Rightarrow> 'p heap_state \<Rightarrow> (bool \<times> 'p heap_state) outcome" where
  "ensure_head commit st =
     (if free_segments_head st = 0 then
        obind (commit (next_page_virt_addr st) (provider st)) (\<lambda>(success, p).
        let st = st\<lparr>provider := p\<rparr> in
        if \<not> success then Ok (False, st)
        else (let h = next_page_virt_addr st in
              Ok (True, st\<lparr>free_segments_head := h,
                           hmem := set_len (set_next (hmem st) h 0) h PAGE_SIZE,
                           next_page_virt_addr := h + PAGE_SIZE\<rparr>)))
      else Ok (True, st))"

fun find_fit :: "nat \<Rightarrow> memory \<Rightarrow> u32 \<Rightarrow> u32 \<Rightarrow> u32 \<Rightarrow> u32 \<Rightarrow> (u32 \<times> u32 \<times> u32 \<times> bool) outcome" where
  "find_fit 0 m true_size prev_prev_segment prev_segment segment = Diverged"
| "find_fit (Suc fuel) m true_size prev_prev_segment prev_segment segment =
     (if segment \<noteq> 0 then
        if true_size + 8 \<le> seg_len m segment then Ok (prev_prev_segment, prev_segment, segment, True)
        else if true_size \<le> seg_len m segment then Ok (prev_prev_segment, prev_segment, segment, False)
        else find_fit fuel m true_size prev_segment segment (seg_next m segment)
      else Ok (prev_prev_segment, prev_segment, segment, False))"

fun grow_segment ::
  "(u32 \<Rightarrow> 'p \<Rightarrow> (bool \<times> 'p) outcome) \<Rightarrow> nat \<Rightarrow> u32 \<Rightarrow> u32 \<Rightarrow> u32 \<Rightarrow> 'p
     \<Rightarrow> (bool \<times> u32 \<times> u32 \<times> 'p) outcome" where
  "grow_segment commit 0 true_size last_segment_length next_page p = Diverged"
| "grow_segment commit (Suc fuel) true_size last_segment_length next_page p =
     (if last_segment_length < true_size then
        obind (commit next_page p) (\<lambda>(success, p').
        if \<not> success then Ok (False, last_segment_length, next_page, p')
        else grow_segment commit fuel true_size (last_segment_length + PAGE_SIZE) (next_page + PAGE_SIZE) p')
      else Ok (True, last_segment_length, next_page, p))"

definition take_segment ::
  "u32 \<Rightarrow> u32 \<Rightarrow> u32 \<Rightarrow> u32 \<Rightarrow> bool \<Rightarrow> 'p heap_state \<Rightarrow> u32 \<times> 'p heap_state" where
  "take_segment sz true_size prev_segment segment segment_can_be_split st =
     (let st =
       (if segment_can_be_split then
          (let remaining = segment + true_size;
               m = hmem st;
               m = (if prev_segment \<noteq> 0 then set_next m prev_segment remaining else m);
               m = set_next m remaining (seg_next m segment);
               m = set_len m remaining (seg_len m segment - true_size)
           in st\<lparr>hmem := m, free_segments_head :=
                (if segment = free_segments_head st then remaining else free_segments_head st)\<rparr>)
        else
          (let m = hmem st;
               m = (if prev_segment \<noteq> 0 then set_next m prev_segment (seg_next m segment) else m)
           in st\<lparr>hmem := m, free_segments_head :=
                (if segment = free_segments_head st then seg_next m segment else free_segments_head st)\<rparr>))
      in (segment + 4, st\<lparr>hmem := st32 (hmem st) (unat segment) (sz + 4)\<rparr>))"

definition memory_allocate ::
  "(u32 \<Rightarrow> 'p \<Rightarrow> (bool \<times> 'p) outcome) \<Rightarrow> nat \<Rightarrow> u32 \<Rightarrow> 'p heap_state \<Rightarrow> (u32 \<times> 'p heap_state) outcome" where
  "memory_allocate commit fuel sz st =
     obind (align_forward (sz + 4) 4) (\<lambda>true_size.
     obind (ensure_head commit st) (\<lambda>(success, st).
     if \<not> success then Ok (0, st) else
     obind (find_fit fuel (hmem st) true_size 0 0 (free_segments_head st))
       (\<lambda>(prev_prev_segment, prev_segment, segment, split).
     if segment = 0 then
       obind (ASSERT (prev_segment \<noteq> 0) ''prev_segment should be non-zero.'') (\<lambda>_.
       obind (grow_segment commit fuel true_size (seg_len (hmem st) prev_segment)
                (next_page_virt_addr st) (provider st)) (\<lambda>(success, last_segment_length, next_page, p).
       let st = st\<lparr>next_page_virt_addr := next_page, provider := p\<rparr> in
       if \<not> success then Ok (0, st)
       else (let st = st\<lparr>hmem := set_len (hmem st) prev_segment last_segment_length\<rparr> in
             Ok (take_segment sz true_size prev_prev_segment prev_segment
                   (true_size + 8 \<le> seg_len (hmem st) prev_segment) st))))
     else Ok (take_segment sz true_size prev_segment segment split st))))"

text \<open>
  \<open>memory_free\<close>: two loops over a window of four pointers, then the stores. The window is
  \<open>(prev_prev, prev, next, next_next)\<close>.
\<close>

fun free_walk ::
  "nat \<Rightarrow> memory \<Rightarrow> u32 \<Rightarrow> u32 \<Rightarrow> u32 \<Rightarrow> u32 \<Rightarrow> u32 \<Rightarrow> (u32 \<times> u32 \<times> u32 \<times> u32) outcome" where
  "free_walk 0 m segment pp p n nn = Diverged"
| "free_walk (Suc fuel) m segment pp p n nn =
     (if nn \<noteq> 0 then
        obind (ASSERT (n \<noteq> segment) ''segment should not be in the free segments list.'') (\<lambda>_.
        obind (ASSERT (nn \<noteq> segment) ''segment should not be in the free segments list.'') (\<lambda>_.
        if nn > segment \<and> n < segment then Ok (pp, p, n, nn)
        else free_walk fuel m segment p n nn (seg_next m nn)))
      else Ok (pp, p, n, nn))"

fun free_advance ::
  "nat \<Rightarrow> memory \<Rightarrow> u32 \<Rightarrow> u32 \<Rightarrow> u32 \<Rightarrow> u32 \<Rightarrow> u32 \<Rightarrow> (u32 \<times> u32 \<times> u32 \<times> u32) outcome" where
  "free_advance 0 m segment pp p n nn = Diverged"
| "free_advance (Suc fuel) m segment pp p n nn =
     (if n < segment then free_advance fuel m segment p n nn (if nn \<noteq> 0 then seg_next m nn else nn)
      else Ok (pp, p, n, nn))"

definition link_segment :: "u32 \<Rightarrow> u32 \<Rightarrow> u32 \<Rightarrow> u32 \<Rightarrow> u32 \<Rightarrow> 'p heap_state \<Rightarrow> 'p heap_state outcome" where
  "link_segment segment pp p n nn st =
     (let m = hmem st;
          m = set_len m segment (ld32 m (unat segment)) in
      obind (if segment + seg_len m segment = n
             then obind (ASSERT (n \<noteq> 0) ''next_segment does not exist.'') (\<lambda>_.
                  Ok (set_len m segment (seg_len m segment + seg_len m n), nn))
             else Ok (m, n)) (\<lambda>(m, n).
      let (m, s, p) =
        (if p \<noteq> 0 \<and> p + seg_len m p = segment
         then (set_len m p (seg_len m p + seg_len m segment), p, pp)
         else (m, segment, p))
      in Ok (st\<lparr>free_segments_head := (if free_segments_head st > s then s else free_segments_head st),
                hmem := set_next (set_next m p s) s n\<rparr>)))"

definition memory_free :: "nat \<Rightarrow> u32 \<Rightarrow> 'p heap_state \<Rightarrow> 'p heap_state outcome" where
  "memory_free fuel address st =
     (if free_segments_head st = 0 then Ok st
      else
        (let segment = address - 4; m = hmem st in
         obind (free_walk fuel m segment 0 0 0 (free_segments_head st)) (\<lambda>(pp, p, n, nn).
         obind (free_advance fuel m segment pp p n nn) (\<lambda>(pp, p, n, nn).
         obind (ASSERT ((p < segment \<and> n > segment) \<or> (p < segment \<and> n = 0) \<or> (p = 0 \<and> n > segment))
           ''Free segments are not adjacent to segment.'') (\<lambda>_.
         link_segment segment pp p n nn st)))))"

definition memory_free_all :: "('p \<Rightarrow> 'p outcome) \<Rightarrow> 'p heap_state \<Rightarrow> 'p heap_state outcome" where
  "memory_free_all uncommit_all st =
     obind (uncommit_all (provider st)) (\<lambda>p.
     Ok (st\<lparr>provider := p, next_page_virt_addr := kernel_start + MAX_KERNEL_SIZE, free_segments_head := 0\<rparr>))"

section \<open>Specification vocabulary\<close>

text \<open>The list of free segments from pointer \<open>p\<close> to pointer \<open>q\<close>, as addresses and lengths.\<close>

fun lseg :: "memory \<Rightarrow> u32 \<Rightarrow> (u32 \<times> u32) list \<Rightarrow> u32 \<Rightarrow> bool" where
  "lseg m p [] q \<longleftrightarrow> p = q"
| "lseg m p ((a, n) # xs) q \<longleftrightarrow> p = a \<and> a \<noteq> 0 \<and> seg_len m a = n \<and> lseg m (seg_next m a) xs q"

text \<open>Sorted, disjoint, each with room for its header, all between \<open>lo\<close> and \<open>hi\<close>.\<close>

fun fsorted :: "nat \<Rightarrow> (u32 \<times> u32) list \<Rightarrow> nat \<Rightarrow> bool" where
  "fsorted lo [] hi \<longleftrightarrow> lo \<le> hi"
| "fsorted lo ((a, n) # xs) hi \<longleftrightarrow> lo \<le> unat a \<and> 8 \<le> unat n \<and> fsorted (unat a + unat n) xs hi"

definition free_bytes :: "(u32 \<times> u32) list \<Rightarrow> nat set" where
  "free_bytes xs = (\<Union>(a, n) \<in> set xs. {unat a ..< unat a + unat n})"

definition heap_ok :: "'p heap_state \<Rightarrow> (u32 \<times> u32) list \<Rightarrow> bool" where
  "heap_ok st xs \<longleftrightarrow> lseg (hmem st) (free_segments_head st) xs 0
     \<and> fsorted 0xC0800000 xs (unat (next_page_virt_addr st))
     \<and> unat (next_page_virt_addr st) mod 4096 = 0"

text \<open>First fit, on lists.\<close>

fun first_fit :: "u32 \<Rightarrow> (u32 \<times> u32) list \<Rightarrow> (u32 \<times> (u32 \<times> u32) list) option" where
  "first_fit ts [] = None"
| "first_fit ts ((a, n) # xs) =
     (if unat ts + 8 \<le> unat n then Some (a, (a + ts, n - ts) # xs)
      else if ts \<le> n then Some (a, xs)
      else case first_fit ts xs of None \<Rightarrow> None | Some (b, ys) \<Rightarrow> Some (b, (a, n) # ys))"

text \<open>Insertion of a freed segment, merging it with its neighbours.\<close>

fun insert_free :: "u32 \<Rightarrow> u32 \<Rightarrow> (u32 \<times> u32) list \<Rightarrow> (u32 \<times> u32) list" where
  "insert_free s l [] = [(s, l)]"
| "insert_free s l ((a, n) # xs) =
     (if s < a then (if s + l = a then (s, l + n) # xs else (s, l) # (a, n) # xs)
      else if a + n = s then
        (case insert_free s l xs of [] \<Rightarrow> [(a, n)] | (b, k) # ys \<Rightarrow> (a, n + k) # ys)
      else (a, n) # insert_free s l xs)"

section \<open>List segments in memory\<close>

lemma seg_store [simp]:
  "seg_next (set_next m a v) a = v"
  "seg_len (set_len m a v) a = v"
  by (simp_all add: seg_next_def set_next_def seg_len_def set_len_def cell32.ld_st)

lemma seg_len_next [simp]:
  "seg_len (set_next m a v) a = seg_len m a"
  "seg_next (set_len m a v) a = seg_next m a"
  by (simp_all add: seg_next_def set_next_def seg_len_def set_len_def cell32.ld_st_disjoint)

lemma seg_other:
  assumes "unat a + 8 \<le> unat b \<or> unat b + 8 \<le> unat a"
  shows "seg_next (set_next m a v) b = seg_next m b" "seg_len (set_next m a v) b = seg_len m b"
    "seg_next (set_len m a v) b = seg_next m b" "seg_len (set_len m a v) b = seg_len m b"
  using assms
  by (auto simp: seg_next_def set_next_def seg_len_def set_len_def cell32.ld_st_disjoint)

lemma set_outside:
  assumes "x < unat a \<or> unat a + 8 \<le> x"
  shows "set_next m a v x = m x" "set_len m a v x = m x"
  using assms by (auto simp: set_next_def set_len_def cell32.st_frame)

lemma lseg_append: "lseg m p (xs @ ys) q \<longleftrightarrow> (\<exists>r. lseg m p xs r \<and> lseg m r ys q)"
  by (induction xs arbitrary: p) auto

lemma lseg_cong:
  assumes "\<And>a n. (a, n) \<in> set xs \<Longrightarrow> seg_next m' a = seg_next m a \<and> seg_len m' a = seg_len m a"
  shows "lseg m' p xs q \<longleftrightarrow> lseg m p xs q"
  using assms
proof (induction xs arbitrary: p)
  case Nil
  then show ?case by simp
next
  case (Cons x xs)
  obtain a n where x: "x = (a, n)" by (cases x)
  have "seg_next m' a = seg_next m a" "seg_len m' a = seg_len m a"
    using Cons.prems [of a n] by (simp_all add: x)
  moreover have "lseg m' r xs q \<longleftrightarrow> lseg m r xs q" for r
    by (rule Cons.IH) (use Cons.prems in auto)
  ultimately show ?case by (simp add: x)
qed

lemma fsorted_append:
  "fsorted lo (xs @ ys) hi \<longleftrightarrow> (\<exists>mid. fsorted lo xs mid \<and> fsorted mid ys hi)"
proof (induction xs arbitrary: lo)
  case Nil
  then show ?case by (cases ys) (auto intro: order_trans)
next
  case (Cons x xs)
  then show ?case by (cases x) auto
qed

lemma fsorted_le: "fsorted lo xs hi \<Longrightarrow> lo \<le> hi"
proof (induction xs arbitrary: lo)
  case (Cons x xs)
  then show ?case by (cases x) fastforce
qed simp

lemma fsorted_mem:
  "fsorted lo xs hi \<Longrightarrow> (a, n) \<in> set xs \<Longrightarrow> lo \<le> unat a \<and> 8 \<le> unat n \<and> unat a + unat n \<le> hi"
proof (induction xs arbitrary: lo)
  case (Cons x xs)
  then show ?case by (cases x) (force dest: fsorted_le)
qed simp

lemma fsorted_mono: "fsorted lo xs hi \<Longrightarrow> lo' \<le> lo \<Longrightarrow> hi \<le> hi' \<Longrightarrow> fsorted lo' xs hi'"
  by (induction xs arbitrary: lo lo') auto

text \<open>Redirecting the last pointer of a list segment.\<close>

lemma lseg_set_last_next:
  assumes "lseg m p (xs @ [(b, k)]) q" and "fsorted lo (xs @ [(b, k)]) hi"
  shows "lseg (set_next m b r) p (xs @ [(b, k)]) r"
proof -
  obtain mid where s: "fsorted lo xs mid" "mid \<le> unat b"
    using assms(2) by (auto simp: fsorted_append)
  have "lseg (set_next m b r) p xs b \<longleftrightarrow> lseg m p xs b"
    by (rule lseg_cong) (use s fsorted_mem in \<open>fastforce simp: seg_other\<close>)
  with assms(1) show ?thesis by (auto simp: lseg_append)
qed

lemma lseg_unaffected:
  assumes "fsorted lo xs hi" and "\<And>x. x \<in> free_bytes xs \<Longrightarrow> m' x = m x"
  shows "lseg m' p xs q \<longleftrightarrow> lseg m p xs q"
proof (rule lseg_cong)
  fix a n assume an: "(a, n) \<in> set xs"
  have "m' (unat a + i) = m (unat a + i)" if "i < 8" for i
    using fsorted_mem [OF assms(1) an] an that by (intro assms(2)) (force simp: free_bytes_def)
  then show "seg_next m' a = seg_next m a \<and> seg_len m' a = seg_len m a"
    unfolding seg_next_def seg_len_def
    by (intro conjI cell32.ld_cong) (simp_all add: add.assoc)
qed

section \<open>The search loop\<close>

fun win :: "u32 \<Rightarrow> u32 \<Rightarrow> (u32 \<times> u32) list \<Rightarrow> u32 \<times> u32" where
  "win pp p [] = (pp, p)"
| "win pp p (x # xs) = win p (fst x) xs"

lemma win_snoc [simp]: "win pp p (xs @ [x]) = (snd (win pp p xs), fst x)"
  by (induction pp p xs rule: win.induct) auto

lemma unat_plus_8: "unat ts + 8 < 4294967296 \<Longrightarrow> unat (ts + 8 :: u32) = unat ts + 8"
  by (simp add: unat_add_no_wrap)

lemma find_fit_hit:
  assumes "lseg m s (B @ (a, n) # A) q" and "\<forall>(b, k) \<in> set B. k < ts" and "unat ts + 8 < 4294967296"
    and "ts \<le> n" and "length B < fuel"
  shows "find_fit fuel m ts pp p s =
    Ok (fst (win pp p B), snd (win pp p B), a, unat ts + 8 \<le> unat n)"
  using assms
proof (induction B arbitrary: fuel pp p s)
  case Nil
  then show ?case by (cases fuel) (auto simp: word_le_nat_alt unat_plus_8)
next
  case (Cons x B)
  obtain b k where x: "x = (b, k)" by (cases x)
  obtain f where f: "fuel = Suc f" using Cons.prems(5) by (cases fuel) auto
  have h: "s = b" "b \<noteq> 0" "seg_len m b = k" and rest: "lseg m (seg_next m b) (B @ (a, n) # A) q"
    using Cons.prems(1) by (auto simp: x)
  have k: "k < ts" using Cons.prems(2) by (simp add: x)
  have "\<not> ts + 8 \<le> k" "\<not> ts \<le> k"
    using k Cons.prems(3) by (simp_all add: word_le_nat_alt word_less_nat_alt unat_plus_8)
  moreover have "find_fit f m ts p b (seg_next m b)
      = Ok (fst (win p b B), snd (win p b B), a, unat ts + 8 \<le> unat n)"
    by (rule Cons.IH [OF rest]) (use Cons.prems f in auto)
  ultimately show ?case using h by (simp add: f x)
qed

lemma find_fit_miss:
  assumes "lseg m s xs 0" and "\<forall>(b, k) \<in> set xs. k < ts" and "unat ts + 8 < 4294967296"
    and "length xs < fuel"
  shows "find_fit fuel m ts pp p s = Ok (fst (win pp p xs), snd (win pp p xs), 0, False)"
  using assms
proof (induction xs arbitrary: fuel pp p s)
  case Nil
  then show ?case by (cases fuel) auto
next
  case (Cons x B)
  obtain b k where x: "x = (b, k)" by (cases x)
  obtain f where f: "fuel = Suc f" using Cons.prems(4) by (cases fuel) auto
  have h: "s = b" "b \<noteq> 0" "seg_len m b = k" and rest: "lseg m (seg_next m b) B 0"
    using Cons.prems(1) by (auto simp: x)
  have k: "k < ts" using Cons.prems(2) by (simp add: x)
  have "\<not> ts + 8 \<le> k" "\<not> ts \<le> k"
    using k Cons.prems(3) by (simp_all add: word_le_nat_alt word_less_nat_alt unat_plus_8)
  moreover have "find_fit f m ts p b (seg_next m b) = Ok (fst (win p b B), snd (win p b B), 0, False)"
    by (rule Cons.IH [OF rest]) (use Cons.prems f in auto)
  ultimately show ?case using h by (simp add: f x)
qed

section \<open>Taking a segment out of the list\<close>

lemma relink:
  fixes r :: u32
  assumes "lseg m h B a" and "fsorted lo B mid" and "0 < lo"
  defines "p \<equiv> snd (win 0 0 B)"
  defines "m' \<equiv> (if p \<noteq> 0 then set_next m p r else m)"
  shows "lseg m' (if B = [] then r else h) B r"
    and "\<And>x. x \<notin> free_bytes B \<Longrightarrow> m' x = m x"
proof -
  have "lseg m' (if B = [] then r else h) B r \<and> (\<forall>x. x \<notin> free_bytes B \<longrightarrow> m' x = m x)"
  proof (cases B rule: rev_cases)
    case Nil
    then show ?thesis by (simp add: m'_def p_def)
  next
    case (snoc B0 x)
    obtain b k where x: "x = (b, k)" by (cases x)
    have mem: "lo \<le> unat b" "8 \<le> unat k" using fsorted_mem [OF assms(2), of b k] by (simp_all add: snoc x)
    then have "b \<noteq> 0" using assms(3) by auto
    then have m': "m' = set_next m b r" by (simp add: m'_def p_def snoc x)
    have "set_next m b r y = m y" if "y \<notin> free_bytes B" for y
    proof -
      have "y \<notin> {unat b ..< unat b + unat k}" using that by (auto simp: free_bytes_def snoc x)
      then have "y < unat b \<or> unat b + 8 \<le> y" using mem by auto
      then show ?thesis by (rule set_outside)
    qed
    moreover have "lseg (set_next m b r) h B r"
      using lseg_set_last_next assms(1,2) by (simp add: snoc x)
    ultimately show ?thesis by (simp add: m' snoc)
  qed
  then show "lseg m' (if B = [] then r else h) B r" and "\<And>x. x \<notin> free_bytes B \<Longrightarrow> m' x = m x"
    by blast+
qed

lemma free_bytes_append [simp]: "free_bytes (xs @ ys) = free_bytes xs \<union> free_bytes ys"
  by (auto simp: free_bytes_def)

lemma free_bytes_Cons [simp]: "free_bytes ((a, n) # xs) = {unat a ..< unat a + unat n} \<union> free_bytes xs"
  by (auto simp: free_bytes_def)

lemma free_bytes_Nil [simp]: "free_bytes [] = {}"
  by (simp add: free_bytes_def)

lemma free_bytes_bounds: "fsorted lo xs hi \<Longrightarrow> x \<in> free_bytes xs \<Longrightarrow> lo \<le> x \<and> x < hi"
  by (force simp: free_bytes_def dest: fsorted_mem)

lemma head_eq_iff:
  assumes "lseg m h (B @ (a, n) # A) q" and "fsorted lo (B @ (a, n) # A) hi"
  shows "a = h \<longleftrightarrow> B = []"
proof (cases B)
  case Nil
  then show ?thesis using assms(1) by simp
next
  case (Cons x B0)
  obtain b k where x: "x = (b, k)" by (cases x)
  have "h = b" using assms(1) by (simp add: Cons x)
  moreover have "unat b < unat a"
    using assms(2) fsorted_mem [of "unat b + unat k" "B0 @ (a, n) # A" hi a n] by (simp add: Cons x)
  ultimately show ?thesis by (auto simp: Cons)
qed

lemma take_segment_split:
  assumes l: "lseg (hmem st) (free_segments_head st) (B @ (a, n) # A) 0"
    and s: "fsorted lo (B @ (a, n) # A) hi" and lo: "0 < lo" and hi: "hi < 4294967296"
    and ts: "8 \<le> unat ts" "unat ts + 8 \<le> unat n"
  obtains st' where "take_segment sz ts (snd (win 0 0 B)) a True st = (a + 4, st')"
    and "lseg (hmem st') (free_segments_head st') (B @ (a + ts, n - ts) # A) 0"
    and "fsorted lo (B @ (a + ts, n - ts) # A) hi"
    and "ld32 (hmem st') (unat a) = sz + 4"
    and "\<forall>x. x \<notin> free_bytes (B @ [(a, n)]) \<longrightarrow> hmem st' x = hmem st x"
    and "next_page_virt_addr st' = next_page_virt_addr st" "provider st' = provider st"
proof -
  let ?m = "hmem st" and ?h = "free_segments_head st"
  define p where "p = snd (win 0 0 B)"
  define m1 where "m1 = (if p \<noteq> 0 then set_next ?m p (a + ts) else ?m)"
  define m2 where "m2 = set_next m1 (a + ts) (seg_next m1 a)"
  define m3 where "m3 = set_len m2 (a + ts) (seg_len m2 a - ts)"
  define m4 where "m4 = st32 m3 (unat a) (sz + 4)"
  obtain mid where s': "fsorted lo B mid" "mid \<le> unat a" "fsorted (unat a + unat n) A hi"
    using s by (auto simp: fsorted_append)
  have lB: "lseg ?m ?h B a" and lA: "lseg ?m (seg_next ?m a) A 0" and len: "seg_len ?m a = n" and a0: "a \<noteq> 0"
    using l by (auto simp: lseg_append)
  note r = relink [OF lB s'(1) lo, where r = "a + ts", folded p_def, folded m1_def]
  have an: "unat a + unat n < 4294967296" using fsorted_le [OF s'(3)] hi by linarith
  have rem: "unat (a + ts) = unat a + unat ts" using an ts by (intro unat_add_no_wrap) linarith
  have nts: "unat (n - ts) = unat n - unat ts" using ts by (intro unat_sub) (simp add: word_le_nat_alt)
  have Bm: "x < unat a" if "x \<in> free_bytes B" for x
    using free_bytes_bounds [OF s'(1) that] s'(2) by linarith
  have Am: "unat a + unat n \<le> x" if "x \<in> free_bytes A" for x
    using free_bytes_bounds [OF s'(3) that] by linarith
  have m1a: "m1 x = ?m x" if "unat a \<le> x" for x
    using r(2) [of x] Bm [of x] that by fastforce
  have m1_a: "seg_next m1 a = seg_next ?m a" "seg_len m1 a = n"
    unfolding seg_next_def seg_len_def len [symmetric]
    by (rule cell32.ld_cong, simp add: m1a)+
  have m2_a: "seg_len m2 a = n"
    unfolding m2_def using m1_a rem ts by (simp add: seg_other)
  have out: "m4 x = m1 x" if "x < unat a \<or> unat a + unat n \<le> x" for x
    unfolding m4_def m3_def m2_def using that rem ts
    by (auto simp: cell32.st_frame set_outside)
  have rem_hdr: "seg_next m4 (a + ts) = seg_next ?m a" "seg_len m4 (a + ts) = n - ts"
  proof -
    have "seg_next m4 (a + ts) = seg_next m3 (a + ts)" "seg_len m4 (a + ts) = seg_len m3 (a + ts)"
      unfolding m4_def seg_next_def seg_len_def using rem ts by (simp_all add: cell32.ld_st_disjoint)
    then show "seg_next m4 (a + ts) = seg_next ?m a" "seg_len m4 (a + ts) = n - ts"
      by (simp_all add: m3_def m2_a) (simp add: m2_def m1_a)
  qed
  have "lseg m4 (seg_next ?m a) A 0"
    using lseg_unaffected [OF s'(3), of m4 ?m] lA out m1a Am by fastforce
  moreover have "lseg m4 (if B = [] then a + ts else ?h) B (a + ts)"
    using lseg_unaffected [OF s'(1), of m4 m1] r(1) out Bm by fastforce
  moreover have "a + ts \<noteq> 0" using rem ts by (metis add_is_0 not_numeral_le_zero unat_0)
  ultimately have L: "lseg m4 (if B = [] then a + ts else ?h) (B @ (a + ts, n - ts) # A) 0"
    using rem_hdr by (auto simp: lseg_append)
  have eq: "take_segment sz ts p a True st
      = (a + 4, st\<lparr>hmem := m4, free_segments_head := (if B = [] then a + ts else ?h)\<rparr>)"
    using head_eq_iff [OF l s]
    by (simp add: take_segment_def Let_def m4_def m3_def m2_def m1_def)
  have S: "fsorted lo (B @ (a + ts, n - ts) # A) hi"
    unfolding fsorted_append using s' rem nts ts by (auto intro!: exI [of _ mid])
  have F: "\<forall>x. x \<notin> free_bytes (B @ [(a, n)]) \<longrightarrow> m4 x = ?m x"
    using out r(2) by fastforce
  show ?thesis
    by (rule that [OF eq [unfolded p_def]]) (use L S F in \<open>simp_all add: m4_def cell32.ld_st\<close>)
qed

lemma take_segment_whole:
  assumes l: "lseg (hmem st) (free_segments_head st) (B @ (a, n) # A) 0"
    and s: "fsorted lo (B @ (a, n) # A) hi" and lo: "0 < lo"
  obtains st' where "take_segment sz ts (snd (win 0 0 B)) a False st = (a + 4, st')"
    and "lseg (hmem st') (free_segments_head st') (B @ A) 0"
    and "fsorted lo (B @ A) hi"
    and "ld32 (hmem st') (unat a) = sz + 4"
    and "\<forall>x. x \<notin> free_bytes (B @ [(a, n)]) \<longrightarrow> hmem st' x = hmem st x"
    and "next_page_virt_addr st' = next_page_virt_addr st" "provider st' = provider st"
proof -
  let ?m = "hmem st" and ?h = "free_segments_head st"
  define p where "p = snd (win 0 0 B)"
  define m1 where "m1 = (if p \<noteq> 0 then set_next ?m p (seg_next ?m a) else ?m)"
  define m4 where "m4 = st32 m1 (unat a) (sz + 4)"
  obtain mid where s': "fsorted lo B mid" "mid \<le> unat a" "8 \<le> unat n" "fsorted (unat a + unat n) A hi"
    using s by (auto simp: fsorted_append)
  have lB: "lseg ?m ?h B a" and lA: "lseg ?m (seg_next ?m a) A 0"
    using l by (auto simp: lseg_append)
  note r = relink [OF lB s'(1) lo, where r = "seg_next ?m a", folded p_def, folded m1_def]
  have Bm: "x < unat a" if "x \<in> free_bytes B" for x
    using free_bytes_bounds [OF s'(1) that] s'(2) by linarith
  have Am: "unat a + unat n \<le> x" if "x \<in> free_bytes A" for x
    using free_bytes_bounds [OF s'(4) that] by linarith
  have m1a: "m1 x = ?m x" if "unat a \<le> x" for x
    using r(2) [of x] Bm [of x] that by fastforce
  have m1_a: "seg_next m1 a = seg_next ?m a"
    unfolding seg_next_def by (rule cell32.ld_cong) (simp add: m1a)
  have out: "m4 x = m1 x" if "x < unat a \<or> unat a + unat n \<le> x" for x
    unfolding m4_def using that s'(3) by (auto simp: cell32.st_frame)
  have "lseg m4 (seg_next ?m a) A 0"
    using lseg_unaffected [OF s'(4), of m4 ?m] lA out m1a Am by fastforce
  moreover have "lseg m4 (if B = [] then seg_next ?m a else ?h) B (seg_next ?m a)"
    using lseg_unaffected [OF s'(1), of m4 m1] r(1) out Bm by fastforce
  ultimately have L: "lseg m4 (if B = [] then seg_next ?m a else ?h) (B @ A) 0"
    by (auto simp: lseg_append)
  have eq: "take_segment sz ts p a False st
      = (a + 4, st\<lparr>hmem := m4, free_segments_head := (if B = [] then seg_next ?m a else ?h)\<rparr>)"
    using head_eq_iff [OF l s] m1_a
    by (simp add: take_segment_def Let_def m4_def m1_def)
  have S: "fsorted lo (B @ A) hi"
    unfolding fsorted_append using s' fsorted_mono [OF s'(4), of mid hi] by (auto intro!: exI [of _ mid])
  have F: "\<forall>x. x \<notin> free_bytes (B @ [(a, n)]) \<longrightarrow> m4 x = ?m x"
    using out r(2) by fastforce
  show ?thesis
    by (rule that [OF eq [unfolded p_def]]) (use L S F in \<open>simp_all add: m4_def cell32.ld_st\<close>)
qed

section \<open>First fit\<close>

definition block_size :: "u32 \<Rightarrow> u32" where
  "block_size sz = (sz + 4 + mask 2) AND NOT (mask 2)"

definition size_ok :: "u32 \<Rightarrow> bool" where
  "size_ok sz \<longleftrightarrow> 1 \<le> unat sz \<and> unat sz < 0xFFFFFFF0"

lemma align_block: "align_forward (sz + 4) 4 = Ok (block_size sz)"
  using align_forward_pow2 [of 2 "sz + 4"] by (simp add: block_size_def)

lemma unat_block_size:
  assumes "size_ok sz"
  shows "unat (block_size sz) = (unat sz + 7) div 4 * 4"
    and "8 \<le> unat (block_size sz)" and "unat (block_size sz) + 8 < 4294967296"
    and "unat sz + 4 \<le> unat (block_size sz)"
proof -
  have s: "unat (sz + 4) = unat sz + 4"
    using assms by (simp add: size_ok_def unat_add_no_wrap)
  show *: "unat (block_size sz) = (unat sz + 7) div 4 * 4"
    using unat_align_forward_mask [of 2 "sz + 4"] assms s
    by (simp add: block_size_def size_ok_def)
  have "2 \<le> (unat sz + 7) div 4" using assms by (simp add: size_ok_def less_eq_div_iff_mult_less_eq)
  then show "8 \<le> unat (block_size sz)" unfolding * by linarith
  have "(unat sz + 7) div 4 * 4 \<le> unat sz + 7" by simp
  then show "unat (block_size sz) + 8 < 4294967296"
    using assms unfolding * size_ok_def by linarith
  have "unat sz + 7 < (unat sz + 7) div 4 * 4 + 4" using div_mult_mod_eq [of "unat sz + 7" 4]
      mod_less_divisor [of 4 "unat sz + 7"] by linarith
  then show "unat sz + 4 \<le> unat (block_size sz)" unfolding * by linarith
qed

lemma first_fit_Some:
  assumes "first_fit ts xs = Some (a, ys)"
  obtains B n A where "xs = B @ (a, n) # A" "\<forall>(b, k) \<in> set B. k < ts" "ts \<le> n"
    "ys = (if unat ts + 8 \<le> unat n then B @ (a + ts, n - ts) # A else B @ A)"
proof -
  have "\<exists>B n A. xs = B @ (a, n) # A \<and> (\<forall>(b, k) \<in> set B. k < ts) \<and> ts \<le> n
    \<and> ys = (if unat ts + 8 \<le> unat n then B @ (a + ts, n - ts) # A else B @ A)"
    using assms
  proof (induction xs arbitrary: ys)
    case (Cons x xs)
    obtain b k where x: "x = (b, k)" by (cases x)
    show ?case
    proof (cases "ts \<le> k")
      case True
      with Cons.prems show ?thesis
        by (intro exI [of _ "[]"] exI [of _ k] exI [of _ xs]) (auto simp: x split: if_splits)
    next
      case False
      then have "\<not> unat ts + 8 \<le> unat k" by (simp add: word_le_nat_alt)
      with False Cons.prems obtain zs where z: "first_fit ts xs = Some (a, zs)" "ys = (b, k) # zs"
        by (auto simp: x split: option.splits)
      from Cons.IH [OF z(1)] obtain B n A where
        "xs = B @ (a, n) # A" "\<forall>(b, k) \<in> set B. k < ts" "ts \<le> n"
        "zs = (if unat ts + 8 \<le> unat n then B @ (a + ts, n - ts) # A else B @ A)"
        by blast
      with False z(2) show ?thesis
        by (intro exI [of _ "(b, k) # B"] exI [of _ n] exI [of _ A]) (auto simp: x)
    qed
  qed simp
  then show ?thesis using that by blast
qed

lemma first_fit_None:
  "first_fit ts xs = None \<Longrightarrow> (b, k) \<in> set xs \<Longrightarrow> k < ts"
proof (induction xs)
  case (Cons x xs)
  then show ?case
    by (cases x) (auto split: if_splits option.splits simp: word_le_nat_alt word_less_nat_alt not_le)
qed simp

lemma allocate_hit:
  assumes ok: "heap_ok st xs" and sz: "size_ok sz" and f: "first_fit (block_size sz) xs = Some (a, ys)"
    and fuel: "length xs < fuel"
  obtains st' where "memory_allocate commit fuel sz st = Ok (a + 4, st')" "heap_ok st' ys"
    "ld32 (hmem st') (unat a) = sz + 4"
    "\<forall>x. x \<notin> free_bytes xs \<longrightarrow> hmem st' x = hmem st x"
    "next_page_virt_addr st' = next_page_virt_addr st" "provider st' = provider st"
proof -
  let ?ts = "block_size sz"
  note ts = unat_block_size [OF sz]
  obtain B n A where x: "xs = B @ (a, n) # A" "\<forall>(b, k) \<in> set B. k < ?ts" "?ts \<le> n"
    "ys = (if unat ?ts + 8 \<le> unat n then B @ (a + ?ts, n - ?ts) # A else B @ A)"
    using f by (rule first_fit_Some)
  have l: "lseg (hmem st) (free_segments_head st) (B @ (a, n) # A) 0"
    and s: "fsorted 0xC0800000 (B @ (a, n) # A) (unat (next_page_virt_addr st))"
    and al: "unat (next_page_virt_addr st) mod 4096 = 0"
    using ok by (simp_all add: heap_ok_def x(1))
  have a0: "a \<noteq> 0" using l by (auto simp: lseg_append)
  have "free_segments_head st \<noteq> 0" using l by (cases B) (auto simp: lseg_append)
  then have h: "ensure_head commit st = Ok (True, st)" by (simp add: ensure_head_def)
  have ff: "find_fit fuel (hmem st) ?ts 0 0 (free_segments_head st) =
      Ok (fst (win 0 0 B), snd (win 0 0 B), a, unat ?ts + 8 \<le> unat n)"
    by (rule find_fit_hit [OF l x(2) ts(3) x(3)]) (use fuel x(1) in simp)
  have eq: "memory_allocate commit fuel sz st =
      Ok (take_segment sz ?ts (snd (win 0 0 B)) a (unat ?ts + 8 \<le> unat n) st)"
    using a0 by (simp add: memory_allocate_def align_block h ff)
  show ?thesis
  proof (cases "unat ?ts + 8 \<le> unat n")
    case True
    obtain st' where "take_segment sz ?ts (snd (win 0 0 B)) a True st = (a + 4, st')"
      "lseg (hmem st') (free_segments_head st') (B @ (a + ?ts, n - ?ts) # A) 0"
      "fsorted 0xC0800000 (B @ (a + ?ts, n - ?ts) # A) (unat (next_page_virt_addr st))"
      "ld32 (hmem st') (unat a) = sz + 4"
      "\<forall>x. x \<notin> free_bytes (B @ [(a, n)]) \<longrightarrow> hmem st' x = hmem st x"
      "next_page_virt_addr st' = next_page_virt_addr st" "provider st' = provider st"
      by (rule take_segment_split [OF l s _ unat_lt_pow2 ts(2) True, of sz]) simp
    with True show ?thesis by (intro that [of st']) (simp_all add: eq heap_ok_def x(1,4) al)
  next
    case False
    obtain st' where "take_segment sz ?ts (snd (win 0 0 B)) a False st = (a + 4, st')"
      "lseg (hmem st') (free_segments_head st') (B @ A) 0"
      "fsorted 0xC0800000 (B @ A) (unat (next_page_virt_addr st))"
      "ld32 (hmem st') (unat a) = sz + 4"
      "\<forall>x. x \<notin> free_bytes (B @ [(a, n)]) \<longrightarrow> hmem st' x = hmem st x"
      "next_page_virt_addr st' = next_page_virt_addr st" "provider st' = provider st"
      by (rule take_segment_whole [OF l s, of sz ?ts]) simp
    with False show ?thesis by (intro that [of st']) (simp_all add: eq heap_ok_def x(1,4) al)
  qed
qed

lemma first_fit_bytes:
  assumes "fsorted lo xs hi" and "hi < 4294967296" and "first_fit ts xs = Some (a, ys)"
  shows "{unat a ..< unat a + unat ts} \<subseteq> free_bytes xs"
    and "{unat a ..< unat a + unat ts} \<inter> free_bytes ys = {}"
    and "free_bytes ys \<subseteq> free_bytes xs" and "a \<noteq> 0 \<or> lo = 0"
proof -
  obtain B n A where x: "xs = B @ (a, n) # A" "ts \<le> n"
    "ys = (if unat ts + 8 \<le> unat n then B @ (a + ts, n - ts) # A else B @ A)"
    using assms(3) by (rule first_fit_Some)
  obtain mid where s: "fsorted lo B mid" "mid \<le> unat a" "fsorted (unat a + unat n) A hi"
    using assms(1) by (auto simp: x(1) fsorted_append)
  have ts: "unat ts \<le> unat n" using x(2) by (simp add: word_le_nat_alt)
  have "unat a + unat n < 4294967296" using fsorted_le [OF s(3)] assms(2) by linarith
  then have r: "unat (a + ts) = unat a + unat ts" "unat (n - ts) = unat n - unat ts"
    using ts by (simp_all add: unat_add_no_wrap unat_sub word_le_nat_alt)
  have B: "y < unat a" if "y \<in> free_bytes B" for y
    using free_bytes_bounds [OF s(1) that] s(2) by linarith
  have A: "unat a + unat n \<le> y" if "y \<in> free_bytes A" for y
    using free_bytes_bounds [OF s(3) that] by linarith
  show "{unat a ..< unat a + unat ts} \<subseteq> free_bytes xs" using ts by (auto simp: x(1))
  show "free_bytes ys \<subseteq> free_bytes xs" using ts r by (auto simp: x(1,3))
  show "{unat a ..< unat a + unat ts} \<inter> free_bytes ys = {}"
    using A B ts r by (force simp: x(3))
  show "a \<noteq> 0 \<or> lo = 0" using fsorted_le [OF s(1)] s(2) by auto
qed

lemma page_count:
  fixes n t :: nat
  assumes "n < t"
  defines "k \<equiv> (t - n + 4095) div 4096"
  shows "t \<le> n + 4096 * k" "n + 4096 * (k - 1) < t" "k \<noteq> 0" "k \<le> t div 4096 + 1" "4096 * k < t + 4096"
proof -
  have "t - n + 4095 = 4096 * k + (t - n + 4095) mod 4096" "(t - n + 4095) mod 4096 < 4096"
    unfolding k_def by simp_all
  then have a: "4096 * k \<le> t - n + 4095" "t - n \<le> 4096 * k" by linarith+
  show "t \<le> n + 4096 * k" using a by linarith
  show k0: "k \<noteq> 0" using a assms(1) by (cases "k = 0") simp_all
  show "n + 4096 * (k - 1) < t" using a k0 assms(1) by (simp add: diff_mult_distrib2)
  show "4096 * k < t + 4096" using a by linarith
  have "4096 * (k - 1) \<le> t" using a k0 by (simp add: diff_mult_distrib2)
  then have "k - 1 \<le> t div 4096" by (simp add: less_eq_div_iff_mult_less_eq)
  then show "k \<le> t div 4096 + 1" by linarith
qed

lemma take_segment_spec:
  assumes l: "lseg (hmem st) (free_segments_head st) (B @ (a, n) # A) 0"
    and s: "fsorted lo (B @ (a, n) # A) hi" and lo: "0 < lo" and hi: "hi < 4294967296"
    and ts: "8 \<le> unat ts"
  shows "\<exists>st'. take_segment sz ts (snd (win 0 0 B)) a (unat ts + 8 \<le> unat n) st = (a + 4, st')
    \<and> (let ys = (if unat ts + 8 \<le> unat n then B @ (a + ts, n - ts) # A else B @ A) in
        lseg (hmem st') (free_segments_head st') ys 0 \<and> fsorted lo ys hi)
    \<and> ld32 (hmem st') (unat a) = sz + 4
    \<and> (\<forall>x. x \<notin> free_bytes (B @ [(a, n)]) \<longrightarrow> hmem st' x = hmem st x)
    \<and> next_page_virt_addr st' = next_page_virt_addr st \<and> provider st' = provider st"
proof (cases "unat ts + 8 \<le> unat n")
  case True
  show ?thesis
    by (rule take_segment_split [OF l s lo hi ts True, of sz]) (use True in auto)
next
  case False
  show ?thesis
    by (rule take_segment_whole [OF l s lo, of sz ts]) (use False in auto)
qed

section \<open>The page provider\<close>

definition backed_below :: "('p \<Rightarrow> bool) \<Rightarrow> ('p \<Rightarrow> nat \<Rightarrow> bool) \<Rightarrow> 'p \<Rightarrow> nat \<Rightarrow> bool" where
  "backed_below ok backed p e \<longleftrightarrow> ok p \<and> (\<forall>x. 3229614080 \<le> x \<and> x < e \<longrightarrow> backed p x)"

text \<open>
  What \<open>memory.c\<close> relies on: on the addresses the allocator passes, a commit returns; when it returns
  true it backs exactly one page more, when it returns false it changes nothing.
\<close>

locale page_provider =
  fixes commit :: "u32 \<Rightarrow> 'p \<Rightarrow> (bool \<times> 'p) outcome"
    and ok :: "'p \<Rightarrow> bool"
    and backed :: "'p \<Rightarrow> nat \<Rightarrow> bool"
  assumes commit_returns: "ok p \<Longrightarrow> unat v mod 4096 = 0 \<Longrightarrow> 3229614080 \<le> unat v \<Longrightarrow> \<exists>b p'. commit v p = Ok (b, p')"
    and commit_keeps: "ok p \<Longrightarrow> commit v p = Ok (b, p') \<Longrightarrow> ok p'"
    and commit_backs: "ok p \<Longrightarrow> commit v p = Ok (True, p') \<Longrightarrow> 3229614080 \<le> x \<Longrightarrow> x < 4294967296
      \<Longrightarrow> backed p' x \<longleftrightarrow> backed p x \<or> (unat v \<le> x \<and> x < unat v + 4096)"
    and commit_refuses: "ok p \<Longrightarrow> commit v p = Ok (False, p') \<Longrightarrow> p' = p"
begin

lemma commit_next_page:
  assumes b: "backed_below ok backed p (unat v)" and c: "commit v p = Ok (True, p')"
    and v: "unat v + 4096 \<le> 4294967296"
  shows "backed_below ok backed p' (unat v + 4096)"
proof -
  have "ok p" using b by (simp add: backed_below_def)
  note k = commit_keeps [OF this c] commit_backs [OF this c]
  have "backed p' x" if "3229614080 \<le> x" "x < unat v + 4096" for x
    using k(2) [OF that(1)] that b v by (cases "x < unat v") (auto simp: backed_below_def)
  with k(1) show ?thesis by (simp add: backed_below_def)
qed

text \<open>The growing loop: \<open>j\<close> pages of the \<open>k\<close> it needs.\<close>

lemma grow:
  assumes "backed_below ok backed p (unat nxt)" and "unat nxt mod 4096 = 0" and "3229614080 \<le> unat nxt"
    and "unat nxt + 4096 * k < 4294967296" and "unat len + 4096 * k < 4294967296"
    and "unat ts \<le> unat len + 4096 * k" and "k \<noteq> 0 \<Longrightarrow> unat len + 4096 * (k - 1) < unat ts" and "k < fuel"
  shows "\<exists>b len' nxt' p' j. grow_segment commit fuel ts len nxt p = Ok (b, len', nxt', p')
     \<and> j \<le> k \<and> (b \<longleftrightarrow> j = k) \<and> unat len' = unat len + 4096 * j \<and> unat nxt' = unat nxt + 4096 * j
     \<and> backed_below ok backed p' (unat nxt')"
  using assms
proof (induction k arbitrary: fuel len nxt p)
  case 0
  then have "\<not> len < ts" by (simp add: word_less_nat_alt)
  with 0 show ?case by (cases fuel) auto
next
  case (Suc k)
  obtain f where f: "fuel = Suc f" using Suc.prems(8) by (cases fuel) auto
  have lt: "len < ts" using Suc.prems(7) by (simp add: word_less_nat_alt)
  have okp: "ok p" using Suc.prems(1) by (simp add: backed_below_def)
  obtain b p1 where c: "commit nxt p = Ok (b, p1)"
    using commit_returns [OF okp Suc.prems(2,3)] by blast
  have n1: "unat (nxt + PAGE_SIZE) = unat nxt + 4096" "unat (len + PAGE_SIZE) = unat len + 4096"
    using Suc.prems(4,5) by (simp_all add: PAGE_SIZE_def unat_add_no_wrap)
  show ?case
  proof (cases b)
    case False
    with c have "p1 = p" using commit_refuses [OF okp] by simp
    with False c lt f Suc.prems(1) show ?thesis
      by (intro exI [of _ False] exI [of _ len] exI [of _ nxt] exI [of _ p] exI [of _ 0]) simp
  next
    case True
    have bb: "backed_below ok backed p1 (unat (nxt + PAGE_SIZE))"
      using commit_next_page [OF Suc.prems(1), of p1] c True Suc.prems(4) by (simp add: n1)
    have "k \<noteq> 0 \<Longrightarrow> unat (len + PAGE_SIZE) + 4096 * (k - 1) < unat ts"
      using Suc.prems(7) n1 by (cases k) simp_all
    then have ex: "\<exists>b len' nxt' p' j. grow_segment commit f ts (len + PAGE_SIZE) (nxt + PAGE_SIZE) p1
        = Ok (b, len', nxt', p') \<and> j \<le> k \<and> (b \<longleftrightarrow> j = k) \<and> unat len' = unat (len + PAGE_SIZE) + 4096 * j
        \<and> unat nxt' = unat (nxt + PAGE_SIZE) + 4096 * j \<and> backed_below ok backed p' (unat nxt')"
      using Suc.prems f n1 by (intro Suc.IH [OF bb]) (simp_all add: mod_simps)
    obtain b' len' nxt' p' j where g:
      "grow_segment commit f ts (len + PAGE_SIZE) (nxt + PAGE_SIZE) p1 = Ok (b', len', nxt', p')"
      "j \<le> k" "b' \<longleftrightarrow> j = k" "unat len' = unat (len + PAGE_SIZE) + 4096 * j"
      "unat nxt' = unat (nxt + PAGE_SIZE) + 4096 * j" "backed_below ok backed p' (unat nxt')"
      using ex by (elim exE conjE) (rule that)
    show ?thesis
      by (intro exI [of _ b'] exI [of _ len'] exI [of _ nxt'] exI [of _ p'] exI [of _ "Suc j"])
         (use g c True lt f n1 in auto)
  qed
qed

lemma allocate_empty:
  assumes ok: "heap_ok st []" and b: "backed_below ok backed (provider st) (unat (next_page_virt_addr st))"
    and sp: "unat (next_page_virt_addr st) + 4096 < 4294967296"
    and c: "commit (next_page_virt_addr st) (provider st) = Ok (True, p)"
  obtains st1 where "memory_allocate commit fuel sz st = memory_allocate commit fuel sz st1"
    "heap_ok st1 [(next_page_virt_addr st, 4096)]" "provider st1 = p"
    "unat (next_page_virt_addr st1) = unat (next_page_virt_addr st) + 4096"
    "\<forall>x. x < unat (next_page_virt_addr st) \<longrightarrow> hmem st1 x = hmem st x"
    "backed_below ok backed (provider st1) (unat (next_page_virt_addr st1))"
proof -
  let ?n = "next_page_virt_addr st"
  define st1 where "st1 = st\<lparr>provider := p, free_segments_head := ?n,
    hmem := set_len (set_next (hmem st) ?n 0) ?n PAGE_SIZE, next_page_virt_addr := ?n + PAGE_SIZE\<rparr>"
  have h0: "free_segments_head st = 0" and lo: "3229614080 \<le> unat ?n" and al: "unat ?n mod 4096 = 0"
    using ok by (simp_all add: heap_ok_def)
  have n0: "?n \<noteq> 0" using lo by auto
  have n1: "unat (next_page_virt_addr st1) = unat ?n + 4096"
    using sp by (simp add: st1_def PAGE_SIZE_def unat_add_no_wrap)
  have "ensure_head commit st = Ok (True, st1)" "ensure_head commit st1 = Ok (True, st1)"
    using h0 c n0 by (simp_all add: ensure_head_def st1_def Let_def)
  then have eq: "memory_allocate commit fuel sz st = memory_allocate commit fuel sz st1"
    by (simp add: memory_allocate_def)
  have h1: "heap_ok st1 [(?n, 4096)]"
    using n0 n1 al lo by (simp add: heap_ok_def) (simp add: st1_def PAGE_SIZE_def mod_simps)
  have f: "\<forall>x. x < unat ?n \<longrightarrow> hmem st1 x = hmem st x"
    by (simp add: st1_def set_outside)
  have bb: "backed_below ok backed (provider st1) (unat (next_page_virt_addr st1))"
    using commit_next_page [OF b c] sp n1 by (simp add: st1_def)
  show ?thesis by (rule that [OF eq h1 _ n1 f bb]) (simp add: st1_def)
qed

text \<open>No segment is large enough and the last one ends where the heap ends: it grows in place.\<close>

lemma allocate_grows:
  assumes ok: "heap_ok st (xs @ [(a, n)])" and sz: "size_ok sz"
    and none: "first_fit (block_size sz) (xs @ [(a, n)]) = None"
    and adj: "unat a + unat n = unat (next_page_virt_addr st)"
    and b: "backed_below ok backed (provider st) (unat (next_page_virt_addr st))"
    and sp: "unat (next_page_virt_addr st) + unat (block_size sz) + 4096 < 4294967296"
    and fuel: "length xs + unat (block_size sz) div 4096 + 2 < fuel"
  shows "\<exists>r st' ys. memory_allocate commit fuel sz st = Ok (r, st') \<and> heap_ok st' ys
     \<and> unat (next_page_virt_addr st) \<le> unat (next_page_virt_addr st')
     \<and> backed_below ok backed (provider st') (unat (next_page_virt_addr st'))
     \<and> (\<forall>x. x \<notin> free_bytes (xs @ [(a, n)]) \<and> x < unat (next_page_virt_addr st) \<longrightarrow> hmem st' x = hmem st x)
     \<and> free_bytes ys \<subseteq> free_bytes (xs @ [(a, n)]) \<union> {unat (next_page_virt_addr st) ..< unat (next_page_virt_addr st')}
     \<and> (r = 0 \<or> (r = a + 4 \<and> ld32 (hmem st') (unat a) = sz + 4
          \<and> unat a + unat (block_size sz) \<le> unat (next_page_virt_addr st')
          \<and> {unat a ..< unat a + unat (block_size sz)} \<inter> free_bytes ys = {}))"
proof -
  let ?ts = "block_size sz" and ?n = "next_page_virt_addr st"
  note ts = unat_block_size [OF sz]
  have small: "\<forall>(b, k) \<in> set (xs @ [(a, n)]). k < ?ts" using first_fit_None [OF none] by blast
  have l: "lseg (hmem st) (free_segments_head st) (xs @ [(a, n)]) 0"
    and s: "fsorted 0xC0800000 (xs @ [(a, n)]) (unat ?n)" and al: "unat ?n mod 4096 = 0"
    using ok by (simp_all add: heap_ok_def)
  have a0: "a \<noteq> 0" and len: "seg_len (hmem st) a = n" using l by (auto simp: lseg_append)
  have "free_segments_head st \<noteq> 0" using l by (cases xs) (auto simp: lseg_append)
  then have h: "ensure_head commit st = Ok (True, st)" by (simp add: ensure_head_def)
  have ff: "find_fit fuel (hmem st) ?ts 0 0 (free_segments_head st) = Ok (snd (win 0 0 xs), a, 0, False)"
    using find_fit_miss [OF l small ts(3), of fuel 0 0] fuel by simp
  have nts: "unat n < unat ?ts" using small by (auto simp: word_less_nat_alt)
  define k where "k = (unat ?ts - unat n + 4095) div 4096"
  note k = page_count [OF nts, folded k_def]
  obtain b' len' nxt' p' j where g: "grow_segment commit fuel ?ts n ?n (provider st) = Ok (b', len', nxt', p')"
    "j \<le> k" "b' \<longleftrightarrow> j = k" "unat len' = unat n + 4096 * j" "unat nxt' = unat ?n + 4096 * j"
    "backed_below ok backed p' (unat nxt')"
  proof -
    have "\<exists>b len' nxt' p' j. grow_segment commit fuel ?ts n ?n (provider st) = Ok (b, len', nxt', p')
     \<and> j \<le> k \<and> (b \<longleftrightarrow> j = k) \<and> unat len' = unat n + 4096 * j \<and> unat nxt' = unat ?n + 4096 * j
     \<and> backed_below ok backed p' (unat nxt')"
      using b al fsorted_le [OF s] k sp fuel nts adj by (intro grow) simp_all
    then show ?thesis by (elim exE conjE) (rule that)
  qed
  define st1 where "st1 = st\<lparr>next_page_virt_addr := nxt', provider := p'\<rparr>"
  define st2 where "st2 = st1\<lparr>hmem := set_len (hmem st) a len'\<rparr>"
  have eq: "memory_allocate commit fuel sz st = (if \<not> b' then Ok (0, st1)
      else Ok (take_segment sz ?ts (snd (win 0 0 xs)) a (unat ?ts + 8 \<le> unat len') st2))"
    using a0 ts(3) by (simp add: memory_allocate_def align_block h ff len g(1) st1_def st2_def Let_def
        word_le_nat_alt unat_plus_8)
  have al': "unat nxt' mod 4096 = 0" using al g(5) by (simp add: mod_simps)
  show ?thesis
  proof (cases b')
    case False
    have "heap_ok st1 (xs @ [(a, n)])"
      using l al' fsorted_mono [OF s, of "0xC0800000" "unat nxt'"] g(5) by (simp add: heap_ok_def st1_def)
    with False g(5,6) show ?thesis
      by (intro exI [of _ 0] exI [of _ st1] exI [of _ "xs @ [(a, n)]"]) (simp add: eq st1_def)
  next
    case True
    have gk: "unat len' = unat n + 4096 * k" "unat nxt' = unat a + unat len'"
      using True g adj by simp_all
    obtain mid where mid: "fsorted 0xC0800000 xs mid" "mid \<le> unat a" "8 \<le> unat n"
      using s by (auto simp: fsorted_append)
    have "lseg (set_len (hmem st) a len') (free_segments_head st) xs a
        \<longleftrightarrow> lseg (hmem st) (free_segments_head st) xs a"
      by (rule lseg_cong) (use mid fsorted_mem [OF mid(1)] in \<open>force simp: seg_other\<close>)
    then have l2: "lseg (hmem st2) (free_segments_head st2) (xs @ [(a, len')]) 0"
      using l by (auto simp: lseg_append st1_def st2_def)
    have s2: "fsorted 0xC0800000 (xs @ [(a, len')]) (unat nxt')"
      using mid gk by (auto simp: fsorted_append)
    obtain st' where t: "take_segment sz ?ts (snd (win 0 0 xs)) a (unat ?ts + 8 \<le> unat len') st2 = (a + 4, st')"
      and ys: "let ys = (if unat ?ts + 8 \<le> unat len' then xs @ [(a + ?ts, len' - ?ts)] else xs @ []) in
        lseg (hmem st') (free_segments_head st') ys 0 \<and> fsorted 0xC0800000 ys (unat nxt')"
      and hd: "ld32 (hmem st') (unat a) = sz + 4"
      and fr: "\<forall>x. x \<notin> free_bytes (xs @ [(a, len')]) \<longrightarrow> hmem st' x = hmem st2 x"
      and same: "next_page_virt_addr st' = nxt'" "provider st' = p'"
      using take_segment_spec [OF l2 s2 _ unat_lt_pow2 ts(2), of sz] by (auto simp: st1_def st2_def)
    define ys where "ys = (if unat ?ts + 8 \<le> unat len' then xs @ [(a + ?ts, len' - ?ts)] else xs)"
    have hok: "heap_ok st' ys" using ys al' same by (simp add: heap_ok_def ys_def Let_def split: if_splits)
    have tl: "unat ?ts \<le> unat len'" using k(1) gk by simp
    have r: "unat (a + ?ts) = unat a + unat ?ts" "unat (len' - ?ts) = unat len' - unat ?ts"
      using tl gk unat_lt_pow2 [of nxt'] by (simp_all add: unat_add_no_wrap unat_sub word_le_nat_alt)
    have below: "x < unat a" if "x \<in> free_bytes xs" for x
      using free_bytes_bounds [OF mid(1) that] mid(2) by linarith
    have "hmem st' x = hmem st x" if "x \<notin> free_bytes (xs @ [(a, n)])" "x < unat ?n" for x
    proof -
      have "x < unat a" using that adj by auto
      then show ?thesis using fr that(1) by (simp add: st1_def st2_def set_outside)
    qed
    moreover have "free_bytes ys \<subseteq> free_bytes (xs @ [(a, n)]) \<union> {unat ?n ..< unat nxt'}"
      using r tl gk adj by (auto simp: ys_def)
    moreover have "{unat a ..< unat a + unat ?ts} \<inter> free_bytes ys = {}"
      using r below by (force simp: ys_def)
    ultimately show ?thesis
      using True t hd hok same g(6) gk(2) g(5) tl
      by (intro exI [of _ "a + 4"] exI [of _ st'] exI [of _ ys]) (simp add: eq)
  qed
qed

end

definition pfa_ok :: "link_map \<Rightarrow> pfa_state \<Rightarrow> bool" where
  "pfa_ok L p \<longleftrightarrow> link_ok L \<and> pfa_reachable L p"

definition pfa_backed :: "link_map \<Rightarrow> pfa_state \<Rightarrow> nat \<Rightarrow> bool" where
  "pfa_backed L p x \<longleftrightarrow> mmu_walk L p (of_nat x) \<noteq> None"

interpretation pfa: page_provider "pfa_commit_page L" "pfa_ok L" "pfa_backed L" for L
proof
  fix p and v :: u32
  assume p: "pfa_ok L p" and v: "unat v mod 4096 = 0" "3229614080 \<le> unat v"
  then have a: "v AND 0xfff = 0" "0xC0800000 \<le> v" by (simp_all add: aligned_iff word_le_nat_alt)
  show "\<exists>b p'. pfa_commit_page L v p = Ok (b, p')"
  proof (cases "pfa_page_bitmap p" rule: least_free_cases)
    case (free k)
    with p a show ?thesis using commit_ok [OF _ a free] by (auto simp: pfa_ok_def)
  next
    case full
    then show ?thesis using commit_full [OF a(1) full] by blast
  qed
next
  fix p v b p'
  assume "pfa_ok L p" "pfa_commit_page L v p = Ok (b, p')"
  then show "pfa_ok L p'" by (auto simp: pfa_ok_def intro: reach_commit)
next
  fix p v p' and x :: nat
  assume p: "pfa_ok L p" and c: "pfa_commit_page L v p = Ok (True, p')" and x: "3229614080 \<le> x" "x < 4294967296"
  have L: "link_ok L" and inv: "pfa_inv L p" using p pfa_reachable_inv by (auto simp: pfa_ok_def)
  have ux: "unat (of_nat x :: u32) = x" using x by (simp add: unat_of_nat)
  then have bx: "0xC0800000 \<le> (of_nat x :: u32)" using x by (simp add: word_le_nat_alt)
  from L c show "pfa_backed L p' x \<longleftrightarrow> pfa_backed L p x \<or> (unat v \<le> x \<and> x < unat v + 4096)"
  proof (cases rule: commit_cases)
    case (mapped k)
    have "unat v mod 4096 = 0" using mapped(2) by (simp add: aligned_iff)
    then have "unat v = 4096 * (unat v div 4096)" using mult_div_mod_eq [of 4096 "unat v"] by linarith
    then have "unat v div 4096 = x div 4096 \<longleftrightarrow> unat v \<le> x \<and> x < unat v + 4096" by auto
    with same_slot_iff [OF mapped(3) bx] same_page_iff [OF mapped(3) bx] ux
    have "(of_nat x AND NOT 0xfff = v AND NOT 0xfff) \<longleftrightarrow> unat v \<le> x \<and> x < unat v + 4096" by metis
    then show ?thesis
      using walk_committed [OF L inv mapped(3) bx mapped(4)] by (auto simp: pfa_backed_def mapped(5))
  qed simp
next
  fix p v p'
  assume p: "pfa_ok L p" and c: "pfa_commit_page L v p = Ok (False, p')"
  then have "link_ok L" by (simp add: pfa_ok_def)
  from this c show "p' = p" by (cases rule: commit_cases) auto
qed

section \<open>Allocation is sound\<close>

text \<open>
  What a call of \<open>memory_allocate\<close> that returns guarantees to the blocks handed out before: the bytes
  that were neither free nor beyond the heap keep their values, the block comes out of the free bytes or
  out of new pages, and no byte of it stays on the free list.
\<close>

definition alloc_post ::
  "u32 \<Rightarrow> (u32 \<times> u32) list \<Rightarrow> 'p heap_state \<Rightarrow> u32 \<Rightarrow> 'p heap_state \<Rightarrow> (u32 \<times> u32) list \<Rightarrow> bool" where
  "alloc_post sz xs st r st' ys \<longleftrightarrow>
     heap_ok st' ys \<and> unat (next_page_virt_addr st) \<le> unat (next_page_virt_addr st')
   \<and> (\<forall>x. x \<notin> free_bytes xs \<and> x < unat (next_page_virt_addr st) \<longrightarrow> hmem st' x = hmem st x)
   \<and> free_bytes ys \<subseteq> free_bytes xs \<union> {unat (next_page_virt_addr st) ..< unat (next_page_virt_addr st')}
   \<and> (r = 0 \<or> (\<exists>a. r = a + 4 \<and> ld32 (hmem st') (unat a) = sz + 4
        \<and> {unat a ..< unat a + unat (block_size sz)} \<inter> free_bytes ys = {}
        \<and> {unat a ..< unat a + unat (block_size sz)} \<subseteq>
             free_bytes xs \<union> {unat (next_page_virt_addr st) ..< unat (next_page_virt_addr st')}))"

definition tail_adjacent :: "'p heap_state \<Rightarrow> (u32 \<times> u32) list \<Rightarrow> bool" where
  "tail_adjacent st xs \<longleftrightarrow>
     xs \<noteq> [] \<longrightarrow> unat (fst (last xs)) + unat (snd (last xs)) = unat (next_page_virt_addr st)"

lemma alloc_post_hit:
  assumes "heap_ok st xs" and "size_ok sz" and "first_fit (block_size sz) xs = Some (a, ys)"
    and "length xs < fuel"
  shows "\<exists>st'. memory_allocate commit fuel sz st = Ok (a + 4, st') \<and> alloc_post sz xs st (a + 4) st' ys
     \<and> next_page_virt_addr st' = next_page_virt_addr st \<and> provider st' = provider st"
proof -
  have "fsorted 0xC0800000 xs (unat (next_page_virt_addr st))" using assms(1) by (simp add: heap_ok_def)
  note fb = first_fit_bytes [OF this unat_lt_pow2 assms(3)]
  obtain st' where "memory_allocate commit fuel sz st = Ok (a + 4, st')" "heap_ok st' ys"
    "ld32 (hmem st') (unat a) = sz + 4" "\<forall>x. x \<notin> free_bytes xs \<longrightarrow> hmem st' x = hmem st x"
    "next_page_virt_addr st' = next_page_virt_addr st" "provider st' = provider st"
    by (rule allocate_hit [OF assms])
  with fb show ?thesis by (intro exI [of _ st']) (auto simp: alloc_post_def)
qed

lemma alloc_post_new_page:
  assumes "alloc_post sz [(next_page_virt_addr st, 4096)] st1 r st' ys"
    and "unat (next_page_virt_addr st1) = unat (next_page_virt_addr st) + 4096"
    and "\<forall>x. x < unat (next_page_virt_addr st) \<longrightarrow> hmem st1 x = hmem st x"
  shows "alloc_post sz [] st r st' ys"
proof -
  have le: "unat (next_page_virt_addr st) + 4096 \<le> unat (next_page_virt_addr st')"
    using assms(1,2) by (simp add: alloc_post_def)
  then have e: "free_bytes [(next_page_virt_addr st, 4096)]
      \<union> {unat (next_page_virt_addr st1) ..< unat (next_page_virt_addr st')}
      = free_bytes [] \<union> {unat (next_page_virt_addr st) ..< unat (next_page_virt_addr st')}"
    using assms(2) by auto
  have "\<forall>x. x \<notin> free_bytes [] \<and> x < unat (next_page_virt_addr st) \<longrightarrow> hmem st' x = hmem st x"
    using assms by (auto simp: alloc_post_def)
  with assms(1) le show ?thesis
    unfolding alloc_post_def e by simp
qed

context page_provider
begin

lemma alloc_post_nonempty:
  assumes ok: "heap_ok st xs" and ne: "xs \<noteq> []" and sz: "size_ok sz" and adj: "tail_adjacent st xs"
    and b: "backed_below ok backed (provider st) (unat (next_page_virt_addr st))"
    and sp: "unat (next_page_virt_addr st) + unat (block_size sz) + 4096 < 4294967296"
    and fuel: "length xs + unat (block_size sz) div 4096 + 2 < fuel"
  shows "\<exists>r st' ys. memory_allocate commit fuel sz st = Ok (r, st') \<and> alloc_post sz xs st r st' ys
    \<and> backed_below ok backed (provider st') (unat (next_page_virt_addr st'))"
proof (cases "first_fit (block_size sz) xs")
  case (Some q)
  obtain a ys where q: "q = (a, ys)" by (cases q)
  from alloc_post_hit [OF ok sz Some [unfolded q], of fuel] fuel b show ?thesis by fastforce
next
  case None
  obtain zs a n where x: "xs = zs @ [(a, n)]" using ne by (metis prod.exhaust rev_exhaust)
  have adj': "unat a + unat n = unat (next_page_virt_addr st)" using adj by (simp add: tail_adjacent_def x)
  have "length zs + unat (block_size sz) div 4096 + 2 < fuel" using fuel x by simp
  from allocate_grows [OF ok [unfolded x] sz None [unfolded x] adj' b sp this, folded x]
  obtain r st' ys where g: "memory_allocate commit fuel sz st = Ok (r, st')" "heap_ok st' ys"
    "unat (next_page_virt_addr st) \<le> unat (next_page_virt_addr st')"
    "backed_below ok backed (provider st') (unat (next_page_virt_addr st'))"
    "\<forall>y. y \<notin> free_bytes xs \<and> y < unat (next_page_virt_addr st) \<longrightarrow> hmem st' y = hmem st y"
    "free_bytes ys \<subseteq> free_bytes xs \<union> {unat (next_page_virt_addr st) ..< unat (next_page_virt_addr st')}"
    "r = 0 \<or> (r = a + 4 \<and> ld32 (hmem st') (unat a) = sz + 4
      \<and> unat a + unat (block_size sz) \<le> unat (next_page_virt_addr st')
      \<and> {unat a ..< unat a + unat (block_size sz)} \<inter> free_bytes ys = {})"
    by (elim exE conjE) (rule that)
  have "{unat a ..< unat a + unat (block_size sz)} \<subseteq>
      free_bytes xs \<union> {unat (next_page_virt_addr st) ..< unat (next_page_virt_addr st')}"
    if "unat a + unat (block_size sz) \<le> unat (next_page_virt_addr st')"
    using that adj' by (auto simp: x)
  with g show ?thesis
    by (intro exI [of _ r] exI [of _ st'] exI [of _ ys]) (auto simp: alloc_post_def)
qed

lemma alloc_post_empty:
  assumes ok: "heap_ok st []" and sz: "size_ok sz"
    and b: "backed_below ok backed (provider st) (unat (next_page_virt_addr st))"
    and sp: "unat (next_page_virt_addr st) + unat (block_size sz) + 8192 < 4294967296"
    and fuel: "unat (block_size sz) div 4096 + 3 < fuel"
  shows "\<exists>r st' ys. memory_allocate commit fuel sz st = Ok (r, st') \<and> alloc_post sz [] st r st' ys
    \<and> backed_below ok backed (provider st') (unat (next_page_virt_addr st'))"
proof -
  let ?n = "next_page_virt_addr st"
  have h: "free_segments_head st = 0" "unat ?n mod 4096 = 0" "3229614080 \<le> unat ?n"
    and okp: "ok (provider st)"
    using ok b by (simp_all add: heap_ok_def backed_below_def)
  obtain c p where c: "commit ?n (provider st) = Ok (c, p)" using commit_returns [OF okp h(2,3)] by blast
  show ?thesis
  proof (cases c)
    case False
    then have "p = provider st" using commit_refuses [OF okp] c by simp
    with c False have "memory_allocate commit fuel sz st = Ok (0, st)"
      by (simp add: memory_allocate_def align_block ensure_head_def h(1) Let_def)
    with ok b show ?thesis
      by (intro exI [of _ 0] exI [of _ st] exI [of _ "[]"]) (simp add: alloc_post_def)
  next
    case True
    obtain st1 where st1: "memory_allocate commit fuel sz st = memory_allocate commit fuel sz st1"
      "heap_ok st1 [(?n, 4096)]" "provider st1 = p"
      "unat (next_page_virt_addr st1) = unat ?n + 4096"
      "\<forall>x. x < unat ?n \<longrightarrow> hmem st1 x = hmem st x"
      "backed_below ok backed (provider st1) (unat (next_page_virt_addr st1))"
      by (rule allocate_empty [OF ok b _ c [simplified True], of fuel sz]) (use sp in simp)
    have "\<exists>r st' ys. memory_allocate commit fuel sz st1 = Ok (r, st')
        \<and> alloc_post sz [(?n, 4096)] st1 r st' ys
        \<and> backed_below ok backed (provider st') (unat (next_page_virt_addr st'))"
      by (rule alloc_post_nonempty [OF st1(2) _ sz _ st1(6)])
         (use st1(4) sp fuel in \<open>simp_all add: tail_adjacent_def\<close>)
    then show ?thesis using st1(1) alloc_post_new_page [OF _ st1(4,5)] by metis
  qed
qed

lemma alloc_sound:
  assumes "heap_ok st xs" and "size_ok sz" and "tail_adjacent st xs"
    and "backed_below ok backed (provider st) (unat (next_page_virt_addr st))"
    and "unat (next_page_virt_addr st) + unat (block_size sz) + 8192 < 4294967296"
    and "length xs + unat (block_size sz) div 4096 + 3 < fuel"
  shows "\<exists>r st' ys. memory_allocate commit fuel sz st = Ok (r, st') \<and> alloc_post sz xs st r st' ys
    \<and> backed_below ok backed (provider st') (unat (next_page_virt_addr st'))"
proof (cases "xs = []")
  case True
  with assms show ?thesis using alloc_post_empty [of st sz fuel] by simp
next
  case False
  show ?thesis by (rule alloc_post_nonempty [OF assms(1) False assms(2,3,4)]) (use assms(5,6) in simp_all)
qed

end


definition fresh_heap :: "memory \<Rightarrow> pfa_state heap_state" where
  "fresh_heap m = snd (memory_init
     \<lparr>hmem = m, free_segments_head = 0, next_page_virt_addr = 0, provider = example_pfa\<rparr>)"

lemma fresh_heap_ok:
  "heap_ok (fresh_heap m) []" "tail_adjacent (fresh_heap m) []"
  "next_page_virt_addr (fresh_heap m) = 0xC0800000" "free_segments_head (fresh_heap m) = 0"
  "provider (fresh_heap m) = example_pfa"
  "backed_below (pfa_ok example_link) (pfa_backed example_link) (provider (fresh_heap m))
     (unat (next_page_virt_addr (fresh_heap m)))"
  by (auto simp: fresh_heap_def memory_init_def heap_ok_def tail_adjacent_def kernel_start_def
      MAX_KERNEL_SIZE_def backed_below_def pfa_ok_def)

lemma block_size_100: "unat (block_size 100) = 104"
  using unat_block_size(1) [of 100] by (simp add: size_ok_def)


text \<open>
  (C13) Allocation is first fit. On a well-formed free list the block is taken from the first segment
  that is large enough, and the list becomes the one \<open>first_fit\<close> computes: the segment split when at least
  8 bytes remain, and removed otherwise.
\<close>

theorem memory_allocate_first_fit:
  assumes "heap_ok st xs" and "size_ok sz" and "first_fit (block_size sz) xs = Some (a, ys)"
    and "length xs < fuel"
  shows "\<exists>st'. memory_allocate (pfa_commit_page L) fuel sz st = Ok (a + 4, st') \<and> heap_ok st' ys
    \<and> ld32 (hmem st') (unat a) = sz + 4
    \<and> next_page_virt_addr st' = next_page_virt_addr st \<and> provider st' = provider st"
  by (rule allocate_hit [OF assms, of "pfa_commit_page L"]) auto

definition two_segments :: "pfa_state heap_state" where
  "two_segments = \<lparr>hmem = set_next (set_len (set_next (set_len (\<lambda>x. 0) 0xC0800000 16) 0xC0800000 0xC0800100)
       0xC0800100 3840) 0xC0800100 0,
     free_segments_head = 0xC0800000, next_page_virt_addr = 0xC0801000, provider = example_pfa\<rparr>"

lemma two_segments_ok: "heap_ok two_segments [(0xC0800000, 16), (0xC0800100, 3840)]"
  by (simp add: heap_ok_def two_segments_def seg_other)

theorem memory_allocate_first_fit_witness:
  "\<exists>st'. memory_allocate (pfa_commit_page example_link) 3 100 two_segments = Ok (0xC0800100 + 4, st')
    \<and> heap_ok st' [(0xC0800000, 16), (0xC0800100 + block_size 100, 3840 - block_size 100)]
    \<and> ld32 (hmem st') (unat (0xC0800100 :: u32)) = 100 + 4
    \<and> next_page_virt_addr st' = next_page_virt_addr two_segments \<and> provider st' = provider two_segments"
  by (rule memory_allocate_first_fit [OF two_segments_ok])
     (simp_all add: size_ok_def block_size_100 word_le_nat_alt)

section \<open>Freeing\<close>

fun win3 :: "u32 \<Rightarrow> u32 \<Rightarrow> u32 \<Rightarrow> (u32 \<times> u32) list \<Rightarrow> u32 \<times> u32 \<times> u32" where
  "win3 pp p n [] = (pp, p, n)"
| "win3 pp p n (x # xs) = win3 p n (fst x) xs"

lemma snd_win3: "snd (win3 pp p n xs) = win p n xs"
  by (induction pp p n xs rule: win3.induct) auto

lemma free_walk_stops:
  assumes "lseg m nn (B @ (a, k) # A) q" and "\<forall>(b, l) \<in> set B. b < s" and "s < a" and "n < s"
    and "length B < fuel"
  shows "free_walk fuel m s pp p n nn =
    Ok (fst (win3 pp p n B), fst (win p n B), snd (win p n B), a)"
  using assms
proof (induction B arbitrary: fuel pp p n nn)
  case Nil
  then show ?case by (cases fuel) auto
next
  case (Cons x B)
  obtain b l where x: "x = (b, l)" by (cases x)
  obtain f where f: "fuel = Suc f" using Cons.prems(5) by (cases fuel) auto
  have h: "nn = b" "b \<noteq> 0" "lseg m (seg_next m b) (B @ (a, k) # A) q" "b < s"
    using Cons.prems(1,2) by (auto simp: x)
  have "free_walk f m s p n b (seg_next m b) = Ok (fst (win3 p n b B), fst (win n b B), snd (win n b B), a)"
    by (rule Cons.IH [OF h(3) _ Cons.prems(3) h(4)]) (use Cons.prems f in auto)
  then show ?case using h Cons.prems(4) by (auto simp: f x)
qed

lemma free_walk_ends:
  assumes "lseg m nn B 0" and "\<forall>(b, l) \<in> set B. b < s" and "n < s" and "length B < fuel"
  shows "free_walk fuel m s pp p n nn =
    Ok (fst (win3 pp p n B), fst (win p n B), snd (win p n B), 0)"
  using assms
proof (induction B arbitrary: fuel pp p n nn)
  case Nil
  then show ?case by (cases fuel) auto
next
  case (Cons x B)
  obtain b l where x: "x = (b, l)" by (cases x)
  obtain f where f: "fuel = Suc f" using Cons.prems(4) by (cases fuel) auto
  have h: "nn = b" "b \<noteq> 0" "lseg m (seg_next m b) B 0" "b < s"
    using Cons.prems(1,2) by (auto simp: x)
  have "free_walk f m s p n b (seg_next m b) = Ok (fst (win3 p n b B), fst (win n b B), snd (win n b B), 0)"
    by (rule Cons.IH [OF h(3) _ h(4)]) (use Cons.prems f in auto)
  then show ?case using h Cons.prems(3) by (auto simp: f x)
qed

lemma free_walk_short:
  assumes "lseg m nn B q" and "\<forall>(b, l) \<in> set B. b < s" and "n < s" and "fuel \<le> length B"
  shows "free_walk fuel m s pp p n nn = Diverged"
  using assms
proof (induction B arbitrary: fuel pp p n nn)
  case (Cons x B)
  obtain b l where x: "x = (b, l)" by (cases x)
  show ?case
  proof (cases fuel)
    case (Suc f)
    have h: "nn = b" "b \<noteq> 0" "lseg m (seg_next m b) B q" "b < s"
      using Cons.prems(1,2) by (auto simp: x)
    have "free_walk f m s p n b (seg_next m b) = Diverged"
      by (rule Cons.IH [OF h(3) _ h(4)]) (use Cons.prems Suc in auto)
    then show ?thesis using h Cons.prems(3) by (auto simp: Suc x)
  qed simp
qed simp

lemma free_advance_diverges: "0 < s \<Longrightarrow> free_advance fuel m s pp p 0 0 = Diverged"
  by (induction fuel arbitrary: pp p) auto

lemma win_snd_less:
  assumes "\<forall>(b, l) \<in> set B. b < s" and "n < (s :: u32)"
  shows "snd (win p n B) < s"
  using assms by (induction p n B rule: win.induct) auto

text \<open>The two final stores, whichever segment is linked.\<close>

lemma relink_null:
  assumes "lseg m h B q" and "fsorted lo B mid" and "8 \<le> lo"
  shows "lseg (set_next m (snd (win 0 0 B)) r) (if B = [] then r else h) B r"
    and "x \<notin> free_bytes B \<Longrightarrow> 4 \<le> x \<Longrightarrow> set_next m (snd (win 0 0 B)) r x = m x"
proof -
  have "lseg (set_next m (snd (win 0 0 B)) r) (if B = [] then r else h) B r
    \<and> (x \<notin> free_bytes B \<and> 4 \<le> x \<longrightarrow> set_next m (snd (win 0 0 B)) r x = m x)"
  proof (cases B rule: rev_cases)
    case Nil
    then show ?thesis by (simp add: set_next_def cell32.st_frame)
  next
    case (snoc B0 y)
    obtain b k where y: "y = (b, k)" by (cases y)
    have mem: "lo \<le> unat b" "8 \<le> unat k" using fsorted_mem [OF assms(2), of b k] by (simp_all add: snoc y)
    have "set_next m b r x = m x" if "x \<notin> free_bytes B"
    proof (rule set_outside)
      have "x \<notin> {unat b ..< unat b + unat k}" using that by (auto simp: snoc y)
      then show "x < unat b \<or> unat b + 8 \<le> x" using mem by auto
    qed
    moreover have "lseg (set_next m b r) h B r"
      using lseg_set_last_next assms(1,2) by (simp add: snoc y)
    ultimately show ?thesis by (simp add: snoc y)
  qed
  then show "lseg (set_next m (snd (win 0 0 B)) r) (if B = [] then r else h) B r"
    and "x \<notin> free_bytes B \<Longrightarrow> 4 \<le> x \<Longrightarrow> set_next m (snd (win 0 0 B)) r x = m x" by simp_all
qed

lemma link_stores:
  assumes B: "lseg m h B q" and R: "lseg m n R 0" and s: "fsorted lo (B @ (t, l) # R) hi" and lo: "8 \<le> lo"
    and len: "seg_len m t = l"
  defines "m' \<equiv> set_next (set_next m (snd (win 0 0 B)) t) t n"
  shows "lseg m' (if B = [] then t else h) (B @ (t, l) # R) 0"
    and "\<And>x. x \<notin> free_bytes B \<Longrightarrow> x < unat t \<or> unat t + 8 \<le> x \<Longrightarrow> 4 \<le> x \<Longrightarrow> m' x = m x"
proof -
  obtain mid where s': "fsorted lo B mid" "mid \<le> unat t" "8 \<le> unat l" "fsorted (unat t + unat l) R hi"
    using s by (auto simp: fsorted_append)
  have t: "8 \<le> unat t" using fsorted_le [OF s'(1)] s'(2) lo by linarith
  define m1 where "m1 = set_next m (snd (win 0 0 B)) t"
  note r = relink_null [OF B s'(1) lo, where r = t, folded m1_def]
  have Bm: "lo \<le> x \<and> x < unat t" if "x \<in> free_bytes B" for x
    using free_bytes_bounds [OF s'(1) that] s'(2) by linarith
  have Rm: "unat t + unat l \<le> x" if "x \<in> free_bytes R" for x
    using free_bytes_bounds [OF s'(4) that] by linarith
  have out: "m' x = m1 x" if "x < unat t \<or> unat t + 8 \<le> x" for x
    using that by (simp add: m'_def m1_def set_outside)
  have high: "m1 x = m x" if "unat t \<le> x" for x
    using r(2) [of x] Bm [of x] that t by fastforce
  have "lseg m' (if B = [] then t else h) B t"
    using lseg_unaffected [OF s'(1), of m' m1] r(1) out Bm by fastforce
  moreover have "lseg m' n R 0"
    using lseg_unaffected [OF s'(4), of m' m] R out high Rm s'(3) by fastforce
  moreover have "seg_len m' t = l"
  proof -
    have "seg_len m1 t = l" unfolding len [symmetric] seg_len_def by (rule cell32.ld_cong) (simp add: high)
    then show ?thesis by (simp add: m'_def m1_def)
  qed
  moreover have "seg_next m' t = n" by (simp add: m'_def)
  moreover have "t \<noteq> 0" using t by auto
  ultimately show "lseg m' (if B = [] then t else h) (B @ (t, l) # R) 0" by (auto simp: lseg_append)
  show "m' x = m x" if "x \<notin> free_bytes B" "x < unat t \<or> unat t + 8 \<le> x" "4 \<le> x" for x
    using out [of x] r(2) [of x] that by auto
qed

text \<open>The neighbour above, merged or not.\<close>

definition merge_next :: "u32 \<Rightarrow> u32 \<Rightarrow> (u32 \<times> u32) list \<Rightarrow> u32 \<times> (u32 \<times> u32) list" where
  "merge_next s l ys = (case ys of (a, k) # A \<Rightarrow> if s + l = a then (l + k, A) else (l, ys) | [] \<Rightarrow> (l, []))"

lemma word_end_eq:
  assumes "unat a + unat n < 4294967296"
  shows "a + n = (b :: u32) \<longleftrightarrow> unat a + unat n = unat b"
  using assms by (metis unat_add_no_wrap word_unat_eq_iff)

lemma merge_next_sorted:
  assumes "fsorted lo (B @ (s, l) # ys) hi" and "hi < 4294967296" and "merge_next s l ys = (l2, R)"
  shows "fsorted lo (B @ (s, l2) # R) hi"
proof (cases ys)
  case Nil
  with assms show ?thesis by (simp add: merge_next_def)
next
  case (Cons y A)
  obtain a k where y: "y = (a, k)" by (cases y)
  obtain mid where m: "fsorted lo B mid" "mid \<le> unat s" "8 \<le> unat l" "unat s + unat l \<le> unat a"
    "8 \<le> unat k" "fsorted (unat a + unat k) A hi"
    using assms(1) by (auto simp: fsorted_append Cons y)
  have hi: "unat a + unat k < 4294967296" using fsorted_le [OF m(6)] assms(2) by linarith
  have e: "s + l = a \<longleftrightarrow> unat s + unat l = unat a" using m(4) hi by (intro word_end_eq) linarith
  show ?thesis
  proof (cases "s + l = a")
    case True
    then have "unat (l + k) = unat l + unat k" using e hi by (intro unat_add_no_wrap) linarith
    then have "unat s + unat (l + k) = unat a + unat k" using True e by simp
    with True assms(3) m show ?thesis
      by (auto simp: merge_next_def Cons y fsorted_append intro!: exI [of _ mid])
  next
    case False
    with assms(1,3) show ?thesis by (auto simp: merge_next_def Cons y)
  qed
qed

lemma insert_free_first:
  "fsorted lo ((s, l) # (a, k) # A) hi \<Longrightarrow> insert_free s l ((a, k) # A)
     = (s, fst (merge_next s l ((a, k) # A))) # snd (merge_next s l ((a, k) # A))"
proof -
  assume "fsorted lo ((s, l) # (a, k) # A) hi"
  then have "s < a" by (simp add: word_less_nat_alt)
  then show ?thesis by (simp add: merge_next_def)
qed

lemma insert_free_eq:
  assumes "fsorted lo (B @ (s, l) # (a, k) # A) hi" and "hi < 4294967296"
    and "merge_next s l ((a, k) # A) = (l2, R)"
  shows "insert_free s l (B @ (a, k) # A) =
    (if B \<noteq> [] \<and> fst (last B) + snd (last B) = s
     then butlast B @ (fst (last B), snd (last B) + l2) # R else B @ (s, l2) # R)"
  using assms
proof (induction B arbitrary: lo)
  case Nil
  then have "insert_free s l ((a, k) # A) = (s, l2) # R"
    using insert_free_first [of lo s l a k A hi] by (simp del: insert_free.simps)
  then show ?case by (simp del: insert_free.simps)
next
  case (Cons x B)
  obtain b n where x: "x = (b, n)" by (cases x)
  have srt: "fsorted (unat b + unat n) (B @ (s, l) # (a, k) # A) hi" and "8 \<le> unat n"
    using Cons.prems(1) by (simp_all add: x)
  have se: "unat b + unat n \<le> unat s" using fsorted_mem [OF srt, of s l] by simp
  have hi: "unat b + unat n < 4294967296" using fsorted_le [OF srt] assms(2) by linarith
  have nb: "\<not> s < b" using se by (simp add: word_less_nat_alt)
  note IH = Cons.IH [OF srt assms(2,3)]
  show ?case
  proof (cases "b + n = s")
    case True
    then have "unat b + unat n = unat s" using word_end_eq [OF hi] by simp
    then have "B = []"
    proof (cases B)
      case (Cons y B')
      obtain c j where y: "y = (c, j)" by (cases y)
      have "fsorted (unat c + unat j) (B' @ (s, l) # (a, k) # A) hi" "unat b + unat n \<le> unat c" "8 \<le> unat j"
        using srt by (simp_all add: Cons y)
      then show ?thesis using fsorted_mem [of "unat c + unat j" "B' @ (s, l) # (a, k) # A" hi s l]
          \<open>unat b + unat n = unat s\<close> by simp
    qed simp
    with True nb IH show ?thesis by (simp add: x)
  next
    case False
    with nb IH show ?thesis by (cases "B = []") (auto simp: x)
  qed
qed

lemma free_reaches_link:
  assumes ok: "heap_ok st (B @ (a, k) # A)" and s: "fsorted 3229614080 (B @ (s, l) # (a, k) # A) hi"
    and fuel: "length B + 1 < fuel"
  shows "memory_free fuel (s + 4) st =
    link_segment s (fst (win 0 0 B)) (snd (win 0 0 B)) a (seg_next (hmem st) a) st"
proof -
  obtain mid where m: "fsorted 3229614080 B mid" "mid \<le> unat s" "8 \<le> unat l" "unat s + unat l \<le> unat a"
    using s by (auto simp: fsorted_append)
  have lo: "3229614080 \<le> unat s" using fsorted_le [OF m(1)] m(2) by linarith
  have below: "\<forall>(b, n) \<in> set B. b < s"
    using fsorted_mem [OF m(1)] m(2) by (fastforce simp: word_less_nat_alt)
  have sa: "s < a" using m(3,4) by (simp add: word_less_nat_alt)
  have s0: "0 < s" using lo by (simp add: word_less_nat_alt)
  have l: "lseg (hmem st) (free_segments_head st) (B @ (a, k) # A) 0" using ok by (simp add: heap_ok_def)
  have h: "free_segments_head st \<noteq> 0" using l by (cases B) (auto simp: lseg_append)
  have a0: "a \<noteq> 0" using l by (auto simp: lseg_append)
  have ps: "snd (win 0 0 B) < s" by (rule win_snd_less [OF below s0])
  have w: "free_walk fuel (hmem st) s 0 0 0 (free_segments_head st)
      = Ok (fst (win3 0 0 0 B), fst (win 0 0 B), snd (win 0 0 B), a)"
    by (rule free_walk_stops [OF l below sa s0]) (use fuel in simp)
  have adv: "free_advance fuel (hmem st) s (fst (win3 0 0 0 B)) (fst (win 0 0 B)) (snd (win 0 0 B)) a
      = Ok (fst (win 0 0 B), snd (win 0 0 B), a, seg_next (hmem st) a)"
  proof -
    have "fuel = Suc (Suc (fuel - 2))" using fuel by simp
    then obtain f where "fuel = Suc (Suc f)" by blast
    moreover have "\<not> a < s" using sa by simp
    ultimately show ?thesis using ps a0 by simp
  qed
  show ?thesis using h w adv ps sa by (simp add: memory_free_def Let_def)
qed

lemma merge_store:
  assumes l: "lseg m h (B @ (a, k) # A) 0" and s: "fsorted lo (B @ (s, l) # (a, k) # A) hi"
    and hi: "hi < 4294967296" and mn: "merge_next s l ((a, k) # A) = (l2, R)"
  defines "m1 \<equiv> set_len m s l"
  shows "\<exists>m2 n. (if s + seg_len m1 s = a
       then obind (ASSERT (a \<noteq> 0) e) (\<lambda>_. Ok (set_len m1 s (seg_len m1 s + seg_len m1 a), seg_next m a))
       else Ok (m1, a)) = Ok (m2, n)
    \<and> seg_len m2 s = l2 \<and> lseg m2 h B a \<and> lseg m2 n R 0
    \<and> (\<forall>x. x < unat s + 4 \<or> unat s + 8 \<le> x \<longrightarrow> m2 x = m x)"
proof -
  obtain mid where m: "fsorted lo B mid" "mid \<le> unat s" "8 \<le> unat l" "unat s + unat l \<le> unat a"
    "8 \<le> unat k" "fsorted (unat a + unat k) A hi"
    using s by (auto simp: fsorted_append)
  have lB: "lseg m h B a" and la: "a \<noteq> 0" "seg_len m a = k" "lseg m (seg_next m a) A 0"
    using l by (auto simp: lseg_append)
  have Bm: "x < unat s" if "x \<in> free_bytes B" for x
    using free_bytes_bounds [OF m(1) that] m(2) by linarith
  have Am: "unat a + unat k \<le> x" if "x \<in> free_bytes A" for x
    using free_bytes_bounds [OF m(6) that] by linarith
  have lists: "lseg m' h B a" "lseg m' (seg_next m a) A 0" "lseg m' a ((a, k) # A) 0" "seg_len m' a = k"
    if "\<forall>x. x < unat s + 4 \<or> unat s + 8 \<le> x \<longrightarrow> m' x = m x" for m'
  proof -
    show "lseg m' h B a" using lseg_unaffected [OF m(1), of m' m] lB that Bm by fastforce
    show A: "lseg m' (seg_next m a) A 0" using lseg_unaffected [OF m(6), of m' m] la that Am m by fastforce
    have "m' x = m x" if "unat a \<le> x" for x
      using \<open>\<forall>x. x < unat s + 4 \<or> unat s + 8 \<le> x \<longrightarrow> m' x = m x\<close> that m by auto
    then have "seg_len m' a = seg_len m a" "seg_next m' a = seg_next m a"
      unfolding seg_len_def seg_next_def by (intro cell32.ld_cong, simp)+
    with A la show "lseg m' a ((a, k) # A) 0" "seg_len m' a = k" by simp_all
  qed
  have m1: "\<forall>x. x < unat s + 4 \<or> unat s + 8 \<le> x \<longrightarrow> m1 x = m x"
    by (auto simp: m1_def set_len_def cell32.st_frame)
  have ls: "seg_len m1 s = l" by (simp add: m1_def)
  show ?thesis
  proof (cases "s + l = a")
    case True
    define m2 where "m2 = set_len m1 s (l + k)"
    have out: "\<forall>x. x < unat s + 4 \<or> unat s + 8 \<le> x \<longrightarrow> m2 x = m x"
      using m1 by (auto simp: m2_def set_len_def cell32.st_frame)
    show ?thesis
      using True mn lists [OF m1] lists [OF out] la out ls
      by (intro exI [of _ m2] exI [of _ "seg_next m a"]) (simp add: merge_next_def m2_def)
  next
    case False
    then show ?thesis
      using mn lists [OF m1] m1 ls
      by (intro exI [of _ m1] exI [of _ a]) (auto simp: merge_next_def)
  qed
qed

lemma free_setup:
  assumes ok: "heap_ok st (B @ (a, k) # A)" and hdr: "ld32 (hmem st) (unat s) = l"
    and s: "fsorted 3229614080 (B @ (s, l) # (a, k) # A) (unat (next_page_virt_addr st))"
    and fuel: "length B + 1 < fuel" and mn: "merge_next s l ((a, k) # A) = (l2, R)"
  obtains m2 n where "seg_len m2 s = l2" "lseg m2 (free_segments_head st) B a" "lseg m2 n R 0"
    "\<forall>x. x < unat s + 4 \<or> unat s + 8 \<le> x \<longrightarrow> m2 x = hmem st x"
    "memory_free fuel (s + 4) st =
      (let (m, t, p) = (if snd (win 0 0 B) \<noteq> 0 \<and> snd (win 0 0 B) + seg_len m2 (snd (win 0 0 B)) = s
         then (set_len m2 (snd (win 0 0 B)) (seg_len m2 (snd (win 0 0 B)) + l2), snd (win 0 0 B), fst (win 0 0 B))
         else (m2, s, snd (win 0 0 B)))
       in Ok (st\<lparr>free_segments_head := (if free_segments_head st > t then t else free_segments_head st),
                 hmem := set_next (set_next m p t) t n\<rparr>))"
proof -
  let ?m = "hmem st" and ?h = "free_segments_head st"
  have l: "lseg ?m ?h (B @ (a, k) # A) 0" using ok by (simp add: heap_ok_def)
  obtain m2 n where m2: "(if s + seg_len (set_len ?m s l) s = a
       then obind (ASSERT (a \<noteq> 0) ''next_segment does not exist.'') (\<lambda>_.
         Ok (set_len (set_len ?m s l) s (seg_len (set_len ?m s l) s + seg_len (set_len ?m s l) a), seg_next ?m a))
       else Ok (set_len ?m s l, a)) = Ok (m2, n)"
    "seg_len m2 s = l2" "lseg m2 ?h B a" "lseg m2 n R 0"
    "\<forall>x. x < unat s + 4 \<or> unat s + 8 \<le> x \<longrightarrow> m2 x = ?m x"
    using merge_store [OF l s unat_lt_pow2 mn, where e = "''next_segment does not exist.''"]
    by (elim exE conjE) (rule that)
  show ?thesis
    by (rule that [OF m2(2-5)])
       (unfold free_reaches_link [OF ok s fuel] link_segment_def Let_def hdr m2(1), simp add: m2(2))
qed

lemma free_no_merge_below:
  assumes l: "lseg m h B a" and h: "h = fst (hd (B @ [(a, k)]))" and s: "fsorted lo (B @ (s, l) # R) hi"
    and sa: "s < a" and no: "\<not> (B \<noteq> [] \<and> fst (last B) + snd (last B) = s)"
  shows "\<not> (snd (win 0 0 B) \<noteq> 0 \<and> snd (win 0 0 B) + seg_len m (snd (win 0 0 B)) = s)"
    and "(if h > s then s else h) = (if B = [] then s else h)"
proof -
  show "\<not> (snd (win 0 0 B) \<noteq> 0 \<and> snd (win 0 0 B) + seg_len m (snd (win 0 0 B)) = s)"
  proof (cases B rule: rev_cases)
    case (snoc B0 y)
    then have "seg_len m (fst y) = snd y" using l by (cases y) (auto simp: lseg_append)
    with no show ?thesis by (simp add: snoc)
  qed simp
  show "(if h > s then s else h) = (if B = [] then s else h)"
  proof (cases B)
    case Nil
    then show ?thesis using h sa by simp
  next
    case (Cons y B')
    obtain b j where y: "y = (b, j)" by (cases y)
    have "unat b < unat s"
      using s fsorted_mem [of "unat b + unat j" "B' @ (s, l) # R" hi s l] by (simp add: Cons y)
    then show ?thesis using h by (simp add: Cons y word_less_nat_alt)
  qed
qed

lemma free_merge_below:
  assumes l: "lseg m h B a" and R: "lseg m n R 0" and len: "seg_len m s = l2"
    and srt: "fsorted lo (B @ (s, l2) # R) hi" and h: "h = fst (hd ((B0 @ [(b, kb)]) @ [(a, k)]))"
    and B: "B = B0 @ [(b, kb)]" and e: "b + kb = s"
  shows "b \<noteq> 0" and "lseg (set_len m b (kb + l2)) h B0 b" and "lseg (set_len m b (kb + l2)) n R 0"
    and "hi < 4294967296 \<Longrightarrow> fsorted lo (B0 @ (b, kb + l2) # R) hi"
    and "seg_len m b = kb \<and> \<not> b < h" and "B0 = [] \<Longrightarrow> h = b" and "8 \<le> unat kb"
proof -
  obtain mid where m: "fsorted lo B0 mid" "mid \<le> unat b" "8 \<le> unat kb" "unat b + unat kb \<le> unat s"
    "8 \<le> unat l2" "fsorted (unat s + unat l2) R hi"
    using srt by (auto simp: B fsorted_append)
  have bl: "b \<noteq> 0" "seg_len m b = kb" and lB0: "lseg m h B0 b" using l by (auto simp: B lseg_append)
  show "b \<noteq> 0" by (fact bl(1))
  have low: "lo \<le> unat x \<and> unat x + 8 \<le> unat b" if "(x, y) \<in> set B0" for x y
    using fsorted_mem [OF m(1) that] m(2) by linarith
  have high: "unat b + 8 \<le> unat x" if "(x, y) \<in> set R" for x y
    using fsorted_mem [OF m(6) that] m by linarith
  have "lseg (set_len m b (kb + l2)) h B0 b \<longleftrightarrow> lseg m h B0 b"
    by (rule lseg_cong) (use low in \<open>force simp: seg_other\<close>)
  with lB0 show "lseg (set_len m b (kb + l2)) h B0 b" by simp
  have "lseg (set_len m b (kb + l2)) n R 0 \<longleftrightarrow> lseg m n R 0"
    by (rule lseg_cong) (use high in \<open>force simp: seg_other\<close>)
  with R show "lseg (set_len m b (kb + l2)) n R 0" by simp
  show "fsorted lo (B0 @ (b, kb + l2) # R) hi" if "hi < 4294967296"
  proof -
    have "unat s + unat l2 < 4294967296" using fsorted_le [OF m(6)] that by linarith
    moreover have "unat b + unat kb = unat s" using word_end_eq [of b kb s] e m(4) unat_lt_pow2 [of s] by simp
    ultimately have "unat b + unat (kb + l2) = unat s + unat l2" by (subst unat_add_no_wrap) simp_all
    with m show ?thesis by (auto simp: fsorted_append intro!: exI [of _ mid])
  qed
  have "\<not> b < h"
  proof (cases B0)
    case Nil
    then show ?thesis using h by simp
  next
    case (Cons y B')
    then show ?thesis using h low [of "fst y" "snd y"] by (simp add: word_less_nat_alt)
  qed
  with bl show "seg_len m b = kb \<and> \<not> b < h" by simp
  show "B0 = [] \<Longrightarrow> h = b" using h by simp
  show "8 \<le> unat kb" by (fact m(3))
qed

lemma free_middle:
  assumes ok: "heap_ok st (B @ (a, k) # A)" and hdr: "ld32 (hmem st) (unat s) = l"
    and s: "fsorted 3229614080 (B @ (s, l) # (a, k) # A) (unat (next_page_virt_addr st))"
    and fuel: "length B + 1 < fuel"
  shows "\<exists>st'. memory_free fuel (s + 4) st = Ok st' \<and> heap_ok st' (insert_free s l (B @ (a, k) # A))
    \<and> next_page_virt_addr st' = next_page_virt_addr st \<and> provider st' = provider st
    \<and> (\<forall>x. 4 \<le> x \<and> x \<notin> free_bytes (B @ [(s, l)]) \<longrightarrow> hmem st' x = hmem st x)"
proof -
  let ?m = "hmem st" and ?h = "free_segments_head st" and ?hi = "unat (next_page_virt_addr st)"
  have hl: "lseg ?m ?h (B @ (a, k) # A) 0" and al: "?hi mod 4096 = 0" using ok by (simp_all add: heap_ok_def)
  have h: "?h = fst (hd (B @ [(a, k)]))" using hl by (cases B) auto
  obtain l2 R where mn: "merge_next s l ((a, k) # A) = (l2, R)" by fastforce
  have s2: "fsorted 3229614080 (B @ (s, l2) # R) ?hi" by (rule merge_next_sorted [OF s unat_lt_pow2 mn])
  have sa: "s < a" and l8: "8 \<le> unat l" using s by (auto simp: fsorted_append word_less_nat_alt)
  note ins = insert_free_eq [OF s unat_lt_pow2 mn]
  obtain m2 n where m2: "seg_len m2 s = l2" "lseg m2 ?h B a" "lseg m2 n R 0"
    "\<forall>x. x < unat s + 4 \<or> unat s + 8 \<le> x \<longrightarrow> m2 x = ?m x"
    and eq: "memory_free fuel (s + 4) st =
      (let (m, t, p) = (if snd (win 0 0 B) \<noteq> 0 \<and> snd (win 0 0 B) + seg_len m2 (snd (win 0 0 B)) = s
         then (set_len m2 (snd (win 0 0 B)) (seg_len m2 (snd (win 0 0 B)) + l2), snd (win 0 0 B), fst (win 0 0 B))
         else (m2, s, snd (win 0 0 B)))
       in Ok (st\<lparr>free_segments_head := (if ?h > t then t else ?h), hmem := set_next (set_next m p t) t n\<rparr>))"
    by (rule free_setup [OF ok hdr s fuel mn])
  have m2s: "m2 x = ?m x" if "x \<notin> {unat s ..< unat s + unat l}" for x
    using m2(4) l8 that by auto
  show ?thesis
  proof (cases "B \<noteq> [] \<and> fst (last B) + snd (last B) = s")
    case False
    note nm = free_no_merge_below [OF m2(2) h s2 sa False]
    have lo: "(8 :: nat) \<le> 3229614080" by simp
    note ls = link_stores [OF m2(2,3) s2 lo m2(1)]
    let ?st = "st\<lparr>free_segments_head := (if B = [] then s else ?h),
        hmem := set_next (set_next m2 (snd (win 0 0 B)) s) s n\<rparr>"
    have "memory_free fuel (s + 4) st = Ok ?st"
      unfolding eq if_not_P [OF nm(1)] Let_def prod.case nm(2) ..
    moreover have "heap_ok ?st (insert_free s l (B @ (a, k) # A))"
      unfolding ins if_not_P [OF False] heap_ok_def using ls(1) s2 al by simp
    moreover have "\<forall>x. 4 \<le> x \<and> x \<notin> free_bytes (B @ [(s, l)]) \<longrightarrow> hmem ?st x = ?m x"
      using ls(2) m2s l8 by auto
    ultimately show ?thesis by (intro exI [of _ ?st]) simp
  next
    case True
    then obtain B0 b kb where B: "B = B0 @ [(b, kb)]" "b + kb = s"
      by (metis append_butlast_last_id prod.collapse)
    note mb = free_merge_below [OF m2(2,3,1) s2 h [unfolded B(1)] B]
    note mb = mb(1-3) mb(4) [OF unat_lt_pow2] mb(5-7)
    let ?m3 = "set_len m2 b (kb + l2)"
    let ?st = "st\<lparr>free_segments_head := ?h, hmem := set_next (set_next ?m3 (snd (win 0 0 B0)) b) b n\<rparr>"
    have lo: "(8 :: nat) \<le> 3229614080" by simp
    note ls = link_stores [OF mb(2,3,4) lo seg_store(2)]
    have "memory_free fuel (s + 4) st = Ok ?st"
      unfolding eq using mb(1,5) by (simp add: B)
    moreover have "heap_ok ?st (insert_free s l (B @ (a, k) # A))"
    proof -
      have "insert_free s l (B @ (a, k) # A) = B0 @ (b, kb + l2) # R"
        unfolding ins if_P [OF True] by (simp add: B)
      then show ?thesis
        unfolding heap_ok_def using ls(1) mb(4,6) al by (cases "B0 = []") simp_all
    qed
    moreover have "\<forall>x. 4 \<le> x \<and> x \<notin> free_bytes (B @ [(s, l)]) \<longrightarrow> hmem ?st x = ?m x"
    proof (intro allI impI)
      fix x assume x: "4 \<le> x \<and> x \<notin> free_bytes (B @ [(s, l)])"
      then have "x \<notin> free_bytes B0" "x < unat b \<or> unat b + 8 \<le> x" "x \<notin> {unat s ..< unat s + unat l}"
        using mb(7) by (auto simp: B)
      then show "hmem ?st x = ?m x" using ls(2) [of x] m2s [of x] x set_outside(2) [of x b m2] by simp
    qed
    ultimately show ?thesis by (intro exI [of _ ?st]) simp
  qed
qed

text \<open>
  (C11) Freeing a block that has a free segment above it. Given a well-formed free list and a block between
  two neighbours of it (or below its first segment), \<open>memory_free\<close> returns, the free list becomes the sorted
  list with the block inserted and merged with every neighbour it touches, and outside of the free segments below
  it and the block itself the only bytes that can change are the four at address 0.
\<close>

theorem memory_free_inserts:
  assumes "heap_ok st (B @ (a, k) # A)" and "ld32 (hmem st) (unat s) = l"
    and "fsorted 3229614080 (B @ (s, l) # (a, k) # A) (unat (next_page_virt_addr st))"
    and "length B + 1 < fuel"
  shows "\<exists>st'. memory_free fuel (s + 4) st = Ok st' \<and> heap_ok st' (insert_free s l (B @ (a, k) # A))
    \<and> next_page_virt_addr st' = next_page_virt_addr st \<and> provider st' = provider st
    \<and> (\<forall>x. 4 \<le> x \<and> x \<notin> free_bytes (B @ [(s, l)]) \<longrightarrow> hmem st' x = hmem st x)"
  by (rule free_middle [OF assms])

definition one_block :: "pfa_state heap_state" where
  "one_block = two_segments\<lparr>hmem := st32 (hmem two_segments) 0xC0800010 240\<rparr>"

lemma one_block_ok:
  "heap_ok one_block [(0xC0800000, 16), (0xC0800100, 3840)]"
  "ld32 (hmem one_block) 0xC0800010 = 240" "next_page_virt_addr one_block = 0xC0801000"
proof -
  let ?xs = "[(0xC0800000, 16), (0xC0800100, 3840)] :: (u32 \<times> u32) list"
  have "hmem one_block x = hmem two_segments x" if "x \<in> free_bytes ?xs" for x
    using that by (auto simp: one_block_def cell32.st_frame)
  then have "lseg (hmem one_block) (free_segments_head two_segments) ?xs 0"
    using lseg_unaffected [of "3229614080" ?xs "3229618176" "hmem one_block" "hmem two_segments"
        "free_segments_head two_segments" 0]
      two_segments_ok by (simp add: heap_ok_def del: lseg.simps)
  then show "heap_ok one_block ?xs"
    using two_segments_ok by (simp add: heap_ok_def one_block_def del: lseg.simps)
  show "ld32 (hmem one_block) 0xC0800010 = 240" "next_page_virt_addr one_block = 0xC0801000"
    by (simp_all add: one_block_def two_segments_def cell32.ld_st)
qed

theorem memory_free_inserts_witness:
  "\<exists>st'. memory_free 3 (0xC0800010 + 4) one_block = Ok st'
    \<and> heap_ok st' (insert_free 0xC0800010 240 ([(0xC0800000, 16)] @ [(0xC0800100, 3840)]))
    \<and> next_page_virt_addr st' = next_page_virt_addr one_block \<and> provider st' = provider one_block
    \<and> (\<forall>x. 4 \<le> x \<and> x \<notin> free_bytes ([(0xC0800000, 16)] @ [(0xC0800010, 240)])
         \<longrightarrow> hmem st' x = hmem one_block x)"
  by (rule memory_free_inserts) (use one_block_ok in simp_all)

text \<open>
  (C37) Freeing a block above every free segment never returns. Whatever the fuel, the second loop of
  \<open>memory_free\<close> runs \<open>next_segment\<close> off the end of the list to null, which compares below the segment
  for ever.
\<close>

theorem memory_free_hangs:
  assumes "heap_ok st xs" and "xs \<noteq> []" and "\<forall>(b, n) \<in> set xs. b < s"
  shows "memory_free fuel (s + 4) st = Diverged"
proof -
  have l: "lseg (hmem st) (free_segments_head st) xs 0" using assms(1) by (simp add: heap_ok_def)
  have s0: "0 < s" using assms(2,3) by (cases xs) (auto simp: le_less_trans)
  have h: "free_segments_head st \<noteq> 0" using l assms(2) by (cases xs) auto
  have adv: "free_advance fuel (hmem st) s pp p (snd (win 0 0 xs)) 0 = Diverged" for pp p
    using win_snd_less [OF assms(3) s0, of 0] free_advance_diverges [OF s0] by (cases fuel) simp_all
  show ?thesis
  proof (cases "length xs < fuel")
    case True
    show ?thesis
      using h free_walk_ends [OF l assms(3) s0 True, of 0 0] adv by (simp add: memory_free_def Let_def)
  next
    case False
    then show ?thesis
      using h free_walk_short [OF l assms(3) s0, of fuel 0 0] by (simp add: memory_free_def Let_def)
  qed
qed

theorem memory_free_hangs_witness:
  "memory_free 1000 (0xC0802000 + 4) two_segments = Diverged"
  by (rule memory_free_hangs [OF two_segments_ok]) simp_all

text \<open>
  The null store. When the freed block lies below the whole free list, \<open>memory_free\<close> stores the
  block's address through the null \<open>prev_segment\<close>: the word at address 0 is overwritten.
\<close>

theorem memory_free_null_store:
  assumes "heap_ok st ((a, k) # A)" and "ld32 (hmem st) (unat s) = l"
    and "fsorted 3229614080 ((s, l) # (a, k) # A) (unat (next_page_virt_addr st))"
    and "1 < fuel"
  shows "\<exists>st'. memory_free fuel (s + 4) st = Ok st' \<and> ld32 (hmem st') 0 = s"
proof -
  obtain l2 R where mn: "merge_next s l ((a, k) # A) = (l2, R)" by fastforce
  obtain m2 n where eq: "memory_free fuel (s + 4) st =
      (let (m, t, p) = (if snd (win 0 0 []) \<noteq> 0 \<and> snd (win 0 0 []) + seg_len m2 (snd (win 0 0 [])) = s
         then (set_len m2 (snd (win 0 0 [])) (seg_len m2 (snd (win 0 0 [])) + l2), snd (win 0 0 []), fst (win 0 0 []))
         else (m2, s, snd (win 0 0 [])))
       in Ok (st\<lparr>free_segments_head := (if free_segments_head st > t then t else free_segments_head st),
                 hmem := set_next (set_next m p t) t n\<rparr>))"
    by (rule free_setup [of st "[]" a k A s l fuel l2 R]) (use assms mn in auto)
  have "4 \<le> unat s" using assms(3) by simp
  then have "ld32 (set_next (set_next m2 0 s) s n) 0 = s"
    by (simp add: set_next_def cell32.ld_st cell32.ld_st_disjoint)
  then show ?thesis unfolding eq by simp
qed

definition low_block :: "pfa_state heap_state" where
  "low_block = \<lparr>hmem = st32 (set_next (set_len (\<lambda>x. 0) 0xC0800100 3840) 0xC0800100 0) 0xC0800000 16,
     free_segments_head = 0xC0800100, next_page_virt_addr = 0xC0801000, provider = example_pfa\<rparr>"

theorem memory_free_null_store_witness:
  "\<exists>st'. memory_free 2 (0xC0800000 + 4) low_block = Ok st' \<and> ld32 (hmem st') 0 = 0xC0800000"
proof (rule memory_free_null_store)
  show "heap_ok low_block [(0xC0800100, 3840)]"
    by (simp add: heap_ok_def low_block_def seg_next_def seg_len_def set_next_def set_len_def
        cell32.ld_st_disjoint cell32.ld_st)
  show "ld32 (hmem low_block) (unat (0xC0800000 :: u32)) = 16" by (simp add: low_block_def cell32.ld_st)
qed (simp_all add: low_block_def)

section \<open>Allocating and freeing again\<close>

lemma block_size_exact:
  assumes "size_ok sz"
  shows "sz + 4 = block_size sz \<longleftrightarrow> unat sz mod 4 = 0"
proof -
  have "unat (sz + 4) = unat sz + 4" using assms by (simp add: size_ok_def unat_add_no_wrap)
  then have "sz + 4 = block_size sz \<longleftrightarrow> unat sz + 4 = (unat sz + 7) div 4 * 4"
    by (simp add: word_unat_eq_iff unat_block_size [OF assms])
  also have "\<dots> \<longleftrightarrow> unat sz mod 4 = 0" by presburger
  finally show ?thesis .
qed

lemma merge_freed:
  assumes "size_ok sz" and "unat (block_size sz) + 8 \<le> unat n"
  shows "merge_next a (sz + 4) ((a + block_size sz, n - block_size sz) # A) =
    (if unat sz mod 4 = 0 then (n, A) else (sz + 4, (a + block_size sz, n - block_size sz) # A))"
proof -
  have "a + (sz + 4) = a + block_size sz \<longleftrightarrow> unat sz mod 4 = 0"
    using block_size_exact [OF assms(1)] by simp
  moreover have "unat sz mod 4 = 0 \<Longrightarrow> sz + 4 + (n - block_size sz) = n"
    using block_size_exact [OF assms(1)] by simp
  ultimately show ?thesis by (simp add: merge_next_def)
qed

lemma first_fit_prefix:
  "\<forall>(b, k) \<in> set B. k < ts \<Longrightarrow> unat ts + 8 \<le> unat n \<Longrightarrow>
   first_fit ts (B @ (a, n) # A) = Some (a, B @ (a + ts, n - ts) # A)"
proof (induction B)
  case (Cons x B)
  obtain b k where x: "x = (b, k)" by (cases x)
  have "unat k < unat ts" using Cons.prems(1) by (simp add: x word_less_nat_alt)
  with Cons show ?case by (simp add: x word_le_nat_alt)
qed simp

text \<open>
  (C25) Allocating and freeing. When the block was split off the segment \<open>(a, n)\<close> of a free list, freeing it at
  once gives back the same free list if the size is a multiple of four. For any other size the header records
  the size without its padding: the freed segment is shorter than the block, is not merged with the rest of
  the segment, and the padding bytes are in no segment any more.
\<close>

theorem allocate_free_round_trip:
  assumes "heap_ok st (B @ (a, n) # A)" and "size_ok sz" and "4 \<le> unat sz"
    and "\<forall>(b, k) \<in> set B. k < block_size sz" and "unat (block_size sz) + 8 \<le> unat n"
    and "B \<noteq> [] \<Longrightarrow> fst (last B) + snd (last B) \<noteq> a" and "length B + length A + 1 < fuel"
  shows "\<exists>st1 st2. memory_allocate (pfa_commit_page L) fuel sz st = Ok (a + 4, st1)
    \<and> memory_free fuel (a + 4) st1 = Ok st2
    \<and> heap_ok st2 (if unat sz mod 4 = 0 then B @ (a, n) # A
        else B @ (a, sz + 4) # (a + block_size sz, n - block_size sz) # A)"
proof -
  let ?ts = "block_size sz" and ?hi = "unat (next_page_virt_addr st)"
  note ts = unat_block_size [OF assms(2)]
  have srt: "fsorted 3229614080 (B @ (a, n) # A) ?hi" using assms(1) by (simp add: heap_ok_def)
  have ff: "first_fit ?ts (B @ (a, n) # A) = Some (a, B @ (a + ?ts, n - ?ts) # A)"
    using assms(4,5) by (rule first_fit_prefix)
  obtain st1 where st1: "memory_allocate (pfa_commit_page L) fuel sz st = Ok (a + 4, st1)"
    "heap_ok st1 (B @ (a + ?ts, n - ?ts) # A)" "ld32 (hmem st1) (unat a) = sz + 4"
    "next_page_virt_addr st1 = next_page_virt_addr st"
    by (rule allocate_hit [OF assms(1,2) ff, of fuel "pfa_commit_page L"]) (use assms(7) in simp_all)
  have s1: "fsorted 3229614080 (B @ (a, sz + 4) # (a + ?ts, n - ?ts) # A) (unat (next_page_virt_addr st1))"
  proof -
    obtain mid where m: "fsorted 3229614080 B mid" "mid \<le> unat a" "fsorted (unat a + unat n) A ?hi"
      using srt by (auto simp: fsorted_append)
    have "unat a + unat n < 4294967296" using fsorted_le [OF m(3)] unat_lt_pow2 by (rule le_less_trans)
    then have "unat (a + ?ts) = unat a + unat ?ts" "unat (n - ?ts) = unat n - unat ?ts"
      using assms(5) by (simp_all add: unat_add_no_wrap unat_sub word_le_nat_alt)
    moreover have "unat (sz + 4) = unat sz + 4" using assms(2) by (simp add: size_ok_def unat_add_no_wrap)
    ultimately show ?thesis
      using m st1(4) ts(4) assms(3,5) by (auto simp: fsorted_append intro!: exI [of _ mid])
  qed
  obtain st2 where st2: "memory_free fuel (a + 4) st1 = Ok st2"
    "heap_ok st2 (insert_free a (sz + 4) (B @ (a + ?ts, n - ?ts) # A))"
    using free_middle [OF st1(2,3) s1, of fuel] assms(7) by auto
  moreover have "insert_free a (sz + 4) (B @ (a + ?ts, n - ?ts) # A) =
      (if unat sz mod 4 = 0 then B @ (a, n) # A else B @ (a, sz + 4) # (a + ?ts, n - ?ts) # A)"
    unfolding insert_free_eq [OF s1 unat_lt_pow2 surjective_pairing] merge_freed [OF assms(2,5)]
    using assms(6) by auto
  ultimately show ?thesis using st1(1) by auto
qed

theorem allocate_free_round_trip_witness:
  "\<exists>st1 st2. memory_allocate (pfa_commit_page example_link) 3 100 two_segments = Ok (0xC0800100 + 4, st1)
    \<and> memory_free 3 (0xC0800100 + 4) st1 = Ok st2
    \<and> heap_ok st2 (if unat (100 :: u32) mod 4 = 0 then [(0xC0800000, 16)] @ (0xC0800100, 3840) # []
        else [(0xC0800000, 16)] @ (0xC0800100, 100 + 4)
          # (0xC0800100 + block_size 100, 3840 - block_size 100) # [])"
  by (rule allocate_free_round_trip)
     (use two_segments_ok in \<open>simp_all add: size_ok_def block_size_100 word_less_nat_alt\<close>)

section \<open>Requests the allocator does not survive\<close>

lemma single_miss:
  assumes ok: "heap_ok st [(a, n)]" and sz: "size_ok sz"
    and n: "unat n < unat (block_size sz)" "unat (block_size sz) \<le> unat n + 4096" "unat n + 4096 < 4294967296"
    and c: "commit (next_page_virt_addr st) (provider st) = Ok (True, p)" and fuel: "1 < fuel"
  shows "\<exists>st'. memory_allocate commit fuel sz st = Ok (a + 4, st')"
proof -
  let ?ts = "block_size sz"
  note ts = unat_block_size [OF sz]
  have l: "lseg (hmem st) (free_segments_head st) [(a, n)] 0" using ok by (simp add: heap_ok_def)
  then have h: "free_segments_head st = a" "a \<noteq> 0" "seg_len (hmem st) a = n" by simp_all
  have f: "fuel = Suc (Suc (fuel - 2))" using fuel by simp
  have lt: "n < ?ts" using n(1) by (simp add: word_less_nat_alt)
  have ff: "find_fit fuel (hmem st) ?ts 0 0 a = Ok (0, a, 0, False)"
    using find_fit_miss [OF l _ ts(3), of fuel 0 0] lt fuel by (simp add: h(1))
  have "\<not> n + PAGE_SIZE < ?ts" using n by (simp add: word_less_nat_alt PAGE_SIZE_def unat_add_no_wrap)
  then have g: "grow_segment commit fuel ?ts n (next_page_virt_addr st) (provider st)
      = Ok (True, n + PAGE_SIZE, next_page_virt_addr st + PAGE_SIZE, p)"
    using lt c by (subst f) simp
  have t: "fst (take_segment sz ?ts q a b st') = a + 4" for q b st'
    by (simp add: take_segment_def Let_def)
  show ?thesis
    using h ff g by (simp add: memory_allocate_def align_block ensure_head_def Let_def)
      (metis t prod.collapse)
qed

text \<open>
  Growing a segment that is not at the end of the heap. When the only free segment is too small and the
  byte after it is below the end of the heap, so belongs to a block in use, \<open>memory_allocate\<close> adds the length of the
  new page to the segment all the same and returns a block that covers that byte.
\<close>

theorem memory_allocate_overlaps:
  assumes "heap_ok st [(a, n)]" and "size_ok sz"
    and "unat n < unat (block_size sz)" and "unat (block_size sz) \<le> unat n + 4096"
    and "unat a + unat n < unat (next_page_virt_addr st)"
    and "link_ok L" and "\<exists>k < PFA_FRAMES. \<not> frame_used (pfa_page_bitmap (provider st)) k" and "1 < fuel"
  shows "\<exists>st'. memory_allocate (pfa_commit_page L) fuel sz st = Ok (a + 4, st')
    \<and> unat a + unat n \<in> {unat a ..< unat a + unat (block_size sz)}
    \<and> unat a + unat n \<notin> free_bytes [(a, n)] \<and> unat a + unat n < unat (next_page_virt_addr st)"
proof -
  have s: "fsorted 3229614080 [(a, n)] (unat (next_page_virt_addr st))"
    and al: "unat (next_page_virt_addr st) mod 4096 = 0"
    using assms(1) by (simp_all add: heap_ok_def)
  have v: "next_page_virt_addr st AND 0xfff = 0" "0xC0800000 \<le> next_page_virt_addr st"
    using al fsorted_le [OF s] unfolding aligned_iff by (simp_all add: word_le_nat_alt)
  have n: "unat n + 4096 < 4294967296"
    using s assms(5) unat_lt_pow2 [of "next_page_virt_addr st"] unfolding fsorted.simps by linarith
  obtain k where k: "least_free (pfa_page_bitmap (provider st)) k"
    using assms(7) by (cases "pfa_page_bitmap (provider st)" rule: least_free_cases) blast+
  have "\<exists>st'. memory_allocate (pfa_commit_page L) fuel sz st = Ok (a + 4, st')"
    by (rule single_miss [where commit = "pfa_commit_page L", OF assms(1-4) n commit_ok [OF assms(6) v k] assms(8)])
  with assms(3,5) show ?thesis by auto
qed

definition stranded_segment :: "pfa_state heap_state" where
  "stranded_segment = low_block\<lparr>hmem := set_next (set_len (hmem low_block) 0xC0800100 64) 0xC0800100 0\<rparr>"

theorem memory_allocate_overlaps_witness:
  "\<exists>st'. memory_allocate (pfa_commit_page example_link) 2 100 stranded_segment = Ok (0xC0800100 + 4, st')
    \<and> unat (0xC0800100 :: u32) + unat (64 :: u32) \<in>
        {unat (0xC0800100 :: u32) ..< unat (0xC0800100 :: u32) + unat (block_size 100)}
    \<and> unat (0xC0800100 :: u32) + unat (64 :: u32) \<notin> free_bytes [(0xC0800100, 64)]
    \<and> unat (0xC0800100 :: u32) + unat (64 :: u32) < unat (next_page_virt_addr stranded_segment)"
proof (rule memory_allocate_overlaps)
  show "heap_ok stranded_segment [(0xC0800100, 64)]"
    by (simp add: heap_ok_def stranded_segment_def low_block_def)
  show "\<exists>k < PFA_FRAMES. \<not> frame_used (pfa_page_bitmap (provider stranded_segment)) k"
    using example_pfa_some_free by (simp add: stranded_segment_def low_block_def)
qed (simp_all add: size_ok_def block_size_100 stranded_segment_def low_block_def)

text \<open>
  A request of zero bytes corrupts the free list. Its block is four bytes long, so the header of the
  remaining segment is written over the length of the segment being split before that length is read: with one free
  segment on the list, the remaining segment gets the length 4294967292.
\<close>

theorem memory_allocate_zero_corrupts:
  assumes "heap_ok st [(a, n)]" and "12 \<le> unat n" and "0 < fuel"
  shows "\<exists>st'. memory_allocate (pfa_commit_page L) fuel 0 st = Ok (a + 4, st')
    \<and> free_segments_head st' = a + 4 \<and> seg_len (hmem st') (a + 4) = 0xFFFFFFFC"
proof -
  have l: "lseg (hmem st) (free_segments_head st) [(a, n)] 0"
    and s: "fsorted 3229614080 [(a, n)] (unat (next_page_virt_addr st))"
    using assms(1) by (simp_all add: heap_ok_def)
  then have h: "free_segments_head st = a" "a \<noteq> 0" "seg_len (hmem st) a = n" "seg_next (hmem st) a = 0"
    by simp_all
  have ts: "block_size 0 = 4" by (simp add: block_size_def mask_eq_exp_minus_1)
  have "unat a + unat n < 4294967296"
    using s unat_lt_pow2 [of "next_page_virt_addr st"] unfolding fsorted.simps by linarith
  then have a4: "unat (a + 4) = unat a + 4" using assms(2) by (simp add: unat_add_no_wrap)
  have ff: "find_fit fuel (hmem st) 4 0 0 a = Ok (0, 0, a, True)"
    using h assms(2,3) by (cases fuel) (simp_all add: word_le_nat_alt)
  define m where "m = set_next (hmem st) (a + 4) 0"
  have m: "seg_len m a = 0" by (simp add: m_def seg_len_def set_next_def a4 cell32.ld_st)
  have "seg_len (st32 (set_len m (a + 4) (0 - 4)) (unat a) 4) (a + 4) = 0 - 4"
    by (simp add: seg_len_def set_len_def a4 cell32.ld_st cell32.ld_st_disjoint)
  moreover have "align_forward 4 4 = Ok 4" using align_block [of 0] ts by simp
  then have "memory_allocate (pfa_commit_page L) fuel 0 st = Ok (a + 4, st\<lparr>free_segments_head := a + 4,
      hmem := st32 (set_len m (a + 4) (0 - 4)) (unat a) 4\<rparr>)"
    using h ff m by (simp add: memory_allocate_def ensure_head_def take_segment_def Let_def m_def)
  ultimately show ?thesis by simp
qed

theorem memory_allocate_zero_corrupts_witness:
  "\<exists>st'. memory_allocate (pfa_commit_page example_link) 1 0 stranded_segment = Ok (0xC0800100 + 4, st')
    \<and> free_segments_head st' = 0xC0800100 + 4 \<and> seg_len (hmem st') (0xC0800100 + 4) = 0xFFFFFFFC"
  by (rule memory_allocate_zero_corrupts [of stranded_segment "0xC0800100" 64])
     (simp_all add: heap_ok_def stranded_segment_def low_block_def)

text \<open>
  Reset. \<open>memory_free_all\<close> returns from every state whose page frame allocator is reachable; the heap
  is then empty, starts at the first address above the kernel again, and no address above the kernel
  is mapped.
\<close>

theorem memory_free_all_resets:
  assumes "link_ok L" and "pfa_reachable L (provider st)"
  shows "\<exists>st'. memory_free_all pfa_uncommit_all st = Ok st' \<and> heap_ok st' [] \<and> tail_adjacent st' []
    \<and> next_page_virt_addr st' = 0xC0800000 \<and> hmem st' = hmem st
    \<and> (\<forall>v. 0xC0800000 \<le> v \<longrightarrow> mmu_walk L (provider st') v = None)"
proof -
  obtain p where p: "uncommit_from 0 (provider st) = Ok p"
    "\<And>x y. pfa_page_tables p x y = (if x < 254 \<and> y < 1024 then 0 else pfa_page_tables (provider st) x y)"
    using uncommit_from_spec [of 0 "provider st"] by auto
  have u: "pfa_uncommit_all (provider st) = Ok p" using p(1) by (simp add: pfa_uncommit_all_def)
  have "mmu_walk L p v = None" if "0xC0800000 \<le> v" for v
    unfolding walk_under_inv [OF assms(1) pfa_inv_uncommit_all [OF u] that]
    using tables_index(2) [OF that] by (simp add: page_entry_def p(2))
  then show ?thesis
    by (simp add: memory_free_all_def u heap_ok_def tail_adjacent_def kernel_start_def MAX_KERNEL_SIZE_def)
qed

theorem memory_free_all_resets_witness:
  "\<exists>st'. memory_free_all pfa_uncommit_all two_segments = Ok st' \<and> heap_ok st' [] \<and> tail_adjacent st' []
    \<and> next_page_virt_addr st' = 0xC0800000 \<and> hmem st' = hmem two_segments
    \<and> (\<forall>v. 0xC0800000 \<le> v \<longrightarrow> mmu_walk example_link (provider st') v = None)"
  by (rule memory_free_all_resets) (simp_all add: two_segments_def)

end
