(* ===== verification/Ata.thy ===== *)
theory Ata
  imports Io
begin

text \<open>
  The IDE driver, \<open>src/src/hal/ata.c\<close>, and \<open>pci_init\<close> of \<open>src/src/hal/pci.c\<close>, which finds the controller and
  starts it.

  The drives answer through the \<open>device\<close> of the theory \<open>Ports\<close>. What the code relies on is stated by the record
  \<open>drive\<close>: the registers and sectors of the two drives of one channel, with \<open>drive_step\<close> the effect of one
  port access on them. \<open>drive_step\<close> is the protocol that the ATA standard gives to programmed I/O with 28-bit
  addresses: after a command the drive is busy for a while, and it ignores writes to its registers meanwhile.
  \<open>answers_as_drive\<close> says that a device answers as that drive does. Polling loops take fuel, one unit for each poll.
\<close>

section \<open>State\<close>

record IDE_Channel_Info =
  io_base :: u16
  control_base :: u16
  bus_master :: u16

datatype IDE_Drive_Type = DRIVE_TYPE_ATA | DRIVE_TYPE_UNKNOWN

record IDE_Drive_Info =
  missing :: bool
  drive_type :: IDE_Drive_Type
  udma_mode :: u8
  lba28_addressable_sector_count :: u32
  lba48_addressable_sector_count :: u64

abbreviation (input) IDE_BUS_PRIM :: nat where "IDE_BUS_PRIM \<equiv> 0"
abbreviation (input) IDE_BUS_SND :: nat where "IDE_BUS_SND \<equiv> 1"

text \<open>The array \<open>ide_channels\<close>; the macros of the ports read it.\<close>

type_synonym channels = "nat \<Rightarrow> IDE_Channel_Info"

record ide_state =
  ide_hw :: hw
  ide_channels :: channels
  ide_drives :: "nat \<Rightarrow> nat \<Rightarrow> IDE_Drive_Info"

definition ATA_DATA :: "channels \<Rightarrow> nat \<Rightarrow> u16" where "ATA_DATA C bus = io_base (C bus)"
definition ATA_ERROR :: "channels \<Rightarrow> nat \<Rightarrow> u16" where "ATA_ERROR C bus = io_base (C bus) + 1"
definition ATA_SECTOR_COUNT :: "channels \<Rightarrow> nat \<Rightarrow> u16" where "ATA_SECTOR_COUNT C bus = io_base (C bus) + 2"
definition ATA_LBALOW_OR_SECTORNUM :: "channels \<Rightarrow> nat \<Rightarrow> u16" where
  "ATA_LBALOW_OR_SECTORNUM C bus = io_base (C bus) + 3"
definition ATA_LBAMID_OR_CYLINDERLOW :: "channels \<Rightarrow> nat \<Rightarrow> u16" where
  "ATA_LBAMID_OR_CYLINDERLOW C bus = io_base (C bus) + 4"
definition ATA_LBAHIGH_OR_CYLINDERHIGH :: "channels \<Rightarrow> nat \<Rightarrow> u16" where
  "ATA_LBAHIGH_OR_CYLINDERHIGH C bus = io_base (C bus) + 5"
definition ATA_DRIVE_OR_HEAD :: "channels \<Rightarrow> nat \<Rightarrow> u16" where "ATA_DRIVE_OR_HEAD C bus = io_base (C bus) + 6"
definition ATA_STATUS :: "channels \<Rightarrow> nat \<Rightarrow> u16" where "ATA_STATUS C bus = io_base (C bus) + 7"
definition ATA_COMMAND :: "channels \<Rightarrow> nat \<Rightarrow> u16" where "ATA_COMMAND C bus = io_base (C bus) + 7"
definition ATA_DEV_CONTROL :: "channels \<Rightarrow> nat \<Rightarrow> u16" where "ATA_DEV_CONTROL C bus = control_base (C bus)"

lemmas ata_ports = ATA_DATA_def ATA_ERROR_def ATA_SECTOR_COUNT_def ATA_LBALOW_OR_SECTORNUM_def
  ATA_LBAMID_OR_CYLINDERLOW_def ATA_LBAHIGH_OR_CYLINDERHIGH_def ATA_DRIVE_OR_HEAD_def ATA_STATUS_def
  ATA_COMMAND_def ATA_DEV_CONTROL_def

abbreviation (input) ATA_STATUS_ERROR :: u8 where "ATA_STATUS_ERROR \<equiv> 0x01"
abbreviation (input) ATA_STATUS_DRQ :: u8 where "ATA_STATUS_DRQ \<equiv> 0x08"
abbreviation (input) ATA_STATUS_DRIVE_FAULT :: u8 where "ATA_STATUS_DRIVE_FAULT \<equiv> 0x20"
abbreviation (input) ATA_STATUS_BUSY :: u8 where "ATA_STATUS_BUSY \<equiv> 0x80"
abbreviation (input) ATA_DRIVE_OR_HEAD_LBA :: u8 where "ATA_DRIVE_OR_HEAD_LBA \<equiv> 0x40"
abbreviation (input) ATA_COMMAND_IDENTIFY :: u8 where "ATA_COMMAND_IDENTIFY \<equiv> 0xEC"
abbreviation (input) ATA_COMMAND_READ_SECTORS :: u8 where "ATA_COMMAND_READ_SECTORS \<equiv> 0x20"
abbreviation (input) ATA_COMMAND_WRITE_SECTORS :: u8 where "ATA_COMMAND_WRITE_SECTORS \<equiv> 0x30"
abbreviation (input) ATA_COMMAND_CACHE_FLUSH :: u8 where "ATA_COMMAND_CACHE_FLUSH \<equiv> 0xE7"

section \<open>Sector transfers\<close>

definition ide_select_drive :: "device \<Rightarrow> channels \<Rightarrow> nat \<Rightarrow> u8 \<Rightarrow> hw \<Rightarrow> hw outcome" where
  "ide_select_drive dev C bus drive s =
     obind (ASSERT (drive = 0 \<or> drive = 1) ''Invalid drive number.'') (\<lambda>_.
     Ok (((\<lambda>s. snd (in_8 dev (ATA_STATUS C bus) s)) ^^ 4)
           (out_8 (ATA_DRIVE_OR_HEAD C bus) (0xA OR push_bit 4 drive) s)))"

text \<open>A loop that reads a status register while the last value read satisfies a condition.\<close>

fun poll_while :: "(u8 \<Rightarrow> bool) \<Rightarrow> device \<Rightarrow> u16 \<Rightarrow> nat \<Rightarrow> u8 \<Rightarrow> hw \<Rightarrow> (u8 \<times> hw) outcome" where
  "poll_while again dev port 0 status s = Diverged"
| "poll_while again dev port (Suc fuel) status s =
     (if again status then
        (let (status, s) = in_8 dev port s in poll_while again dev port fuel status s)
      else Ok (status, s))"

definition busy :: "u8 \<Rightarrow> bool" where
  "busy status \<longleftrightarrow> status AND ATA_STATUS_BUSY \<noteq> 0"

definition not_settled :: "u8 \<Rightarrow> bool" where
  "not_settled status \<longleftrightarrow>
     status AND (ATA_STATUS_DRQ OR ATA_STATUS_ERROR OR ATA_STATUS_DRIVE_FAULT) = 0"

definition not_identified :: "u8 \<Rightarrow> bool" where
  "not_identified status \<longleftrightarrow> status AND (ATA_STATUS_ERROR OR ATA_STATUS_DRQ) = 0"

definition ata_prepare_transfer ::
  "device \<Rightarrow> channels \<Rightarrow> nat \<Rightarrow> memory \<Rightarrow> nat \<Rightarrow> u8 \<Rightarrow> u32 \<Rightarrow> hw \<Rightarrow> hw outcome" where
  "ata_prepare_transfer dev C fuel m bus drive lba28 s =
     obind (ASSERT (drive = 0 \<or> drive = 1) ''Invalid drive number.'') (\<lambda>_.
     obind (ASSERT (lba28 \<le> 0xFFFFFFF) ''lba28 can be at most 28 bits.'') (\<lambda>_.
     let drive_or_head_value =
           0xA0 OR push_bit 4 drive OR ATA_DRIVE_OR_HEAD_LBA OR ucast (drop_bit 24 lba28 AND 0x0F);
         s = out_8 (ATA_DRIVE_OR_HEAD C bus) drive_or_head_value s;
         s = out_8 (ATA_SECTOR_COUNT C bus) 1 s;
         (count, s) = in_8 dev (ATA_SECTOR_COUNT C bus) s in
     obind (fmt_print dev fuel m (''%hhx'' @ newline) [ucast count] s) (\<lambda>s.
     let s = out_8 (ATA_LBALOW_OR_SECTORNUM C bus) (ucast (lba28 AND 0xFF)) s;
         s = out_8 (ATA_LBAMID_OR_CYLINDERLOW C bus) (ucast (drop_bit 8 lba28 AND 0xFF)) s
     in Ok (out_8 (ATA_LBAHIGH_OR_CYLINDERHIGH C bus) (ucast (drop_bit 16 lba28 AND 0xFF)) s))))"

text \<open>The common part of the two transfers: the command, the three polling loops and the error report.\<close>

definition ata_start ::
  "device \<Rightarrow> channels \<Rightarrow> nat \<Rightarrow> memory \<Rightarrow> nat \<Rightarrow> u8 \<Rightarrow> u32 \<Rightarrow> u8 \<Rightarrow> hw \<Rightarrow> (u8 \<times> hw) outcome" where
  "ata_start dev C fuel m bus drive lba28 command s =
     obind (ide_select_drive dev C bus drive s) (\<lambda>s.
     obind (ata_prepare_transfer dev C fuel m bus drive lba28 s) (\<lambda>s.
     let s = out_8 (ATA_COMMAND C bus) command s;
         (status, s) = in_8 dev (ATA_STATUS C bus) s in
     obind (poll_while busy dev (ATA_STATUS C bus) fuel status s) (\<lambda>(status, s).
     obind (poll_while not_settled dev (ATA_STATUS C bus) fuel status s) (\<lambda>(status, s).
     let failed = (status AND (ATA_STATUS_ERROR OR ATA_STATUS_DRIVE_FAULT) \<noteq> 0) in
     obind (if failed then
              (let (error, s) = in_8 dev (ATA_ERROR C bus) s
               in fmt_print dev fuel m (''Error: %hhx'' @ newline) [ucast error] s)
            else Ok s) (\<lambda>s.
     obind (ASSERT (\<not> failed) ''Error should not occur.'') (\<lambda>_.
     Ok (status, s)))))))"

definition ata_read_sector ::
  "device \<Rightarrow> channels \<Rightarrow> nat \<Rightarrow> nat \<Rightarrow> u8 \<Rightarrow> u32 \<Rightarrow> nat \<Rightarrow> memory \<Rightarrow> hw \<Rightarrow> (memory \<times> hw) outcome" where
  "ata_read_sector dev C fuel bus drive lba28 buffer m s =
     obind (ata_start dev C fuel m bus drive lba28 ATA_COMMAND_READ_SECTORS s) (\<lambda>(status, s).
     Ok (fold (\<lambda>i (m, s). let (v, s) = in_16 dev (ATA_DATA C bus) s in (st16 m (buffer + 2 * i) v, s))
           [0..<256] (m, s)))"

definition ata_write_sector ::
  "device \<Rightarrow> channels \<Rightarrow> nat \<Rightarrow> nat \<Rightarrow> u8 \<Rightarrow> u32 \<Rightarrow> nat \<Rightarrow> memory \<Rightarrow> hw \<Rightarrow> hw outcome" where
  "ata_write_sector dev C fuel bus drive lba28 buffer m s =
     obind (ata_start dev C fuel m bus drive lba28 ATA_COMMAND_WRITE_SECTORS s) (\<lambda>(status, s).
     let s = fold (\<lambda>i. out_16 (ATA_DATA C bus) (ld16 m (buffer + 2 * i))) [0..<256] s;
         s = out_8 (ATA_COMMAND C bus) ATA_COMMAND_CACHE_FLUSH s
     in obind (poll_while busy dev (ATA_STATUS C bus) fuel status s) (\<lambda>(status, s). Ok s))"

section \<open>Finding the drives\<close>

definition builtin_clz :: "u32 \<Rightarrow> nat outcome" where
  "builtin_clz w = (if w = 0 then Fault ''__builtin_clz(0)''
     else Ok (length (takeWhile (\<lambda>i. \<not> bit w i) (rev [0..<32]))))"

definition builtin_ffs :: "u32 \<Rightarrow> nat" where
  "builtin_ffs w = (if w = 0 then 0 else builtin_ctz w + 1)"

definition read_identify :: "device \<Rightarrow> u16 \<Rightarrow> hw \<Rightarrow> (nat \<Rightarrow> u16) \<times> hw" where
  "read_identify dev port s =
     fold (\<lambda>i (ws, s). let (v, s) = in_16 dev port s in (ws(i := v), s)) [0..<256] (\<lambda>i. 0, s)"

definition record_identify ::
  "device \<Rightarrow> nat \<Rightarrow> memory \<Rightarrow> nat \<Rightarrow> nat \<Rightarrow> (nat \<Rightarrow> u16) \<Rightarrow> IDE_Drive_Info \<Rightarrow> hw
     \<Rightarrow> (IDE_Drive_Info \<times> hw) outcome" where
  "record_identify dev fuel m bus drive identify_data info s =
     (let supported_udma_modes = ucast (identify_data 88 AND 0xFF) :: u8;
          active_udma_mode = ucast (drop_bit 8 (identify_data 88)) :: u8 in
      obind (builtin_clz (ucast supported_udma_modes)) (\<lambda>a.
      obind (builtin_clz (ucast active_udma_mode)) (\<lambda>b.
      obind (if a < b then
               obind (fmt_print dev fuel m (''WARNING: The active udma mode is not the maximum supported.'' @ newline) [] s) (\<lambda>s.
               obind (fmt_print dev fuel m (''  bus: %hhx, drive: %hhx'' @ newline) [of_nat bus, of_nat drive] s) (\<lambda>s.
               fmt_print dev fuel m (''  active bitmask: %hhx, supported bitmask: %hhx'' @ newline)
                 [ucast active_udma_mode, ucast supported_udma_modes] s))
             else Ok s) (\<lambda>s.
      let info = info\<lparr>udma_mode := of_nat (builtin_ffs (ucast active_udma_mode)),
            lba28_addressable_sector_count :=
              ucast (identify_data 60) OR push_bit 16 (ucast (identify_data 61))\<rparr>;
          info = (if identify_data 83 AND push_bit 10 1 \<noteq> 0
            then info\<lparr>lba48_addressable_sector_count :=
                   ucast (identify_data 100) OR push_bit 16 (ucast (identify_data 101))
                   OR push_bit 32 (ucast (identify_data 102)) OR push_bit 48 (ucast (identify_data 103))\<rparr>
            else info)
      in Ok (info, s)))))"

definition identify_drive ::
  "device \<Rightarrow> channels \<Rightarrow> nat \<Rightarrow> memory \<Rightarrow> nat \<Rightarrow> nat \<Rightarrow> IDE_Drive_Info \<Rightarrow> hw \<Rightarrow> (IDE_Drive_Info \<times> hw) outcome" where
  "identify_drive dev C fuel m bus drive info s =
     (if missing info then Ok (info, s) else
      obind (ide_select_drive dev C bus (of_nat drive) s) (\<lambda>s.
      let s = out_8 (ATA_DEV_CONTROL C bus) 0x2 s;
          (status, s) = in_8 dev (ATA_STATUS C bus) s in
      obind (poll_while busy dev (ATA_STATUS C bus) fuel status s) (\<lambda>(status, s).
      let s = out_8 (ATA_SECTOR_COUNT C bus) 0 s;
          s = out_8 (ATA_LBALOW_OR_SECTORNUM C bus) 0 s;
          s = out_8 (ATA_LBAMID_OR_CYLINDERLOW C bus) 0 s;
          s = out_8 (ATA_LBAHIGH_OR_CYLINDERHIGH C bus) 0 s;
          s = out_8 (ATA_COMMAND C bus) ATA_COMMAND_IDENTIFY s in
      if status = 0 then Ok (info\<lparr>missing := True\<rparr>, s) else
      obind (poll_while busy dev (ATA_STATUS C bus) fuel status s) (\<lambda>(status, s).
      obind (poll_while not_identified dev (ATA_STATUS C bus) fuel status s) (\<lambda>(status, s).
      if status AND ATA_STATUS_ERROR \<noteq> 0 then Ok (info\<lparr>drive_type := DRIVE_TYPE_UNKNOWN\<rparr>, s)
      else
        (let (identify_data, s) = read_identify dev (ATA_DATA C bus) s
         in record_identify dev fuel m bus drive identify_data (info\<lparr>drive_type := DRIVE_TYPE_ATA\<rparr>) s))))))"

definition set_channels :: "bool \<Rightarrow> bool \<Rightarrow> u16 \<Rightarrow> u16 \<Rightarrow> u16 \<Rightarrow> u16 \<Rightarrow> channels \<Rightarrow> channels" where
  "set_channels primary_pci_native secondary_pci_native bar0 bar1 bar2 bar3 C =
     (let C = (if primary_pci_native
               then C(IDE_BUS_PRIM := (C IDE_BUS_PRIM)\<lparr>io_base := bar0, control_base := bar1\<rparr>)
               else C(IDE_BUS_PRIM := (C IDE_BUS_PRIM)\<lparr>io_base := 0x1F0, control_base := 0x3F6\<rparr>))
      in if secondary_pci_native
         then C(IDE_BUS_PRIM := (C IDE_BUS_PRIM)\<lparr>io_base := bar2, control_base := bar3\<rparr>)
         else C(IDE_BUS_SND := (C IDE_BUS_SND)\<lparr>io_base := 0x170, control_base := 0x376\<rparr>))"

definition mark_missing :: "nat \<Rightarrow> (nat \<Rightarrow> nat \<Rightarrow> IDE_Drive_Info) \<Rightarrow> (nat \<Rightarrow> nat \<Rightarrow> IDE_Drive_Info)" where
  "mark_missing bus D = D(bus := (D bus)(0 := (D bus 0)\<lparr>missing := True\<rparr>, 1 := (D bus 1)\<lparr>missing := True\<rparr>))"

fun identify_all ::
  "device \<Rightarrow> channels \<Rightarrow> nat \<Rightarrow> memory \<Rightarrow> (nat \<times> nat) list \<Rightarrow> (nat \<Rightarrow> nat \<Rightarrow> IDE_Drive_Info) \<Rightarrow> hw
     \<Rightarrow> ((nat \<Rightarrow> nat \<Rightarrow> IDE_Drive_Info) \<times> hw) outcome" where
  "identify_all dev C fuel m [] D s = Ok (D, s)"
| "identify_all dev C fuel m ((bus, drive) # rest) D s =
     obind (identify_drive dev C fuel m bus drive (D bus drive) s) (\<lambda>(info, s).
     identify_all dev C fuel m rest (D(bus := (D bus)(drive := info))) s)"

definition ide_init ::
  "device \<Rightarrow> nat \<Rightarrow> memory \<Rightarrow> bool \<Rightarrow> bool \<Rightarrow> u16 \<Rightarrow> u16 \<Rightarrow> u16 \<Rightarrow> u16 \<Rightarrow> u16 \<Rightarrow> ide_state
     \<Rightarrow> (bool \<times> ide_state) outcome" where
  "ide_init dev fuel m primary_pci_native secondary_pci_native bar0 bar1 bar2 bar3 bar4 st =
     (let C = set_channels primary_pci_native secondary_pci_native bar0 bar1 bar2 bar3 (ide_channels st);
          (primary_status, s) = in_8 dev (ATA_STATUS C IDE_BUS_PRIM) (ide_hw st);
          (secondary_status, s) = in_8 dev (ATA_STATUS C IDE_BUS_SND) s;
          D = ide_drives st;
          D = (if primary_status = 0xFF then mark_missing IDE_BUS_PRIM D else D);
          D = (if secondary_status = 0xFF then mark_missing IDE_BUS_SND D else D) in
      obind (identify_all dev C fuel m [(0, 0), (0, 1), (1, 0), (1, 1)] D s) (\<lambda>(D, s).
      Ok (True, \<lparr>ide_hw = s, ide_channels = C, ide_drives = D\<rparr>)))"

section \<open>Finding the controller\<close>

definition pci_native_fields :: "u32 \<Rightarrow> u8 \<times> u32 \<times> bool" where
  "pci_native_fields config =
     (let prog_if = ucast (drop_bit 8 config AND 0xFF) :: u8;
          w = False;
          (prog_if, config, w) =
            (if prog_if AND 0x2 \<noteq> 0
             then (let prog_if = prog_if OR 0x1 in (prog_if, config OR push_bit 8 (ucast prog_if), True))
             else (prog_if, config, w))
      in if prog_if AND 0x8 \<noteq> 0
         then (let prog_if = prog_if OR 0x4 in (prog_if, config OR push_bit 8 (ucast prog_if), True))
         else (prog_if, config, w))"

definition pci_init :: "device \<Rightarrow> nat \<Rightarrow> memory \<Rightarrow> ide_state \<Rightarrow> (bool \<times> ide_state) outcome" where
  "pci_init dev fuel m st =
     obind (pci_read_register dev 0 1 1 8 (ide_hw st)) (\<lambda>(config, s).
     let class_code = ucast (drop_bit 24 config AND 0xFF) :: u8;
         subclass = ucast (drop_bit 16 config AND 0xFF) :: u8 in
     obind (ASSERT (class_code = 1 \<and> subclass = 1) ''The device is not an IDE device.'') (\<lambda>_.
     let (prog_if, config, should_write_prog_if) = pci_native_fields config;
         primary_pci_native = (prog_if AND 0x1 \<noteq> 0);
         secondary_pci_native = (prog_if AND 0x4 \<noteq> 0) in
     obind (if should_write_prog_if then pci_write_register 0 1 1 8 config s else Ok s) (\<lambda>s.
     obind (pci_read_register dev 0 1 1 12 s) (\<lambda>(config, s).
     let header_type = ucast (drop_bit 24 config AND 0xFF) :: u8 in
     obind (ASSERT (header_type = 0) ''Unexpected header type.'') (\<lambda>_.
     obind (pci_read_register dev 0 1 1 16 s) (\<lambda>(bar0, s).
     obind (pci_read_register dev 0 1 1 20 s) (\<lambda>(bar1, s).
     obind (pci_read_register dev 0 1 1 24 s) (\<lambda>(bar2, s).
     obind (pci_read_register dev 0 1 1 28 s) (\<lambda>(bar3, s).
     obind (pci_read_register dev 0 1 1 32 s) (\<lambda>(bar4, s).
     ide_init dev fuel m primary_pci_native secondary_pci_native
       (ucast bar0) (ucast bar1) (ucast bar2) (ucast bar3) (ucast bar4) (st\<lparr>ide_hw := s\<rparr>)))))))))))"

section \<open>The drives of a channel\<close>

datatype transfer = Idle | Reading nat | Writing nat | Identifying nat

record drive =
  reg_drive :: u8
  reg_low :: u8
  reg_mid :: u8
  reg_high :: u8
  transfer :: transfer
  busy_polls :: nat
  sectors :: "bool \<Rightarrow> u32 \<Rightarrow> nat \<Rightarrow> u16"
  identity :: "bool \<Rightarrow> nat \<Rightarrow> u16"

definition drive_unit :: "drive \<Rightarrow> bool" where
  "drive_unit d = bit (reg_drive d) 4"

definition drive_lba :: "drive \<Rightarrow> u32" where
  "drive_lba d = push_bit 24 (ucast (reg_drive d AND 0xF)) OR push_bit 16 (ucast (reg_high d))
     OR push_bit 8 (ucast (reg_mid d)) OR ucast (reg_low d)"

text \<open>
  One access to a port of the channel at \<open>io\<close>. A transfer keeps the drive busy for \<open>delay\<close> reads of the
  status register, a cache flush for \<open>flush\<close> reads.
\<close>

definition drive_command :: "nat \<Rightarrow> nat \<Rightarrow> u8 \<Rightarrow> drive \<Rightarrow> drive" where
  "drive_command delay flush v d =
     (if v = ATA_COMMAND_READ_SECTORS then d\<lparr>transfer := Reading 0, busy_polls := delay\<rparr>
      else if v = ATA_COMMAND_WRITE_SECTORS then d\<lparr>transfer := Writing 0, busy_polls := delay\<rparr>
      else if v = ATA_COMMAND_CACHE_FLUSH then d\<lparr>transfer := Idle, busy_polls := flush\<rparr>
      else if v = ATA_COMMAND_IDENTIFY then d\<lparr>transfer := Identifying 0, busy_polls := delay\<rparr>
      else d\<lparr>transfer := Idle\<rparr>)"

definition next_word :: "nat \<Rightarrow> (nat \<Rightarrow> transfer) \<Rightarrow> transfer" where
  "next_word i t = (if i + 1 < 256 then t (i + 1) else Idle)"

fun drive_step :: "u16 \<Rightarrow> nat \<Rightarrow> nat \<Rightarrow> port_event \<Rightarrow> drive \<Rightarrow> drive" where
  "drive_step io delay flush (Out8 p v) d =
     (if busy_polls d > 0 then d
      else if p = io + 3 then d\<lparr>reg_low := v\<rparr>
      else if p = io + 4 then d\<lparr>reg_mid := v\<rparr>
      else if p = io + 5 then d\<lparr>reg_high := v\<rparr>
      else if p = io + 6 then d\<lparr>reg_drive := v\<rparr>
      else if p = io + 7 then drive_command delay flush v d
      else d)"
| "drive_step io delay flush (In8 p v) d = (if p = io + 7 then d\<lparr>busy_polls := busy_polls d - 1\<rparr> else d)"
| "drive_step io delay flush (In16 p v) d =
     (case transfer d of
        Reading i \<Rightarrow> if p = io \<and> busy_polls d = 0 then d\<lparr>transfer := next_word i Reading\<rparr> else d
      | Identifying i \<Rightarrow> if p = io \<and> busy_polls d = 0 then d\<lparr>transfer := next_word i Identifying\<rparr> else d
      | _ \<Rightarrow> d)"
| "drive_step io delay flush (Out16 p v) d =
     (case transfer d of
        Writing i \<Rightarrow>
          if p = io \<and> busy_polls d = 0
          then d\<lparr>transfer := next_word i Writing,
                 sectors := (sectors d)(drive_unit d := (sectors d (drive_unit d))(drive_lba d :=
                   (sectors d (drive_unit d) (drive_lba d))(i := v)))\<rparr>
          else d
      | _ \<Rightarrow> d)"
| "drive_step io delay flush _ d = d"

definition drive_after :: "u16 \<Rightarrow> nat \<Rightarrow> nat \<Rightarrow> drive \<Rightarrow> port_event list \<Rightarrow> drive" where
  "drive_after io delay flush d0 h = foldr (drive_step io delay flush) h d0"

definition answers_as_drive :: "device \<Rightarrow> u16 \<Rightarrow> nat \<Rightarrow> nat \<Rightarrow> drive \<Rightarrow> bool" where
  "answers_as_drive dev io delay flush d0 \<longleftrightarrow>
     (\<forall>h. let d = drive_after io delay flush d0 h; status = ucast (dev h (io + 7)) :: u8 in
        (busy status \<longleftrightarrow> busy_polls d > 0)
      \<and> (busy_polls d = 0 \<longrightarrow> status AND 0x21 = 0 \<and> (status AND 0x08 = 0 \<longleftrightarrow> transfer d = Idle)
           \<and> (\<forall>i. transfer d = Reading i \<longrightarrow>
                ucast (dev h io) = sectors d (drive_unit d) (drive_lba d) i)
           \<and> (\<forall>i. transfer d = Identifying i \<longrightarrow> ucast (dev h io) = identity d (drive_unit d) i)))"

text \<open>What the transfers rely on: a drive behind the channel, apart from the serial line, which is ready.\<close>

definition ata_channel :: "device \<Rightarrow> channels \<Rightarrow> nat \<Rightarrow> nat \<Rightarrow> nat \<Rightarrow> drive \<Rightarrow> bool" where
  "ata_channel dev C bus delay flush d0 \<longleftrightarrow>
     answers_as_drive dev (io_base (C bus)) delay flush d0 \<and> line_ready dev
   \<and> (\<forall>k \<in> {0, 3, 4, 5, 6, 7}. io_base (C bus) + k \<noteq> 0x3F8 \<and> io_base (C bus) + k \<noteq> 0x3FD)"

definition drive_at :: "channels \<Rightarrow> nat \<Rightarrow> nat \<Rightarrow> nat \<Rightarrow> drive \<Rightarrow> hw \<Rightarrow> drive" where
  "drive_at C bus delay flush d0 s = drive_after (io_base (C bus)) delay flush d0 (hw_ports s)"

section \<open>Port accesses and the drive\<close>

lemma drive_at_access [simp]:
  "drive_at C bus delay flush d0 (out_8 p v8 s) =
     drive_step (io_base (C bus)) delay flush (Out8 p v8) (drive_at C bus delay flush d0 s)"
  "drive_at C bus delay flush d0 (out_16 p v16 s) =
     drive_step (io_base (C bus)) delay flush (Out16 p v16) (drive_at C bus delay flush d0 s)"
  "drive_at C bus delay flush d0 (snd (in_8 dev p s)) =
     drive_step (io_base (C bus)) delay flush (In8 p (fst (in_8 dev p s))) (drive_at C bus delay flush d0 s)"
  "drive_at C bus delay flush d0 (snd (in_16 dev p s)) =
     drive_step (io_base (C bus)) delay flush (In16 p (fst (in_16 dev p s))) (drive_at C bus delay flush d0 s)"
  by (simp_all add: drive_at_def drive_after_def out_8_def out_16_def in_8_def in_16_def Let_def)

lemma drive_at_only_serial:
  assumes "ata_channel dev C bus delay flush d0" and "only_serial s s'"
  shows "drive_at C bus delay flush d0 s' = drive_at C bus delay flush d0 s"
proof -
  obtain evs where evs: "hw_ports s' = evs @ hw_ports s" "list_all serial_event evs"
    using assms(2) by (auto simp: only_serial_def)
  have step: "drive_step (io_base (C bus)) delay flush e d = d" if "serial_event e" for e d
    using that assms(1) by (cases e) (auto simp: ata_channel_def)
  have "foldr (drive_step (io_base (C bus)) delay flush) evs d = d" for d
    using evs(2) by (induction evs) (auto simp: step)
  then show ?thesis by (simp add: drive_at_def drive_after_def evs(1))
qed

lemma drive_at_print:
  assumes "ata_channel dev C bus delay flush d0" and "0 < fuel" and "hex_line (ascii fmt)"
  obtains s' where "fmt_print dev fuel m fmt [v] s = Ok s'"
    and "drive_at C bus delay flush d0 s' = drive_at C bus delay flush d0 s"
proof -
  have "line_ready dev" using assms(1) by (simp add: ata_channel_def)
  then obtain s' where "fmt_print dev fuel m fmt [v] s = Ok s'"
    using fmt_print_hex_line [OF _ assms(2,3)] by blast
  then show ?thesis using that drive_at_only_serial [OF assms(1) quiet.frame_fmt_print] by blast
qed

lemma status_read:
  fixes s :: hw
  assumes "ata_channel dev C bus delay flush d0"
  defines "d \<equiv> drive_at C bus delay flush d0 s" and "st \<equiv> fst (in_8 dev (ATA_STATUS C bus) s)"
  shows "busy st \<longleftrightarrow> busy_polls d > 0"
    and "busy_polls d = 0 \<Longrightarrow> not_settled st \<longleftrightarrow> transfer d = Idle"
    and "busy_polls d = 0 \<Longrightarrow> st AND 0x21 = 0"
proof -
  have a: "busy st \<longleftrightarrow> busy_polls d > 0"
    "busy_polls d = 0 \<longrightarrow> st AND 0x21 = 0 \<and> (st AND 0x08 = 0 \<longleftrightarrow> transfer d = Idle)"
    using assms(1) unfolding ata_channel_def answers_as_drive_def Let_def d_def st_def
    by (simp_all add: in_8_def Let_def ata_ports drive_at_def)
  then show "busy st \<longleftrightarrow> busy_polls d > 0" "busy_polls d = 0 \<Longrightarrow> st AND 0x21 = 0" by simp_all
  assume z: "busy_polls d = 0"
  have "(0x29 :: u8) = 0x21 OR 0x08" by simp
  then have "st AND 0x29 = (st AND 0x21) OR (st AND 0x08)" by (simp only: bit.conj_disj_distrib)
  then have "st AND 0x29 = st AND 0x08" using a(2) z by simp
  then show "not_settled st \<longleftrightarrow> transfer d = Idle" using a(2) z by (simp add: not_settled_def)
qed

section \<open>The steps of a transfer\<close>

lemma poll_busy:
  assumes "ata_channel dev C bus delay flush d0" and "busy_polls (drive_at C bus delay flush d0 s) < fuel"
  shows "\<exists>st s'. poll_while busy dev (ATA_STATUS C bus) fuel (fst (in_8 dev (ATA_STATUS C bus) s))
        (snd (in_8 dev (ATA_STATUS C bus) s)) = Ok (st, s')
    \<and> drive_at C bus delay flush d0 s' = (drive_at C bus delay flush d0 s)\<lparr>busy_polls := 0\<rparr>
    \<and> \<not> busy st \<and> st AND 0x21 = 0 \<and> (not_settled st \<longleftrightarrow> transfer (drive_at C bus delay flush d0 s) = Idle)"
  using assms(2)
proof (induction "busy_polls (drive_at C bus delay flush d0 s)" arbitrary: s fuel)
  case 0
  then obtain n where "fuel = Suc n" by (cases fuel) auto
  with status_read [OF assms(1), of s] "0.hyps" show ?case
    by (intro exI [of _ "fst (in_8 dev (ATA_STATUS C bus) s)"] exI [of _ "snd (in_8 dev (ATA_STATUS C bus) s)"])
       (simp add: ata_ports)
next
  case (Suc n)
  then obtain k where k: "fuel = Suc k" by (cases fuel) auto
  let ?s = "snd (in_8 dev (ATA_STATUS C bus) s)"
  have dr: "drive_at C bus delay flush d0 ?s = (drive_at C bus delay flush d0 s)\<lparr>busy_polls := n\<rparr>"
    using Suc.hyps(2) [symmetric] by (simp add: ata_ports)
  have b: "busy (fst (in_8 dev (ATA_STATUS C bus) s))"
    using status_read(1) [OF assms(1), of s] Suc.hyps(2) by simp
  have "\<exists>st s'. poll_while busy dev (ATA_STATUS C bus) k (fst (in_8 dev (ATA_STATUS C bus) ?s))
        (snd (in_8 dev (ATA_STATUS C bus) ?s)) = Ok (st, s')
    \<and> drive_at C bus delay flush d0 s' = (drive_at C bus delay flush d0 ?s)\<lparr>busy_polls := 0\<rparr>
    \<and> \<not> busy st \<and> st AND 0x21 = 0 \<and> (not_settled st \<longleftrightarrow> transfer (drive_at C bus delay flush d0 ?s) = Idle)"
    by (rule Suc.hyps(1)) (use dr Suc.hyps(2) Suc.prems k in simp_all)
  then show ?case using b k dr by (simp add: Let_def case_prod_unfold)
qed

lemma select_drive:
  assumes "drive = 0 \<or> drive = 1" and "busy_polls (drive_at C bus delay flush d0 s) \<le> 4"
  obtains s' where "ide_select_drive dev C bus drive s = Ok s'"
    and "busy_polls (drive_at C bus delay flush d0 s') = 0"
    and "sectors (drive_at C bus delay flush d0 s') = sectors (drive_at C bus delay flush d0 s)"
proof -
  define s1 where "s1 = out_8 (ATA_DRIVE_OR_HEAD C bus) (0xA OR push_bit 4 drive) s"
  let ?d = "drive_at C bus delay flush d0"
  have "?d (((\<lambda>s. snd (in_8 dev (ATA_STATUS C bus) s)) ^^ k) x) = (?d x)\<lparr>busy_polls := busy_polls (?d x) - k\<rparr>"
    for k x
    by (induction k) (simp_all add: ata_ports)
  moreover have "busy_polls (?d s1) \<le> 4" "sectors (?d s1) = sectors (?d s)"
    using assms(2) by (simp_all add: s1_def ata_ports)
  ultimately show ?thesis
    using assms(1) by (intro that [of "((\<lambda>s. snd (in_8 dev (ATA_STATUS C bus) s)) ^^ 4) s1"]) (simp_all add: ide_select_drive_def s1_def [symmetric])
qed

lemma transfer_registers:
  assumes "drive = 0 \<or> drive = (1 :: u8)" and "lba \<le> 0xFFFFFFF"
    and "reg_drive d = 0xA0 OR push_bit 4 drive OR 0x40 OR ucast (drop_bit 24 lba AND 0x0F :: u32)"
    and "reg_low d = ucast (lba AND 0xFF)" and "reg_mid d = ucast (drop_bit 8 lba AND 0xFF)"
    and "reg_high d = ucast (drop_bit 16 lba AND 0xFF)"
  shows "drive_unit d \<longleftrightarrow> drive = 1" and "drive_lba d = lba"
proof -
  have m: "(0xFF :: u32) = mask 8" "(0xF :: u32) = mask 4" "(0xF :: u8) = mask 4"
    by (simp_all add: mask_eq_exp_minus_1)
  have big: "bit (0xA0 :: u8) n \<longleftrightarrow> n = 5 \<or> n = 7" "bit (0x40 :: u8) n \<longleftrightarrow> n = 6" for n
  proof -
    have e: "(0xA0 :: u8) = push_bit 5 1 OR push_bit 7 1" "(0x40 :: u8) = push_bit 6 1" by simp_all
    show "bit (0xA0 :: u8) n \<longleftrightarrow> n = 5 \<or> n = 7"
      unfolding e(1) bit_or_iff bit_push_bit_iff bit_1_iff by auto
    show "bit (0x40 :: u8) n \<longleftrightarrow> n = 6"
      unfolding e(2) bit_push_bit_iff bit_1_iff by auto
  qed
  show "drive_unit d \<longleftrightarrow> drive = 1"
    using assms(1) by (auto simp: drive_unit_def assms(3) m big bit_simps)
  have low: "reg_drive d AND 0xF = ucast (drop_bit 24 lba AND 0xF)"
    unfolding assms(3) m
    by (rule bit_word_eqI)
       (auto simp only: big bit_or_iff bit_and_iff bit_push_bit_iff bit_ucast_iff bit_mask_iff possible_bit_word)
  have top: "n < 28" if "bit lba n" for n
  proof -
    have "lba = take_bit 28 lba"
      using assms(2) by (simp add: word_unat_eq_iff unat_take_bit word_le_nat_alt)
    then show ?thesis using that by (metis bit_take_bit_iff not_le)
  qed
  show "drive_lba d = lba"
    unfolding drive_lba_def low assms(4-6) unfolding m
  proof (rule bit_word_eqI)
    fix n :: nat
    consider "n < 8" | "8 \<le> n" "n < 16" | "16 \<le> n" "n < 24" | "24 \<le> n" by linarith
    then show "bit (push_bit 24 (ucast (ucast (drop_bit 24 lba AND mask 4) :: u8)) OR
        push_bit 16 (ucast (ucast (drop_bit 16 lba AND mask 8) :: u8)) OR
        push_bit 8 (ucast (ucast (drop_bit 8 lba AND mask 8) :: u8)) OR
        ucast (ucast (lba AND mask 8) :: u8) :: u32) n = bit lba n"
      by cases (use top [of n] in \<open>auto simp: bit_simps\<close>)
  qed
qed

lemma hex_lines:
  "hex_line (ascii (''%hhx'' @ newline))" "hex_line (ascii (''Error: %hhx'' @ newline))"
  by (simp_all add: hex_line_def ascii_def newline_def)

lemma prepare_transfer:
  assumes "ata_channel dev C bus delay flush d0" and "drive = 0 \<or> drive = 1" and "lba \<le> 0xFFFFFFF"
    and "busy_polls (drive_at C bus delay flush d0 s) = 0" and "0 < fuel"
  obtains s' where "ata_prepare_transfer dev C fuel m bus drive lba s = Ok s'"
    and "busy_polls (drive_at C bus delay flush d0 s') = 0"
    and "sectors (drive_at C bus delay flush d0 s') = sectors (drive_at C bus delay flush d0 s)"
    and "drive_unit (drive_at C bus delay flush d0 s') \<longleftrightarrow> drive = 1"
    and "drive_lba (drive_at C bus delay flush d0 s') = lba"
proof -
  define s1 where "s1 = out_8 (ATA_SECTOR_COUNT C bus) 1 (out_8 (ATA_DRIVE_OR_HEAD C bus)
    (0xA0 OR push_bit 4 drive OR 0x40 OR ucast (drop_bit 24 lba AND 0x0F)) s)"
  define s2 where "s2 = snd (in_8 dev (ATA_SECTOR_COUNT C bus) s1)"
  let ?d = "drive_at C bus delay flush d0"
  obtain s3 where s3: "fmt_print dev fuel m (''%hhx'' @ newline) [ucast (fst (in_8 dev (ATA_SECTOR_COUNT C bus) s1))] s2 = Ok s3"
    "?d s3 = ?d s2"
    by (rule drive_at_print [OF assms(1,5) hex_lines(1)])
  define s' where "s' = out_8 (ATA_LBAHIGH_OR_CYLINDERHIGH C bus) (ucast (drop_bit 16 lba AND 0xFF))
    (out_8 (ATA_LBAMID_OR_CYLINDERLOW C bus) (ucast (drop_bit 8 lba AND 0xFF))
    (out_8 (ATA_LBALOW_OR_SECTORNUM C bus) (ucast (lba AND 0xFF)) s3))"
  have d: "?d s' = (?d s)\<lparr>reg_drive := 0xA0 OR push_bit 4 drive OR 0x40 OR ucast (drop_bit 24 lba AND 0x0F),
      reg_low := ucast (lba AND 0xFF), reg_mid := ucast (drop_bit 8 lba AND 0xFF),
      reg_high := ucast (drop_bit 16 lba AND 0xFF)\<rparr>"
    by (simp add: s'_def s3(2) s2_def s1_def ata_ports assms(4))
  have "ata_prepare_transfer dev C fuel m bus drive lba s = Ok s'"
    using assms(2,3) s3(1)
    by (simp add: ata_prepare_transfer_def Let_def case_prod_unfold s1_def s2_def s'_def)
  then show ?thesis
    using d assms(4) transfer_registers [OF assms(2,3), of "?d s'"]
    by (intro that [of s']) simp_all
qed

lemma out_command:
  assumes "busy_polls (drive_at C bus delay flush d0 s) = 0"
  shows "drive_at C bus delay flush d0 (out_8 (ATA_COMMAND C bus) v s) =
    drive_command delay flush v (drive_at C bus delay flush d0 s)"
  using assms by (simp add: ata_ports)

lemma start_transfer:
  assumes "ata_channel dev C bus delay flush d0" and "drive = 0 \<or> drive = 1" and "lba \<le> 0xFFFFFFF"
    and "busy_polls (drive_at C bus delay flush d0 s) \<le> 4" and "delay < fuel"
    and "(command, t) \<in> {(ATA_COMMAND_READ_SECTORS, Reading 0), (ATA_COMMAND_WRITE_SECTORS, Writing 0)}"
  obtains status s' where "ata_start dev C fuel m bus drive lba command s = Ok (status, s')"
    and "\<not> busy status" and "busy_polls (drive_at C bus delay flush d0 s') = 0"
    and "transfer (drive_at C bus delay flush d0 s') = t"
    and "sectors (drive_at C bus delay flush d0 s') = sectors (drive_at C bus delay flush d0 s)"
    and "drive_unit (drive_at C bus delay flush d0 s') \<longleftrightarrow> drive = 1"
    and "drive_lba (drive_at C bus delay flush d0 s') = lba"
proof -
  let ?d = "drive_at C bus delay flush d0"
  obtain s1 where s1: "ide_select_drive dev C bus drive s = Ok s1" "busy_polls (?d s1) = 0"
    "sectors (?d s1) = sectors (?d s)"
    using select_drive [OF assms(2), of C bus delay flush d0 s dev] assms(4) by blast
  obtain s2 where s2: "ata_prepare_transfer dev C fuel m bus drive lba s1 = Ok s2" "busy_polls (?d s2) = 0"
    "sectors (?d s2) = sectors (?d s1)" "drive_unit (?d s2) \<longleftrightarrow> drive = 1" "drive_lba (?d s2) = lba"
    using prepare_transfer [OF assms(1,2,3) s1(2), of fuel m] assms(5) by auto
  define s3 where "s3 = out_8 (ATA_COMMAND C bus) command s2"
  have d3: "?d s3 = (?d s2)\<lparr>transfer := t, busy_polls := delay\<rparr>"
    using out_command [OF s2(2)] assms(6) by (auto simp: s3_def drive_command_def)
  obtain st s4 where s4: "poll_while busy dev (ATA_STATUS C bus) fuel (fst (in_8 dev (ATA_STATUS C bus) s3))
      (snd (in_8 dev (ATA_STATUS C bus) s3)) = Ok (st, s4)"
    "?d s4 = (?d s3)\<lparr>busy_polls := 0\<rparr>" "\<not> busy st" "st AND 0x21 = 0"
    "not_settled st \<longleftrightarrow> transfer (?d s3) = Idle"
    using poll_busy [OF assms(1), of s3 fuel] assms(5) d3 by auto
  have ns: "\<not> not_settled st" using s4(5) d3 assms(6) by auto
  obtain n where n: "fuel = Suc n" using assms(5) by (cases fuel) auto
  have "ata_start dev C fuel m bus drive lba command s = Ok (st, s4)"
    using s1(1) s2(1) s4(1,4) ns
    by (simp add: ata_start_def Let_def case_prod_unfold s3_def n)
  then show ?thesis
    using s4 d3 s2 s1(3) by (intro that [of st s4]) (simp_all add: drive_unit_def drive_lba_def)
qed

section \<open>The data of a sector\<close>

definition sector_byte :: "(nat \<Rightarrow> u16) \<Rightarrow> nat \<Rightarrow> u8" where
  "sector_byte ws j = (if even j then ucast (ws (j div 2)) else ucast (drop_bit 8 (ws (j div 2))))"

lemma sector_byte_ld16: "sector_byte (\<lambda>i. ld16 m (a + 2 * i)) j = m (a + j)"
proof (cases "even j")
  case True
  then have "2 * (j div 2) = j" by simp
  then have "ucast (ld16 m (a + j)) = m (a + j)"
    by (intro bit_word_eqI) (auto simp: ld16_def bit_simps)
  with True \<open>2 * (j div 2) = j\<close> show ?thesis by (simp add: sector_byte_def)
next
  case False
  then have e: "2 * (j div 2) + 1 = j" by presburger
  have "ucast (drop_bit 8 (ld16 m (a + 2 * (j div 2)))) = m (a + 2 * (j div 2) + 1)"
    by (rule bit_word_eqI) (auto simp: ld16_def bit_simps dest: bit_imp_le_length)
  moreover have "a + 2 * (j div 2) + 1 = a + j" using e by simp
  ultimately show ?thesis using False by (simp only: sector_byte_def if_False)
qed

lemma sector_byte_prefix:
  "j < 2 * k \<Longrightarrow> sector_byte (\<lambda>i. if i < k then ws i else ws' i) j = sector_byte ws j"
  by (simp add: sector_byte_def less_mult_imp_div_less mult.commute)

lemma st16_sector_byte:
  assumes "\<forall>x. m x = (if a \<le> x \<and> x < a + 2 * k then sector_byte ws (x - a) else m0 x)"
  shows "st16 m (a + 2 * k) (ws k) x =
    (if a \<le> x \<and> x < a + 2 * Suc k then sector_byte ws (x - a) else m0 x)"
proof -
  consider "x = a + 2 * k" | "x = a + 2 * k + 1" | "x < a + 2 * k \<or> a + 2 * k + 2 \<le> x" by linarith
  then show ?thesis
  proof cases
    case 3
    then have "st16 m (a + 2 * k) (ws k) x = m x" by (simp add: cell16.st_frame)
    with 3 assms show ?thesis by auto
  qed (simp_all add: st16_def sector_byte_def)
qed

lemma read_words:
  fixes buffer :: nat
  assumes "ata_channel dev C bus delay flush d0" and "busy_polls (drive_at C bus delay flush d0 s) = 0"
    and "transfer (drive_at C bus delay flush d0 s) = Reading 0" and "k \<le> 256"
  defines "ws \<equiv> sectors (drive_at C bus delay flush d0 s) (drive_unit (drive_at C bus delay flush d0 s))
      (drive_lba (drive_at C bus delay flush d0 s))"
    and "f \<equiv> \<lambda>i (m, s). let (v, s) = in_16 dev (ATA_DATA C bus) s in (st16 m (buffer + 2 * i) v, s)"
  shows "\<exists>m' s'. fold f [0..<k] (m, s) = (m', s')
    \<and> (\<forall>x. m' x = (if buffer \<le> x \<and> x < buffer + 2 * k then sector_byte ws (x - buffer) else m x))
    \<and> drive_at C bus delay flush d0 s' =
        (drive_at C bus delay flush d0 s)\<lparr>transfer := (if k < 256 then Reading k else Idle)\<rparr>"
  using assms(4)
proof (induction k)
  case 0
  then show ?case using assms(3) by (auto simp: f_def)
next
  case (Suc k)
  let ?d = "drive_at C bus delay flush d0"
  obtain m1 s1 where IH: "fold f [0..<k] (m, s) = (m1, s1)"
    "\<forall>x. m1 x = (if buffer \<le> x \<and> x < buffer + 2 * k then sector_byte ws (x - buffer) else m x)"
    "?d s1 = (?d s)\<lparr>transfer := Reading k\<rparr>"
    using Suc by auto
  have v: "fst (in_16 dev (ATA_DATA C bus) s1) = ws k"
    using assms(1,2) IH(3) unfolding ata_channel_def answers_as_drive_def Let_def
    by (simp add: in_16_def Let_def ata_ports ws_def drive_unit_def drive_lba_def drive_at_def)
  have "?d (snd (in_16 dev (ATA_DATA C bus) s1)) = (?d s)\<lparr>transfer := (if Suc k < 256 then Reading (Suc k) else Idle)\<rparr>"
    using IH(3) assms(2) by (simp add: ata_ports next_word_def)
  moreover have "fold f [0..<Suc k] (m, s) = (st16 m1 (buffer + 2 * k) (ws k), snd (in_16 dev (ATA_DATA C bus) s1))"
    using IH(1) v by (simp add: f_def Let_def case_prod_unfold)
  ultimately show ?case using st16_sector_byte [OF IH(2)] by auto
qed

lemma write_words:
  assumes "busy_polls (drive_at C bus delay flush d0 s) = 0"
    and "transfer (drive_at C bus delay flush d0 s) = Writing 0" and "k \<le> 256"
  defines "d \<equiv> drive_at C bus delay flush d0 s"
  shows "drive_at C bus delay flush d0 (fold (\<lambda>i. out_16 (ATA_DATA C bus) (ws i)) [0..<k] s) =
    d\<lparr>transfer := (if k < 256 then Writing k else Idle),
      sectors := (sectors d)(drive_unit d := (sectors d (drive_unit d))(drive_lba d :=
        (\<lambda>i. if i < k then ws i else sectors d (drive_unit d) (drive_lba d) i)))\<rparr>"
  using assms(3)
proof (induction k)
  case 0
  then show ?case using assms(2) by (simp add: d_def)
next
  case (Suc k)
  then show ?case
    using assms(1) by (simp add: d_def ata_ports next_word_def drive_unit_def drive_lba_def fun_eq_iff less_Suc_eq)
qed

section \<open>Reading and writing a sector\<close>

definition sector_of :: "channels \<Rightarrow> nat \<Rightarrow> nat \<Rightarrow> nat \<Rightarrow> drive \<Rightarrow> u8 \<Rightarrow> hw \<Rightarrow> u32 \<Rightarrow> nat \<Rightarrow> u8" where
  "sector_of C bus delay flush d0 drive s lba = sector_byte (sectors (drive_at C bus delay flush d0 s) (drive = 1) lba)"

lemma read_sector_spec:
  assumes "ata_channel dev C bus delay flush d0" and "drive = 0 \<or> drive = 1" and "lba \<le> 0xFFFFFFF"
    and "busy_polls (drive_at C bus delay flush d0 s) \<le> 4" and "delay < fuel"
  shows "\<exists>m' s'. ata_read_sector dev C fuel bus drive lba buffer m s = Ok (m', s')
    \<and> (\<forall>x. m' x = (if buffer \<le> x \<and> x < buffer + 512
         then sector_of C bus delay flush d0 drive s lba (x - buffer) else m x))
    \<and> sectors (drive_at C bus delay flush d0 s') = sectors (drive_at C bus delay flush d0 s)
    \<and> busy_polls (drive_at C bus delay flush d0 s') = 0"
proof -
  let ?d = "drive_at C bus delay flush d0"
  obtain st s1 where s1: "ata_start dev C fuel m bus drive lba ATA_COMMAND_READ_SECTORS s = Ok (st, s1)"
    "busy_polls (?d s1) = 0" "transfer (?d s1) = Reading 0" "sectors (?d s1) = sectors (?d s)"
    "drive_unit (?d s1) \<longleftrightarrow> drive = 1" "drive_lba (?d s1) = lba"
    using start_transfer [OF assms, of ATA_COMMAND_READ_SECTORS "Reading 0" m, simplified] by blast
  show ?thesis
    using read_words [OF assms(1) s1(2,3), of 256 buffer m] s1
    by (auto simp: ata_read_sector_def sector_of_def)
qed

lemma write_sector_spec:
  assumes "ata_channel dev C bus delay flush d0" and "drive = 0 \<or> drive = 1" and "lba \<le> 0xFFFFFFF"
    and "busy_polls (drive_at C bus delay flush d0 s) \<le> 4" and "delay < fuel"
  shows "\<exists>s'. ata_write_sector dev C fuel bus drive lba buffer m s = Ok s'
    \<and> (\<forall>l j. j < 512 \<longrightarrow> sector_of C bus delay flush d0 drive s' l j =
         (if l = lba then m (buffer + j) else sector_of C bus delay flush d0 drive s l j))
    \<and> sectors (drive_at C bus delay flush d0 s') (drive \<noteq> 1) = sectors (drive_at C bus delay flush d0 s) (drive \<noteq> 1)
    \<and> busy_polls (drive_at C bus delay flush d0 s') = flush \<and> transfer (drive_at C bus delay flush d0 s') = Idle"
proof -
  let ?d = "drive_at C bus delay flush d0"
  obtain st s1 where s1: "ata_start dev C fuel m bus drive lba ATA_COMMAND_WRITE_SECTORS s = Ok (st, s1)"
    "\<not> busy st" "busy_polls (?d s1) = 0" "transfer (?d s1) = Writing 0" "sectors (?d s1) = sectors (?d s)"
    "drive_unit (?d s1) \<longleftrightarrow> drive = 1" "drive_lba (?d s1) = lba"
    using start_transfer [OF assms, of ATA_COMMAND_WRITE_SECTORS "Writing 0" m, simplified] by blast
  define s2 where "s2 = fold (\<lambda>i. out_16 (ATA_DATA C bus) (ld16 m (buffer + 2 * i))) [0..<256] s1"
  define s3 where "s3 = out_8 (ATA_COMMAND C bus) ATA_COMMAND_CACHE_FLUSH s2"
  obtain n where n: "fuel = Suc n" using assms(5) by (cases fuel) auto
  have w: "ata_write_sector dev C fuel bus drive lba buffer m s = Ok s3"
    using s1(1,2) by (simp add: ata_write_sector_def Let_def n s2_def s3_def)
  have d2: "?d s2 = (?d s1)\<lparr>transfer := Idle, sectors := (sectors (?d s))(drive = 1 := (sectors (?d s) (drive = 1))(lba :=
      (\<lambda>i. if i < 256 then ld16 m (buffer + 2 * i) else sectors (?d s) (drive = 1) lba i)))\<rparr>"
    using write_words [OF s1(3,4), of 256] s1(5-7) by (simp add: s2_def cong: if_cong)
  then have "busy_polls (?d s2) = 0" using s1(3) by simp
  then have d3: "?d s3 = (?d s2)\<lparr>transfer := Idle, busy_polls := flush\<rparr>"
    unfolding s3_def by (subst out_command) (simp_all add: drive_command_def)
  have "sector_of C bus delay flush d0 drive s3 l j =
      (if l = lba then m (buffer + j) else sector_of C bus delay flush d0 drive s l j)" if "j < 512" for l j
    using that sector_byte_ld16 [of m buffer j]
      sector_byte_prefix [of j 256 "\<lambda>i. ld16 m (buffer + 2 * i)" "sectors (?d s) (drive = 1) lba"]
    by (simp add: sector_of_def d3 d2)
  then show ?thesis using w d3 d2 by (intro exI [of _ s3]) simp
qed

section \<open>A disk made of sectors\<close>

text \<open>
  What a client of the driver relies on: sectors of 512 bytes that are read and written whole, each transfer
  touching its sector and its buffer only.
\<close>

locale sector_disk =
  fixes rd :: "u32 \<Rightarrow> nat \<Rightarrow> memory \<Rightarrow> 'h \<Rightarrow> (memory \<times> 'h) outcome"
    and wr :: "u32 \<Rightarrow> nat \<Rightarrow> memory \<Rightarrow> 'h \<Rightarrow> 'h outcome"
    and ok :: "'h \<Rightarrow> bool"
    and disk :: "'h \<Rightarrow> u32 \<Rightarrow> nat \<Rightarrow> u8"
  assumes sector_read: "ok h \<Longrightarrow> lba \<le> 0xFFFFFFF \<Longrightarrow> \<exists>m' h'. rd lba buffer m h = Ok (m', h') \<and> ok h'
      \<and> disk h' = disk h \<and> (\<forall>x. m' x = (if buffer \<le> x \<and> x < buffer + 512 then disk h lba (x - buffer) else m x))"
    and sector_write: "ok h \<Longrightarrow> lba \<le> 0xFFFFFFF \<Longrightarrow> \<exists>h'. wr lba buffer m h = Ok h' \<and> ok h'
      \<and> (\<forall>l j. j < 512 \<longrightarrow> disk h' l j = (if l = lba then m (buffer + j) else disk h l j))"
begin

lemma sector_write_then_read:
  assumes "ok h" and "lba \<le> 0xFFFFFFF"
  shows "\<exists>h' m2 h2. wr lba buffer m h = Ok h' \<and> rd lba dst m' h' = Ok (m2, h2) \<and> ok h2
    \<and> (\<forall>j < 512. m2 (dst + j) = m (buffer + j)) \<and> (\<forall>x. x < dst \<or> dst + 512 \<le> x \<longrightarrow> m2 x = m' x)
    \<and> (\<forall>l j. j < 512 \<and> l \<noteq> lba \<longrightarrow> disk h2 l j = disk h l j)"
proof -
  obtain h' where w: "wr lba buffer m h = Ok h'" "ok h'"
    "\<forall>l j. j < 512 \<longrightarrow> disk h' l j = (if l = lba then m (buffer + j) else disk h l j)"
    using sector_write [OF assms] by blast
  moreover obtain m2 h2 where "rd lba dst m' h' = Ok (m2, h2)" "ok h2" "disk h2 = disk h'"
    "\<forall>x. m2 x = (if dst \<le> x \<and> x < dst + 512 then disk h' lba (x - dst) else m' x)"
    using sector_read [OF w(2) assms(2)] by blast
  ultimately show ?thesis by (intro exI [of _ h'] exI [of _ m2] exI [of _ h2]) auto
qed

end

text \<open>
  The driver is such a disk when the drive finishes a cache flush within the four status reads of a drive
  selection: the driver does not wait for the flush.
\<close>

definition ata_ready :: "device \<Rightarrow> channels \<Rightarrow> nat \<Rightarrow> nat \<Rightarrow> u8 \<Rightarrow> nat \<Rightarrow> nat \<Rightarrow> drive \<Rightarrow> hw \<Rightarrow> bool" where
  "ata_ready dev C fuel bus drive delay flush d0 s \<longleftrightarrow> ata_channel dev C bus delay flush d0
     \<and> (drive = 0 \<or> drive = 1) \<and> delay < fuel \<and> flush \<le> 4 \<and> busy_polls (drive_at C bus delay flush d0 s) \<le> 4"

interpretation ata: sector_disk "ata_read_sector dev C fuel bus drive" "ata_write_sector dev C fuel bus drive"
    "ata_ready dev C fuel bus drive delay flush d0" "sector_of C bus delay flush d0 drive"
  for dev C fuel bus drive delay flush d0
proof (unfold_locales, goal_cases)
  case (1 h lba buffer m)
  then have c: "ata_channel dev C bus delay flush d0" "drive = 0 \<or> drive = 1"
      "busy_polls (drive_at C bus delay flush d0 h) \<le> 4" "delay < fuel"
    by (auto simp: ata_ready_def)
  obtain m' s' where r: "ata_read_sector dev C fuel bus drive lba buffer m h = Ok (m', s')"
    "\<forall>x. m' x = (if buffer \<le> x \<and> x < buffer + 512
       then sector_of C bus delay flush d0 drive h lba (x - buffer) else m x)"
    "sectors (drive_at C bus delay flush d0 s') = sectors (drive_at C bus delay flush d0 h)"
    "busy_polls (drive_at C bus delay flush d0 s') = 0"
    using read_sector_spec [OF c(1,2) 1(2) c(3,4)] by blast
  have "sector_of C bus delay flush d0 drive s' = sector_of C bus delay flush d0 drive h"
    by (simp add: sector_of_def r(3) fun_eq_iff)
  moreover have "ata_ready dev C fuel bus drive delay flush d0 s'"
    using 1(1) r(4) by (simp add: ata_ready_def)
  ultimately show ?case using r(1,2) by blast
next
  case (2 h lba buffer m)
  then show ?case
    using write_sector_spec [of dev C bus delay flush d0 drive lba h fuel buffer m]
    by (auto simp: ata_ready_def)
qed

section \<open>A device that answers as a drive\<close>

definition drive_device :: "u16 \<Rightarrow> nat \<Rightarrow> nat \<Rightarrow> drive \<Rightarrow> device" where
  "drive_device io delay flush d0 h p =
     (let d = drive_after io delay flush d0 h in
      if p = io + 7 then (if busy_polls d > 0 then 0x80 else if transfer d = Idle then 0x50 else 0x58)
      else if p = io then
        (case transfer d of
           Reading i \<Rightarrow> ucast (sectors d (drive_unit d) (drive_lba d) i)
         | Identifying i \<Rightarrow> ucast (identity d (drive_unit d) i)
         | _ \<Rightarrow> 0)
      else 0x20)"

definition blank_drive :: drive where
  "blank_drive = \<lparr>reg_drive = 0, reg_low = 0, reg_mid = 0, reg_high = 0, transfer = Idle, busy_polls = 0,
     sectors = (\<lambda>u l i. 0), identity = (\<lambda>u i. 0)\<rparr>"

definition legacy_channels :: channels where
  "legacy_channels = (\<lambda>bus. if bus = 0 then \<lparr>io_base = 0x1F0, control_base = 0x3F6, bus_master = 0\<rparr>
     else \<lparr>io_base = 0x170, control_base = 0x376, bus_master = 0\<rparr>)"

lemma drive_device_channel:
  "ata_channel (drive_device 0x1F0 delay flush d0) legacy_channels 0 delay flush d0"
proof -
  have up: "ucast (ucast w :: u32) = w" for w :: u16
    by (rule bit_word_eqI) (auto simp: bit_simps)
  show ?thesis
    by (auto simp: up ata_channel_def answers_as_drive_def legacy_channels_def line_ready_def drive_device_def
        Let_def busy_def)
qed

section \<open>Properties\<close>

text \<open>
  (C7) What is written to a sector is read back. On a channel whose drive follows the ATA protocol and
  finishes a cache flush within four reads of its status, \<open>ata_write_sector\<close> followed by
  \<open>ata_read_sector\<close> of the same sector returns, fills the buffer with the 512 bytes written, changes no other
  byte of memory and no other sector.
\<close>

theorem ata_write_then_read:
  assumes "ata_channel dev C bus delay flush d0" and "drive = 0 \<or> drive = 1" and "lba \<le> 0xFFFFFFF"
    and "delay < fuel" and "flush \<le> 4" and "busy_polls (drive_at C bus delay flush d0 s) \<le> 4"
  shows "\<exists>s' m2 s2. ata_write_sector dev C fuel bus drive lba src m s = Ok s'
    \<and> ata_read_sector dev C fuel bus drive lba dst m' s' = Ok (m2, s2)
    \<and> (\<forall>j < 512. m2 (dst + j) = m (src + j)) \<and> (\<forall>x. x < dst \<or> dst + 512 \<le> x \<longrightarrow> m2 x = m' x)
    \<and> (\<forall>l j. j < 512 \<and> l \<noteq> lba \<longrightarrow>
         sector_of C bus delay flush d0 drive s2 l j = sector_of C bus delay flush d0 drive s l j)"
  using ata.sector_write_then_read [of dev C fuel bus drive delay flush d0 s lba src m dst m'] assms
  by (simp add: ata_ready_def) blast

theorem ata_write_then_read_witness:
  "\<exists>s' m2 s2. ata_write_sector (drive_device 0x1F0 3 2 blank_drive) legacy_channels 5 0 0 7 0x1000 (\<lambda>x. of_nat x) hw_start = Ok s'
    \<and> ata_read_sector (drive_device 0x1F0 3 2 blank_drive) legacy_channels 5 0 0 7 0x2000 (\<lambda>x. 0) s' = Ok (m2, s2)
    \<and> (\<forall>j < 512. m2 (0x2000 + j) = of_nat (0x1000 + j))"
proof -
  have "busy_polls (drive_at legacy_channels 0 3 2 blank_drive hw_start) \<le> 4"
    by (simp add: drive_at_def drive_after_def hw_start_def blank_drive_def)
  from ata_write_then_read [OF drive_device_channel _ _ _ _ this, of 0 7 5 "0x1000" "\<lambda>x. of_nat x" "0x2000" "\<lambda>x. 0"]
  show ?thesis by auto
qed

lemma poll_settled_never:
  assumes "ata_channel dev C bus delay flush d0" and "not_settled st"
    and "busy_polls (drive_at C bus delay flush d0 s) = 0" and "transfer (drive_at C bus delay flush d0 s) = Idle"
  shows "poll_while not_settled dev (ATA_STATUS C bus) fuel st s = Diverged"
  using assms(2-4)
proof (induction fuel arbitrary: st s)
  case 0
  then show ?case by simp
next
  case (Suc fuel)
  let ?s = "snd (in_8 dev (ATA_STATUS C bus) s)"
  have d: "drive_at C bus delay flush d0 ?s = drive_at C bus delay flush d0 s"
    using Suc.prems(2) by (simp add: ata_ports)
  have "not_settled (fst (in_8 dev (ATA_STATUS C bus) s))"
    using status_read(2) [OF assms(1) Suc.prems(2)] Suc.prems(3) by simp
  then have "poll_while not_settled dev (ATA_STATUS C bus) fuel (fst (in_8 dev (ATA_STATUS C bus) s)) ?s = Diverged"
    using Suc.prems(2,3) d by (intro Suc.IH) simp_all
  then show ?case using Suc.prems(1) by (simp add: Let_def case_prod_unfold)
qed

lemma poll_busy_diverges:
  assumes "ata_channel dev C bus delay flush d0" and "fuel \<le> busy_polls (drive_at C bus delay flush d0 s)"
  shows "poll_while busy dev (ATA_STATUS C bus) fuel (fst (in_8 dev (ATA_STATUS C bus) s))
    (snd (in_8 dev (ATA_STATUS C bus) s)) = Diverged"
  using assms(2)
proof (induction fuel arbitrary: s)
  case 0
  then show ?case by simp
next
  case (Suc fuel)
  let ?s = "snd (in_8 dev (ATA_STATUS C bus) s)"
  have "busy (fst (in_8 dev (ATA_STATUS C bus) s))"
    using status_read(1) [OF assms(1)] Suc.prems by simp
  moreover have "fuel \<le> busy_polls (drive_at C bus delay flush d0 ?s)"
    using Suc.prems by (simp add: ata_ports)
  ultimately show ?case using Suc.IH by (simp add: Let_def case_prod_unfold)
qed

lemma prepare_busy:
  assumes "ata_channel dev C bus delay flush d0" and "drive = 0 \<or> drive = 1" and "lba \<le> 0xFFFFFFF"
    and "0 < busy_polls (drive_at C bus delay flush d0 s)" and "0 < fuel"
  obtains s' where "ata_prepare_transfer dev C fuel m bus drive lba s = Ok s'"
    and "drive_at C bus delay flush d0 s' = drive_at C bus delay flush d0 s"
proof -
  define s1 where "s1 = out_8 (ATA_SECTOR_COUNT C bus) 1 (out_8 (ATA_DRIVE_OR_HEAD C bus)
    (0xA0 OR push_bit 4 drive OR 0x40 OR ucast (drop_bit 24 lba AND 0x0F)) s)"
  define s2 where "s2 = snd (in_8 dev (ATA_SECTOR_COUNT C bus) s1)"
  let ?d = "drive_at C bus delay flush d0"
  obtain s3 where s3: "fmt_print dev fuel m (''%hhx'' @ newline) [ucast (fst (in_8 dev (ATA_SECTOR_COUNT C bus) s1))] s2 = Ok s3"
    "?d s3 = ?d s2"
    by (rule drive_at_print [OF assms(1,5) hex_lines(1)])
  define s' where "s' = out_8 (ATA_LBAHIGH_OR_CYLINDERHIGH C bus) (ucast (drop_bit 16 lba AND 0xFF))
    (out_8 (ATA_LBAMID_OR_CYLINDERLOW C bus) (ucast (drop_bit 8 lba AND 0xFF))
    (out_8 (ATA_LBALOW_OR_SECTORNUM C bus) (ucast (lba AND 0xFF)) s3))"
  have "ata_prepare_transfer dev C fuel m bus drive lba s = Ok s'"
    using assms(2,3) s3(1)
    by (simp add: ata_prepare_transfer_def Let_def case_prod_unfold s1_def s2_def s'_def)
  moreover have "?d s' = ?d s"
    by (simp add: s'_def s3(2) s2_def s1_def ata_ports assms(4))
  ultimately show ?thesis by (rule that)
qed

lemma start_busy_diverges:
  assumes "ata_channel dev C bus delay flush d0" and "drive = 0 \<or> drive = 1" and "lba \<le> 0xFFFFFFF"
    and "4 < busy_polls (drive_at C bus delay flush d0 s)" and "transfer (drive_at C bus delay flush d0 s) = Idle"
    and "0 < fuel"
  shows "ata_start dev C fuel m bus drive lba command s = Diverged"
proof -
  let ?d = "drive_at C bus delay flush d0"
  define s0 where "s0 = out_8 (ATA_DRIVE_OR_HEAD C bus) (0xA OR push_bit 4 drive) s"
  define s1 where "s1 = ((\<lambda>s. snd (in_8 dev (ATA_STATUS C bus) s)) ^^ 4) s0"
  have polls: "?d (((\<lambda>s. snd (in_8 dev (ATA_STATUS C bus) s)) ^^ k) x) = (?d x)\<lparr>busy_polls := busy_polls (?d x) - k\<rparr>"
    for k x
    by (induction k) (simp_all add: ata_ports)
  have "?d s0 = ?d s" using assms(4) by (simp add: s0_def)
  then have d1: "?d s1 = (?d s)\<lparr>busy_polls := busy_polls (?d s) - 4\<rparr>" by (simp add: s1_def polls)
  have sel: "ide_select_drive dev C bus drive s = Ok s1"
    using assms(2) by (simp add: ide_select_drive_def s1_def s0_def)
  obtain s2 where s2: "ata_prepare_transfer dev C fuel m bus drive lba s1 = Ok s2" "?d s2 = ?d s1"
    using prepare_busy [OF assms(1,2,3) _ assms(6), of s1 m] d1 assms(4) by auto
  define s3 where "s3 = out_8 (ATA_COMMAND C bus) command s2"
  have d3: "?d s3 = (?d s)\<lparr>busy_polls := busy_polls (?d s) - 4\<rparr>"
    using assms(4) by (simp add: s3_def s2(2) d1)
  show ?thesis
  proof (cases "busy_polls (?d s3) < fuel")
    case True
    obtain st s4 where s4: "poll_while busy dev (ATA_STATUS C bus) fuel (fst (in_8 dev (ATA_STATUS C bus) s3))
        (snd (in_8 dev (ATA_STATUS C bus) s3)) = Ok (st, s4)"
      "?d s4 = (?d s3)\<lparr>busy_polls := 0\<rparr>" "not_settled st \<longleftrightarrow> transfer (?d s3) = Idle"
      using poll_busy [OF assms(1) True] by blast
    then have "poll_while not_settled dev (ATA_STATUS C bus) fuel st s4 = Diverged"
      using d3 assms(5) by (intro poll_settled_never [OF assms(1)]) simp_all
    then show ?thesis
      using sel s2(1) s4(1) by (simp add: ata_start_def Let_def case_prod_unfold s3_def)
  next
    case False
    then show ?thesis
      using sel s2(1) poll_busy_diverges [OF assms(1), of fuel s3]
      by (simp add: ata_start_def Let_def case_prod_unfold s3_def)
  qed
qed

text \<open>
  The driver does not wait for the cache flush it asks for: it polls the status it read before the
  transfer. When the drive needs more than four reads of its status for the flush, the next transfer's
  register writes and its command meet a busy drive and are ignored, and the transfer polls for ever.
\<close>

theorem ata_transfer_after_write_hangs:
  assumes "ata_channel dev C bus delay flush d0" and "drive = 0 \<or> drive = 1" and "lba \<le> 0xFFFFFFF"
    and "delay < fuel" and "4 < flush" and "busy_polls (drive_at C bus delay flush d0 s) \<le> 4"
    and "lba' \<le> 0xFFFFFFF" and "0 < fuel'"
  shows "\<exists>s'. ata_write_sector dev C fuel bus drive lba src m s = Ok s'
    \<and> ata_read_sector dev C fuel' bus drive lba' dst m' s' = Diverged
    \<and> ata_write_sector dev C fuel' bus drive lba' dst m' s' = Diverged"
proof -
  obtain s' where s': "ata_write_sector dev C fuel bus drive lba src m s = Ok s'"
    "busy_polls (drive_at C bus delay flush d0 s') = flush" "transfer (drive_at C bus delay flush d0 s') = Idle"
    using write_sector_spec [OF assms(1,2,3,6,4)] by blast
  have "ata_start dev C fuel' m' bus drive lba' command s' = Diverged" for command
    using start_busy_diverges [OF assms(1,2,7), of s' fuel'] s'(2,3) assms(5,8) by simp
  then have "ata_read_sector dev C fuel' bus drive lba' dst m' s' = Diverged"
    "ata_write_sector dev C fuel' bus drive lba' dst m' s' = Diverged"
    by (simp_all add: ata_read_sector_def ata_write_sector_def)
  with s'(1) show ?thesis by blast
qed

theorem ata_transfer_after_write_hangs_witness:
  "\<exists>s'. ata_write_sector (drive_device 0x1F0 3 5 blank_drive) legacy_channels 5 0 0 7 0x1000 (\<lambda>x. of_nat x) hw_start = Ok s'
    \<and> ata_read_sector (drive_device 0x1F0 3 5 blank_drive) legacy_channels 100 0 0 7 0x2000 (\<lambda>x. 0) s' = Diverged"
proof -
  have "busy_polls (drive_at legacy_channels 0 3 5 blank_drive hw_start) \<le> 4"
    by (simp add: drive_at_def drive_after_def hw_start_def blank_drive_def)
  from ata_transfer_after_write_hangs [OF drive_device_channel _ _ _ _ this, of 0 7 5 7 100
      "0x1000" "\<lambda>x. of_nat x" "0x2000" "\<lambda>x. 0"]
  show ?thesis by auto
qed

section \<open>Starting the controller\<close>

lemma ide_init_channels:
  "ide_init dev fuel m p n b0 b1 b2 b3 b4 st = Ok (r, st') \<Longrightarrow>
     r \<and> ide_channels st' = set_channels p n b0 b1 b2 b3 (ide_channels st)"
  by (auto simp: ide_init_def Let_def case_prod_unfold)

lemma native_secondary:
  assumes "bit config 11"
  shows "fst (pci_native_fields config) AND 0x4 \<noteq> 0"
proof -
  have e: "(0x8 :: u8) = push_bit 3 1" "(0x4 :: u8) = push_bit 2 1" "(0xFF :: u32) = mask 8"
    "(0x2 :: u8) = push_bit 1 1" "(0x1 :: u8) = mask 1"
    by (simp_all add: mask_eq_exp_minus_1)
  define pi :: u8 where "pi = ucast (drop_bit 8 config AND 0xFF)"
  have b3: "bit pi 3" using assms unfolding pi_def e by (simp add: bit_simps)
  have nz: "w AND push_bit k 1 \<noteq> 0" if "bit w k" for w :: u8 and k
  proof -
    have "bit (w AND push_bit k 1) k"
      using that bit_imp_possible_bit [OF that] by (simp add: bit_and_iff bit_exp_iff)
    then show ?thesis by auto
  qed
  have "(if pi AND 0x2 \<noteq> 0 then pi OR 1 else pi) AND 0x8 \<noteq> 0"
    unfolding e(1) by (rule nz) (use b3 in \<open>auto simp: bit_simps\<close>)
  then have "fst (pci_native_fields config) = (if pi AND 0x2 \<noteq> 0 then pi OR 1 else pi) OR 0x4"
    by (auto simp: pci_native_fields_def Let_def pi_def)
  moreover have "bit ((if pi AND 0x2 \<noteq> 0 then pi OR 1 else pi) OR 0x4) 2"
    unfolding e(2) by (simp add: bit_or_iff bit_push_bit_iff)
  ultimately show ?thesis unfolding e(2) by (metis nz)
qed

text \<open>
  A controller whose secondary channel can run in native mode. \<open>pci_init\<close> switches it to native mode,
  and \<open>ide_init\<close> then stores the ports of the secondary channel (the base address registers 2 and 3) in the
  entry of the primary channel: the primary drives can no longer be reached, and the entry of the secondary
  channel keeps its initial zeros.
\<close>

theorem pci_init_native_secondary:
  assumes "pci_init dev fuel m st = Ok (r, st')"
    and "bit (dev (Out32 0xCF8 0x80000908 # hw_ports (ide_hw st)) 0xCFC) 11"
  shows "ide_channels st' IDE_BUS_SND = ide_channels st IDE_BUS_SND
    \<and> (\<exists>h h'. io_base (ide_channels st' IDE_BUS_PRIM) = ucast (dev (Out32 0xCF8 0x80000918 # h) 0xCFC)
         \<and> control_base (ide_channels st' IDE_BUS_PRIM) = ucast (dev (Out32 0xCF8 0x8000091C # h') 0xCFC))"
proof -
  have reg: "map (pci_get_register_address 0 1 1) [8, 12, 16, 20, 24, 28, 32] =
      map Ok [0x80000908, 0x8000090C, 0x80000910, 0x80000914, 0x80000918, 0x8000091C, 0x80000920]"
    by (simp add: pci_get_register_address_def)
  define config where "config = dev (Out32 0xCF8 0x80000908 # hw_ports (ide_hw st)) 0xCFC"
  have n: "fst (pci_native_fields config) AND 0x4 \<noteq> 0"
    using native_secondary assms(2) by (simp add: config_def)
  obtain s b0 b1 h h' b4 where i:
    "ide_init dev fuel m (fst (pci_native_fields config) AND 1 \<noteq> 0) True b0 b1
       (ucast (dev (Out32 0xCF8 0x80000918 # h) 0xCFC))
       (ucast (dev (Out32 0xCF8 0x8000091C # h') 0xCFC)) b4 (st\<lparr>ide_hw := s\<rparr>) = Ok (r, st')"
    using assms(1) n
    unfolding pci_init_def pci_read_register_def
    using reg by (auto simp: in_32_def out_32_def Let_def case_prod_unfold config_def [symmetric])
  from ide_init_channels [OF i] show ?thesis
    by (auto simp: set_channels_def Let_def)
qed

text \<open>A controller with both channels switchable, no drive on either.\<close>

definition native_controller :: device where
  "native_controller h p =
     (if p = 0xCFC then
        (case h of
           Out32 q a # _ \<Rightarrow> if a = 0x80000908 then 0x01018A00 else if a = 0x80000918 then 0xC001 else 0
         | _ \<Rightarrow> 0)
      else 0xFF)"

definition ide_at_boot :: ide_state where
  "ide_at_boot = \<lparr>ide_hw = hw_start, ide_channels = (\<lambda>bus. \<lparr>io_base = 0, control_base = 0, bus_master = 0\<rparr>),
     ide_drives = (\<lambda>bus drive. \<lparr>missing = False, drive_type = DRIVE_TYPE_ATA, udma_mode = 0,
       lba28_addressable_sector_count = 0, lba48_addressable_sector_count = 0\<rparr>)\<rparr>"

lemma native_controller_starts: "\<exists>st'. pci_init native_controller 1 (\<lambda>x. 0) ide_at_boot = Ok (True, st')"
  by (simp add: pci_init_def pci_read_register_def pci_write_register_def pci_get_register_address_def
      in_32_def out_32_def Let_def native_controller_def ide_at_boot_def pci_native_fields_def ide_init_def
      in_8_def mark_missing_def identify_drive_def set_channels_def ata_ports)

theorem pci_init_native_secondary_witness:
  "\<exists>st'. pci_init native_controller 1 (\<lambda>x. 0) ide_at_boot = Ok (True, st')
    \<and> ide_channels st' IDE_BUS_SND = ide_channels ide_at_boot IDE_BUS_SND
    \<and> io_base (ide_channels st' IDE_BUS_PRIM) = 0xC001"
proof -
  obtain st' where st': "pci_init native_controller 1 (\<lambda>x. 0) ide_at_boot = Ok (True, st')"
    using native_controller_starts by blast
  have "bit (native_controller (Out32 0xCF8 0x80000908 # hw_ports (ide_hw ide_at_boot)) 0xCFC) 11"
    by (simp add: native_controller_def)
  from pci_init_native_secondary [OF st' this] st' show ?thesis
    by (auto simp: native_controller_def)
qed

section \<open>Identification\<close>

text \<open>
  What the identification relies on beyond \<open>ata_channel\<close>: the status of a drive is never zero, while it is
  busy the error and data bits are clear, the control port is not one of its registers, and the UDMA mode in
  use is the best one supported.
\<close>

definition answers_identify :: "device \<Rightarrow> channels \<Rightarrow> nat \<Rightarrow> bool" where
  "answers_identify dev C bus \<longleftrightarrow>
     (\<forall>h. let status = ucast (dev h (ATA_STATUS C bus)) :: u8 in
        status \<noteq> 0 \<and> (busy status \<longrightarrow> not_identified status))
   \<and> (\<forall>k \<in> {3, 4, 5, 6, 7}. control_base (C bus) \<noteq> io_base (C bus) + k)"

definition best_udma_active :: "(nat \<Rightarrow> u16) \<Rightarrow> bool" where
  "best_udma_active ws \<longleftrightarrow>
     (let supported = ucast (ws 88 AND 0xFF) :: u8; active = ucast (drop_bit 8 (ws 88)) :: u8 in
        \<exists>a b. builtin_clz (ucast supported) = Ok a \<and> builtin_clz (ucast active) = Ok b \<and> b \<le> a)"

text \<open>The record of a drive whose identification data are \<open>ws\<close>.\<close>

definition drive_record :: "(nat \<Rightarrow> u16) \<Rightarrow> IDE_Drive_Info \<Rightarrow> IDE_Drive_Info" where
  "drive_record ws info = \<lparr>missing = False, drive_type = DRIVE_TYPE_ATA,
     udma_mode = of_nat (builtin_ffs (ucast (ucast (drop_bit 8 (ws 88)) :: u8))),
     lba28_addressable_sector_count = of_nat (unat (ws 60) + 65536 * unat (ws 61)),
     lba48_addressable_sector_count =
       (if bit (ws 83) 10
        then of_nat (unat (ws 100) + 65536 * unat (ws 101) + 65536 ^ 2 * unat (ws 102) + 65536 ^ 3 * unat (ws 103))
        else lba48_addressable_sector_count info)\<rparr>"

lemma or_push_disjoint:
  fixes a b :: "'a::len word"
  assumes "\<And>n. bit a n \<Longrightarrow> n < k" and "k < LENGTH('a)"
  shows "a OR push_bit k b = a + of_nat (2 ^ k * unat b)"
proof -
  have "a AND push_bit k b = 0"
    by (rule bit_word_eqI) (auto simp: bit_simps dest: assms(1))
  then have "a OR push_bit k b = a + push_bit k b" by (rule disjunctive_add_eq_or [symmetric])
  then show ?thesis by (simp add: push_bit_eq_mult mult.commute)
qed

lemma lba28_words:
  fixes a b :: u16
  shows "ucast a OR push_bit 16 (ucast b) = (of_nat (unat a + 65536 * unat b) :: u32)"
  by (subst or_push_disjoint) (auto simp: bit_simps dest: bit_imp_le_length)

lemma lba48_words:
  fixes a b c d :: u16
  shows "ucast a OR push_bit 16 (ucast b) OR push_bit 32 (ucast c) OR push_bit 48 (ucast d) =
    (of_nat (unat a + 65536 * unat b + 65536 ^ 2 * unat c + 65536 ^ 3 * unat d) :: u64)"
proof -
  let ?ab = "ucast a OR push_bit 16 (ucast b) :: u64" and ?c = "push_bit 32 (ucast c) :: u64"
  have 1: "bit ?ab n \<Longrightarrow> n < 32" and 2: "bit (?ab OR ?c) n \<Longrightarrow> n < 48" and 0: "bit (ucast a :: u64) n \<Longrightarrow> n < 16" for n
    by (auto simp: bit_simps dest: bit_imp_le_length)
  have "ucast a OR push_bit 16 (ucast b) OR push_bit 32 (ucast c) OR push_bit 48 (ucast d) =
      (?ab OR ?c) OR push_bit 48 (ucast d)" by (simp only: or.assoc)
  also have "\<dots> = (?ab OR ?c) + of_nat (2 ^ 48 * unat (ucast d :: u64))" by (rule or_push_disjoint [OF 2]) simp_all
  also have "?ab OR ?c = ?ab + of_nat (2 ^ 32 * unat (ucast c :: u64))" by (rule or_push_disjoint [OF 1]) simp_all
  also have "?ab = ucast a + of_nat (2 ^ 16 * unat (ucast b :: u64))" by (rule or_push_disjoint [OF 0]) simp_all
  also have "ucast a + of_nat (2 ^ 16 * unat (ucast b :: u64)) + of_nat (2 ^ 32 * unat (ucast c :: u64))
      + of_nat (2 ^ 48 * unat (ucast d :: u64)) =
      (of_nat (unat a + 65536 * unat b + 65536 ^ 2 * unat c + 65536 ^ 3 * unat d) :: u64)"
    by (simp add: algebra_simps)
  finally show ?thesis .
qed

lemma record_identify_quiet:
  assumes "best_udma_active ws" and "missing info = False" and "drive_type info = DRIVE_TYPE_ATA"
  shows "record_identify dev fuel m bus drive ws info s = Ok (drive_record ws info, s)"
proof -
  have b: "ws 83 AND 1024 \<noteq> 0 \<longleftrightarrow> bit (ws 83) 10"
    using and_exp_eq_0_iff_not_bit [of "ws 83" 10] by simp
  obtain x y where "builtin_clz (ucast (ucast (ws 88 AND 0xFF) :: u8)) = Ok x"
    "builtin_clz (ucast (ucast (drop_bit 8 (ws 88)) :: u8)) = Ok y" "\<not> x < y"
    using assms(1) by (auto simp: best_udma_active_def Let_def not_less)
  then show ?thesis
    using assms(2,3)
    by (cases info) (simp add: record_identify_def drive_record_def Let_def b lba28_words lba48_words)
qed

lemma read_identify_words:
  assumes "ata_channel dev C bus delay flush d0" and "busy_polls (drive_at C bus delay flush d0 s) = 0"
    and "transfer (drive_at C bus delay flush d0 s) = Identifying 0" and "k \<le> 256"
  defines "d \<equiv> drive_at C bus delay flush d0 s"
    and "f \<equiv> \<lambda>i (ws, s). let (v, s) = in_16 dev (ATA_DATA C bus) s in (ws(i := v), s)"
  shows "\<exists>s'. fold f [0..<k] (\<lambda>i. 0, s) = (\<lambda>i. if i < k then identity d (drive_unit d) i else 0, s')
    \<and> drive_at C bus delay flush d0 s' = d\<lparr>transfer := (if k < 256 then Identifying k else Idle)\<rparr>"
  using assms(4)
proof (induction k)
  case 0
  then show ?case using assms(3) by (simp add: d_def)
next
  case (Suc k)
  let ?d = "drive_at C bus delay flush d0"
  obtain s1 where IH: "fold f [0..<k] (\<lambda>i. 0, s) = (\<lambda>i. if i < k then identity d (drive_unit d) i else 0, s1)"
    "?d s1 = d\<lparr>transfer := Identifying k\<rparr>"
    using Suc by auto
  have v: "fst (in_16 dev (ATA_DATA C bus) s1) = identity d (drive_unit d) k"
    using assms(1,2) IH(2) unfolding ata_channel_def answers_as_drive_def Let_def
    by (simp add: in_16_def Let_def ata_ports d_def drive_unit_def drive_at_def)
  have "?d (snd (in_16 dev (ATA_DATA C bus) s1)) = d\<lparr>transfer := (if Suc k < 256 then Identifying (Suc k) else Idle)\<rparr>"
    using IH(2) assms(2) by (simp add: ata_ports next_word_def d_def)
  moreover have "(\<lambda>i. if i < k then identity d (drive_unit d) i else 0)(k := identity d (drive_unit d) k) =
      (\<lambda>i. if i < Suc k then identity d (drive_unit d) i else 0)"
    by (auto simp: fun_eq_iff)
  moreover have "fold f [0..<Suc k] (\<lambda>i. 0, s) = f k (fold f [0..<k] (\<lambda>i. 0, s))" by simp
  ultimately show ?case unfolding IH(1) using v by (simp add: f_def Let_def case_prod_unfold del: fun_upd_apply)
qed

lemma poll_identified:
  assumes "ata_channel dev C bus delay flush d0" and "answers_identify dev C bus"
    and "transfer (drive_at C bus delay flush d0 s) \<noteq> Idle" and "not_identified st"
    and "busy_polls (drive_at C bus delay flush d0 s) + 1 < fuel"
  shows "\<exists>st' s'. poll_while not_identified dev (ATA_STATUS C bus) fuel st s = Ok (st', s')
    \<and> drive_at C bus delay flush d0 s' = (drive_at C bus delay flush d0 s)\<lparr>busy_polls := 0\<rparr>
    \<and> st' AND ATA_STATUS_ERROR = 0"
  using assms(3-5)
proof (induction "busy_polls (drive_at C bus delay flush d0 s)" arbitrary: s st fuel)
  case 0
  have "1 < fuel" using "0.prems"(3) by linarith
  then obtain n where n: "fuel = Suc (Suc n)" by (auto dest: less_imp_Suc_add)
  let ?st = "fst (in_8 dev (ATA_STATUS C bus) s)"
  have z: "busy_polls (drive_at C bus delay flush d0 s) = 0" using "0.hyps" by simp
  have "\<not> not_settled ?st" and e: "?st AND 0x21 = 0"
    using status_read(2,3) [OF assms(1) z] 0(2) by simp_all
  moreover have "?st AND 0x29 = (?st AND 0x21) OR (?st AND 0x08)"
    by (simp add: bit.conj_disj_distrib [symmetric])
  ultimately have d: "?st AND 0x08 \<noteq> 0" by (simp add: not_settled_def)
  have "?st AND 0x01 = (?st AND 0x21) AND 0x01" by (simp add: and.assoc)
  then have e': "?st AND 0x01 = 0" using e by simp
  have "?st AND 0x09 = (?st AND 0x01) OR (?st AND 0x08)"
    by (simp add: bit.conj_disj_distrib [symmetric])
  then have "\<not> not_identified ?st" using d e' by (simp add: not_identified_def)
  then show ?case
    using 0 n e' by (intro exI [of _ ?st] exI [of _ "snd (in_8 dev (ATA_STATUS C bus) s)"])
      (simp add: Let_def case_prod_unfold ata_ports)
next
  case (Suc k)
  let ?s = "snd (in_8 dev (ATA_STATUS C bus) s)" and ?st = "fst (in_8 dev (ATA_STATUS C bus) s)"
  obtain n where n: "fuel = Suc n" using Suc.prems(3) by (cases fuel) auto
  have dr: "drive_at C bus delay flush d0 ?s = (drive_at C bus delay flush d0 s)\<lparr>busy_polls := k\<rparr>"
    using Suc.hyps(2) [symmetric] by (simp add: ata_ports)
  have "busy ?st" using status_read(1) [OF assms(1), of s] Suc.hyps(2) by simp
  then have ni: "not_identified ?st"
    using assms(2) by (simp add: answers_identify_def Let_def in_8_def)
  have "\<exists>st' s'. poll_while not_identified dev (ATA_STATUS C bus) n ?st ?s = Ok (st', s')
    \<and> drive_at C bus delay flush d0 s' = (drive_at C bus delay flush d0 ?s)\<lparr>busy_polls := 0\<rparr>
    \<and> st' AND ATA_STATUS_ERROR = 0"
    by (rule Suc.hyps(1)) (use dr Suc.hyps(2) Suc.prems n ni in simp_all)
  then show ?case using Suc.prems(2) n dr by (simp add: Let_def case_prod_unfold)
qed

lemma drive_record_256 [simp]:
  "drive_record (\<lambda>i. if i < 256 then ws i else 0) info = drive_record ws info"
  "drive_record ws (info\<lparr>drive_type := t\<rparr>) = drive_record ws info"
  "best_udma_active (\<lambda>i. if i < 256 then ws i else 0) = best_udma_active ws"
  by (simp_all add: drive_record_def best_udma_active_def)

lemma identify_present:
  assumes c: "ata_channel dev C bus delay flush d0" and a: "answers_identify dev C bus"
    and z: "busy_polls (drive_at C bus delay flush d0 s) = 0" and t: "transfer (drive_at C bus delay flush d0 s) = Idle"
    and fuel: "delay + 1 < fuel" and dr: "drive = 0 \<or> drive = 1" and "\<not> missing info"
    and best: "best_udma_active (identity (drive_at C bus delay flush d0 s) (drive = 1))"
  obtains s' where "identify_drive dev C fuel m bus drive info s =
      Ok (drive_record (identity (drive_at C bus delay flush d0 s) (drive = 1)) info, s')"
    and "busy_polls (drive_at C bus delay flush d0 s') = 0" and "transfer (drive_at C bus delay flush d0 s') = Idle"
    and "sectors (drive_at C bus delay flush d0 s') = sectors (drive_at C bus delay flush d0 s)"
    and "identity (drive_at C bus delay flush d0 s') = identity (drive_at C bus delay flush d0 s)"
proof -
  let ?d = "drive_at C bus delay flush d0" and ?P = "ATA_STATUS C bus"
  let ?R = "0xA OR push_bit 4 (of_nat drive) :: u8"
  define s1 where "s1 = ((\<lambda>s. snd (in_8 dev ?P s)) ^^ 4) (out_8 (ATA_DRIVE_OR_HEAD C bus) ?R s)"
  have polls: "?d (((\<lambda>s. snd (in_8 dev ?P s)) ^^ k) x) = (?d x)\<lparr>busy_polls := busy_polls (?d x) - k\<rparr>" for k x
    by (induction k) (simp_all add: ata_ports)
  have d1: "?d s1 = (?d s)\<lparr>reg_drive := ?R\<rparr>"
    unfolding s1_def polls using z by (simp add: ata_ports)
  have unit: "drive_unit (?d s1) \<longleftrightarrow> drive = 1"
    unfolding drive_unit_def d1 using dr by (auto simp: bit_simps)
  have sel: "ide_select_drive dev C bus (of_nat drive) s = Ok s1"
    using dr by (auto simp: ide_select_drive_def s1_def)
  define s2 where "s2 = out_8 (ATA_DEV_CONTROL C bus) 0x2 s1"
  define st where "st = fst (in_8 dev ?P s2)"
  define s3 where "s3 = snd (in_8 dev ?P s2)"
  have d2: "?d s2 = ?d s1" using a by (simp add: s2_def ata_ports answers_identify_def)
  have d3: "?d s3 = ?d s1" using z by (simp add: s3_def d2 d1 ata_ports)
  have zt: "busy_polls (?d s2) = 0" "transfer (?d s2) = Idle" using z t d2 d1 by simp_all
  have st: "\<not> busy st" "not_settled st"
    using status_read [OF c, of s2] zt unfolding st_def by simp_all
  have st0: "st \<noteq> 0" using a by (simp add: st_def answers_identify_def Let_def in_8_def)
  have pb: "poll_while busy dev ?P fuel st x = Ok (st, x)" for x
    using fuel st(1) by (cases fuel) simp_all
  define s4 where "s4 = out_8 (ATA_LBAHIGH_OR_CYLINDERHIGH C bus) 0 (out_8 (ATA_LBAMID_OR_CYLINDERLOW C bus) 0
    (out_8 (ATA_LBALOW_OR_SECTORNUM C bus) 0 (out_8 (ATA_SECTOR_COUNT C bus) 0 s3)))"
  have d4: "?d s4 = (?d s1)\<lparr>reg_low := 0, reg_mid := 0, reg_high := 0\<rparr>"
    using z by (simp add: s4_def d3 d1 ata_ports)
  define s5 where "s5 = out_8 (ATA_COMMAND C bus) ATA_COMMAND_IDENTIFY s4"
  have d5: "?d s5 = (?d s4)\<lparr>transfer := Identifying 0, busy_polls := delay\<rparr>"
    using out_command [of C bus delay flush d0 s4] z by (simp add: s5_def d4 d1 drive_command_def)
  have "not_identified st"
  proof -
    have "st AND 0x09 = (st AND 0x29) AND 0x09" by (simp add: and.assoc)
    then show ?thesis using st(2) by (simp add: not_settled_def not_identified_def)
  qed
  then obtain st6 s6 where s6: "poll_while not_identified dev ?P fuel st s5 = Ok (st6, s6)"
    "?d s6 = (?d s5)\<lparr>busy_polls := 0\<rparr>" "st6 AND ATA_STATUS_ERROR = 0"
    using poll_identified [OF c a, of s5 st fuel] fuel d5 by auto
  obtain s7 where s7: "read_identify dev (ATA_DATA C bus) s6 =
      (\<lambda>i. if i < 256 then identity (?d s6) (drive_unit (?d s6)) i else 0, s7)" "?d s7 = (?d s6)\<lparr>transfer := Idle\<rparr>"
    using read_identify_words [OF c, of s6 256] s6(2) d5 unfolding read_identify_def by auto
  have id: "identity (?d s6) (drive_unit (?d s6)) = identity (?d s) (drive = 1)"
    using unit by (simp add: s6(2) d5 d4 drive_unit_def) (simp add: d1)
  have "identify_drive dev C fuel m bus drive info s = Ok (drive_record (identity (?d s) (drive = 1)) info, s7)"
    using sel st0 s6(1,3) s7(1) id assms(7) best
    by (simp add: identify_drive_def Let_def case_prod_unfold pb record_identify_quiet
        s2_def [symmetric] st_def [symmetric] s3_def [symmetric] s4_def [symmetric] s5_def [symmetric])
  then show ?thesis
    by (rule that) (simp_all add: s7(2) s6(2) d5 d4 d1)
qed

text \<open>The properties of a channel depend on its ports only.\<close>

lemma channel_cong:
  assumes "io_base (C bus) = io_base (C' bus)"
  shows "ata_channel dev C bus delay flush d0 = ata_channel dev C' bus delay flush d0"
    and "drive_at C bus delay flush d0 = drive_at C' bus delay flush d0"
    and "sector_of C bus delay flush d0 = sector_of C' bus delay flush d0"
    and "ata_ready dev C fuel bus drive delay flush d0 = ata_ready dev C' fuel bus drive delay flush d0"
    and "control_base (C bus) = control_base (C' bus) \<Longrightarrow> answers_identify dev C bus = answers_identify dev C' bus"
  using assms
  by (simp_all add: ata_channel_def drive_at_def sector_of_def ata_ready_def answers_identify_def ata_ports fun_eq_iff)

lemma identify_missing: "missing info \<Longrightarrow> identify_drive dev C fuel m bus drive info s = Ok (info, s)"
  by (simp add: identify_drive_def)

definition floating :: "device \<Rightarrow> u16 \<Rightarrow> bool" where
  "floating dev port \<longleftrightarrow> (\<forall>h. (ucast (dev h port) :: u8) = 0xFF)"

lemma ide_init_finds:
  assumes "ata_channel dev legacy_channels 0 delay flush d0" and "answers_identify dev legacy_channels 0"
    and "floating dev 0x177" and "drive_at legacy_channels 0 delay flush d0 (ide_hw st) = d"
    and "busy_polls d = 0" and "transfer d = Idle" and "delay + 1 < fuel"
    and "\<forall>u. best_udma_active (identity d u)" and "\<forall>i < 2. \<not> missing (ide_drives st 0 i)"
  shows "\<exists>st'. ide_init dev fuel m False False bar0 bar1 bar2 bar3 bar4 st = Ok (True, st')
    \<and> ide_channels st' = set_channels False False bar0 bar1 bar2 bar3 (ide_channels st)
    \<and> (\<forall>i < 2. ide_drives st' 0 i = drive_record (identity d (i = 1)) (ide_drives st 0 i))
    \<and> (\<forall>i < 2. missing (ide_drives st' 1 i))
    \<and> busy_polls (drive_at legacy_channels 0 delay flush d0 (ide_hw st')) = 0
    \<and> sectors (drive_at legacy_channels 0 delay flush d0 (ide_hw st')) = sectors d"
proof -
  let ?C = "set_channels False False bar0 bar1 bar2 bar3 (ide_channels st)"
  have base: "io_base (?C 0) = io_base (legacy_channels 0)" "control_base (?C 0) = control_base (legacy_channels 0)"
    "io_base (?C 1) = 0x170" "io_base (legacy_channels 0) = 0x1F0"
    by (simp_all add: set_channels_def legacy_channels_def)
  note cong = channel_cong [of ?C 0 legacy_channels, OF base(1)]
  let ?d = "drive_at ?C 0 delay flush d0"
  have c: "ata_channel dev ?C 0 delay flush d0" and a: "answers_identify dev ?C 0"
    using assms(1,2) cong(1) cong(5) [OF base(2)] by simp_all
  define s1 where "s1 = snd (in_8 dev (ATA_STATUS ?C 0) (ide_hw st))"
  define s2 where "s2 = snd (in_8 dev (ATA_STATUS ?C 1) s1)"
  have d: "?d (ide_hw st) = d" using assms(4) cong(2) by simp
  have d1: "?d s1 = d" using d assms(5) by (simp add: s1_def ata_ports)
  have d2: "?d s2 = d" unfolding s2_def using d1 by (simp add: ata_ports base(1,4) base(3) [simplified])
  have "fst (in_8 dev (ATA_STATUS ?C 0) (ide_hw st)) AND 0x21 = 0"
    using status_read(3) [OF c, of "ide_hw st"] d assms(5) by simp
  then have p: "fst (in_8 dev (ATA_STATUS ?C 0) (ide_hw st)) \<noteq> 0xFF" by auto
  have q: "fst (in_8 dev (ATA_STATUS ?C 1) s1) = 0xFF"
    using assms(3) by (simp add: floating_def in_8_def Let_def ata_ports base(3) [simplified])
  let ?D = "mark_missing 1 (ide_drives st)"
  have D: "?D 0 i = ide_drives st 0 i" for i by (simp add: mark_missing_def)
  obtain s3 where s3: "identify_drive dev ?C fuel m 0 0 (?D 0 0) s2 = Ok (drive_record (identity (?d s2) ((0::nat) = 1)) (?D 0 0), s3)"
    "busy_polls (?d s3) = 0" "transfer (?d s3) = Idle" "sectors (?d s3) = sectors (?d s2)"
    "identity (?d s3) = identity (?d s2)"
    by (rule identify_present [OF c a _ _ assms(7), of s2 0 "?D 0 0" m]) (use d2 assms(5,6,8,9) D in simp_all)
  obtain s4 where s4: "identify_drive dev ?C fuel m 0 1 (?D 0 1) s3 = Ok (drive_record (identity (?d s3) ((1::nat) = 1)) (?D 0 1), s4)"
    "busy_polls (?d s4) = 0" "transfer (?d s4) = Idle" "sectors (?d s4) = sectors (?d s3)"
    "identity (?d s4) = identity (?d s3)"
    by (rule identify_present [OF c a s3(2,3) assms(7), of 1 "?D 0 1" m])
       (use d2 s3(5) assms(8,9) D in \<open>simp_all del: One_nat_def\<close>)
  define D' where "D' = ?D(0 := (?D 0)(0 := drive_record (identity d False) (?D 0 0), 1 := drive_record (identity d True) (?D 0 1)))"
  have gone: "missing (D' 1 0)" "missing (D' 1 1)" by (simp_all add: D'_def mark_missing_def)
  have "identify_all dev ?C fuel m [(0, 0), (0, 1), (1, 0), (1, 1)] ?D s2 = identify_all dev ?C fuel m [(1, 0), (1, 1)] D' s4"
    using s3(1,5) s4(1) d2 unfolding D'_def by (simp add: mark_missing_def)
  also have "\<dots> = Ok (D', s4)"
    using gone by (simp add: identify_missing)
  finally have all: "identify_all dev ?C fuel m [(0, 0), (0, 1), (1, 0), (1, 1)] ?D s2 = Ok (D', s4)" .
  have "ide_init dev fuel m False False bar0 bar1 bar2 bar3 bar4 st =
      Ok (True, \<lparr>ide_hw = s4, ide_channels = ?C, ide_drives = D'\<rparr>)"
    using p q
    by (simp add: ide_init_def Let_def case_prod_unfold s1_def [symmetric] s2_def [symmetric] all
        del: identify_all.simps One_nat_def)
  then show ?thesis
    using s3(4) s4(2,4) d2 gone cong(2) by (auto simp: less_2_cases_iff D'_def mark_missing_def)
qed

text \<open>
  A machine: a legacy controller in place 0:1.1, two drives on its primary channel and none on the other, a
  serial line that is always ready and answers the loop-back test.
\<close>

definition example_identity :: "nat \<Rightarrow> u16" where
  "example_identity = (\<lambda>i. 0)(60 := 0x4000, 61 := 1, 88 := 0x203F)"

definition example_drives :: drive where
  "example_drives = blank_drive\<lparr>identity := (\<lambda>u. example_identity)\<rparr>"

definition machine :: "nat \<Rightarrow> nat \<Rightarrow> drive \<Rightarrow> device" where
  "machine delay flush d0 h p =
     (if p = 0x177 then 0xFF
      else if p = 0x3F8 then 0xAE
      else if p = 0xCFC then
        (case h of Out32 q a # _ \<Rightarrow> if a = 0x80000908 then 0x01018000 else 0 | _ \<Rightarrow> 0)
      else drive_device 0x1F0 delay flush d0 h p)"

lemma machine_channel:
  "ata_channel (machine delay flush d0) legacy_channels 0 delay flush d0"
  "answers_identify (machine delay flush d0) legacy_channels 0"
  "floating (machine delay flush d0) 0x177"
proof -
  have up: "ucast (ucast w :: u32) = w" for w :: u16
    by (rule bit_word_eqI) (auto simp: bit_simps)
  show "ata_channel (machine delay flush d0) legacy_channels 0 delay flush d0"
    by (auto simp: up machine_def ata_channel_def answers_as_drive_def legacy_channels_def line_ready_def
        drive_device_def Let_def busy_def)
  show "answers_identify (machine delay flush d0) legacy_channels 0"
    by (simp add: machine_def answers_identify_def legacy_channels_def drive_device_def Let_def busy_def
        not_identified_def ata_ports)
  show "floating (machine delay flush d0) 0x177" by (simp add: floating_def machine_def)
qed

lemma example_best_udma: "best_udma_active example_identity"
proof -
  have "builtin_clz 0x3F = Ok 26" "builtin_clz 0x20 = Ok 26" by code_simp+
  then show ?thesis by (simp add: best_udma_active_def Let_def example_identity_def)
qed



end
