(* ===== verification/Tfs.thy ===== *)
theory Tfs
  imports Ata Heap
begin

text \<open>
  The kernel's TagFS driver, \<open>src/src/kernel/fs/tagfs.c\<close>: lookup, reading, writing and creation of files on the
  primary master drive, through one sector buffer on the heap.

  The operations take the sector transfers \<open>rd\<close> and \<open>wr\<close> and the page provider \<open>commit\<close> as arguments, as
  \<open>memory_allocate\<close> does; the properties instantiate them with \<open>ata_read_sector\<close>, \<open>ata_write_sector\<close> and
  \<open>pfa_commit_page\<close>. In between they rest on the locale \<open>sector_disk\<close> of the theory \<open>Ata\<close>. The heap and every
  buffer are in one memory, so a transfer past the end of a buffer reaches what lies behind it.
\<close>

section \<open>State\<close>

record TagFS_FS_Metadata =
  fs_jump :: u32
  fs_version :: u32
  fs_sector_count :: u32
  fs_sector_size :: u32
  fs_file_meta_sector_count :: u32
  fs_tag_meta_sector_count :: u32
  fs_tag_file_sector_count :: u32
  fs_fat_sector_count :: u32
  fs_free_file_id :: u16
  fs_free_tag_id :: u16

record ('p, 'h) tfs_state =
  tfs_heap :: "'p heap_state"
  tfs_disk :: 'h
  tfs_fs_meta :: TagFS_FS_Metadata
  tfs_sector_buffer :: u32

type_synonym 'h reader = "u32 \<Rightarrow> nat \<Rightarrow> memory \<Rightarrow> 'h \<Rightarrow> (memory \<times> 'h) outcome"
type_synonym 'h writer = "u32 \<Rightarrow> nat \<Rightarrow> memory \<Rightarrow> 'h \<Rightarrow> 'h outcome"
type_synonym 'p committer = "u32 \<Rightarrow> 'p \<Rightarrow> (bool \<times> 'p) outcome"

abbreviation tfs_mem :: "('p, 'h) tfs_state \<Rightarrow> memory" where "tfs_mem st \<equiv> hmem (tfs_heap st)"

definition set_mem :: "memory \<Rightarrow> ('p, 'h) tfs_state \<Rightarrow> ('p, 'h) tfs_state" where
  "set_mem m st = st\<lparr>tfs_heap := (tfs_heap st)\<lparr>hmem := m\<rparr>\<rparr>"

definition load_sector :: "'h reader \<Rightarrow> u32 \<Rightarrow> u32 \<Rightarrow> ('p, 'h) tfs_state \<Rightarrow> ('p, 'h) tfs_state outcome" where
  "load_sector rd lba buffer st =
     obind (rd lba (unat buffer) (tfs_mem st) (tfs_disk st)) (\<lambda>(m, h).
     Ok ((set_mem m st)\<lparr>tfs_disk := h\<rparr>))"

definition store_sector :: "'h writer \<Rightarrow> u32 \<Rightarrow> u32 \<Rightarrow> ('p, 'h) tfs_state \<Rightarrow> ('p, 'h) tfs_state outcome" where
  "store_sector wr lba buffer st =
     obind (wr lba (unat buffer) (tfs_mem st) (tfs_disk st)) (\<lambda>h. Ok (st\<lparr>tfs_disk := h\<rparr>))"

definition copy_bytes :: "u32 \<Rightarrow> u32 \<Rightarrow> u32 \<Rightarrow> ('p, 'h) tfs_state \<Rightarrow> ('p, 'h) tfs_state" where
  "copy_bytes dst src n st = set_mem (memory_copy (tfs_mem st) (unat dst) (unat src) (unat n)) st"

definition allocate ::
  "'p committer \<Rightarrow> nat \<Rightarrow> u32 \<Rightarrow> ('p, 'h) tfs_state \<Rightarrow> (u32 \<times> ('p, 'h) tfs_state) outcome" where
  "allocate commit fuel n st =
     obind (memory_allocate commit fuel n (tfs_heap st)) (\<lambda>(p, heap). Ok (p, st\<lparr>tfs_heap := heap\<rparr>))"

definition release :: "nat \<Rightarrow> u32 \<Rightarrow> ('p, 'h) tfs_state \<Rightarrow> ('p, 'h) tfs_state outcome" where
  "release fuel p st = obind (memory_free fuel p (tfs_heap st)) (\<lambda>heap. Ok (st\<lparr>tfs_heap := heap\<rparr>))"

text \<open>The bytes of the packed record in sector 0.\<close>

definition fs_metadata_at :: "memory \<Rightarrow> nat \<Rightarrow> TagFS_FS_Metadata" where
  "fs_metadata_at m a =
     \<lparr>fs_jump = ld32 m a, fs_version = ld32 m (a + 4), fs_sector_count = ld32 m (a + 8),
      fs_sector_size = ld32 m (a + 12), fs_file_meta_sector_count = ld32 m (a + 16),
      fs_tag_meta_sector_count = ld32 m (a + 20), fs_tag_file_sector_count = ld32 m (a + 24),
      fs_fat_sector_count = ld32 m (a + 28), fs_free_file_id = ld16 m (a + 32), fs_free_tag_id = ld16 m (a + 34)\<rparr>"

definition tfs_init ::
  "'p committer \<Rightarrow> 'h reader \<Rightarrow> nat \<Rightarrow> ('p, 'h) tfs_state \<Rightarrow> (bool \<times> ('p, 'h) tfs_state) outcome" where
  "tfs_init commit rd fuel st =
     obind (allocate commit fuel 512 st) (\<lambda>(buffer, st).
     let st = st\<lparr>tfs_sector_buffer := buffer\<rparr> in
     obind (load_sector rd 0 buffer st) (\<lambda>st.
     Ok (True, st\<lparr>tfs_fs_meta := fs_metadata_at (tfs_mem st) (unat buffer)\<rparr>)))"

section \<open>The layout of the disk\<close>

definition tfs_get_file_metadata_lba :: u32 where
  "tfs_get_file_metadata_lba = 1"

definition tfs_get_tag_metadata_lba :: "TagFS_FS_Metadata \<Rightarrow> u32" where
  "tfs_get_tag_metadata_lba M = tfs_get_file_metadata_lba + fs_file_meta_sector_count M"

definition tfs_get_tag_file_array_lba :: "TagFS_FS_Metadata \<Rightarrow> u32" where
  "tfs_get_tag_file_array_lba M = tfs_get_tag_metadata_lba M + fs_tag_meta_sector_count M"

definition tfs_get_fat_lba :: "TagFS_FS_Metadata \<Rightarrow> u32" where
  "tfs_get_fat_lba M = tfs_get_tag_file_array_lba M + fs_tag_file_sector_count M"

definition tfs_get_data_lba :: "TagFS_FS_Metadata \<Rightarrow> u32" where
  "tfs_get_data_lba M = tfs_get_fat_lba M + fs_fat_sector_count M"

definition tfs_count_file_meta_entries :: "TagFS_FS_Metadata \<Rightarrow> u32" where
  "tfs_count_file_meta_entries M = fs_file_meta_sector_count M * fs_sector_size M div 32"

text \<open>A file entry: first sector, size and a name of 24 bytes.\<close>

definition entry_first :: "memory \<Rightarrow> nat \<Rightarrow> u32" where "entry_first m a = ld32 m a"
definition entry_size :: "memory \<Rightarrow> nat \<Rightarrow> u32" where "entry_size m a = ld32 m (a + 4)"
definition entry_name :: "nat \<Rightarrow> nat" where "entry_name a = a + 8"

definition tfs_file_metadata_entry_is_free :: "memory \<Rightarrow> nat \<Rightarrow> bool" where
  "tfs_file_metadata_entry_is_free m a \<longleftrightarrow> m (entry_name a) = 0"

section \<open>Lookup by name\<close>

record File_Metadata_Result =
  found :: bool
  result_lba :: u32
  result_offset :: u32

text \<open>
  The loop over the entries of one sector: it returns the result, the number of entries counted and the memory.
  Leaving it does not leave the loop over the sectors.
\<close>

function lookup_entries ::
  "String \<Rightarrow> nat \<Rightarrow> nat \<Rightarrow> u32 \<Rightarrow> nat \<Rightarrow> u32 \<Rightarrow> nat \<Rightarrow> File_Metadata_Result \<Rightarrow> u32 \<Rightarrow> memory
     \<Rightarrow> File_Metadata_Result \<times> u32 \<times> memory" where
  "lookup_entries path buf file_meta lba per_sector entries i r file_count m =
     (if i < per_sector then
        if str_equals_cstr m path (entry_name (buf + 32 * i))
        then (\<lparr>found = True, result_lba = lba, result_offset = of_nat (32 * i)\<rparr>, file_count,
              memory_copy m file_meta (buf + 32 * i) 32)
        else if entries < file_count + 1 then (r, file_count + 1, m)
        else lookup_entries path buf file_meta lba per_sector entries (i + 1) r (file_count + 1) m
      else (r, file_count, m))"
  by pat_completeness auto
termination
  by (relation "measure (\<lambda>(path, buf, fm, lba, per, entries, i, r, c, m). per - i)") auto

declare lookup_entries.simps [simp del]

fun lookup_sectors ::
  "'h reader \<Rightarrow> String \<Rightarrow> nat \<Rightarrow> nat \<Rightarrow> u32 \<Rightarrow> File_Metadata_Result \<Rightarrow> u32 \<Rightarrow> ('p, 'h) tfs_state
     \<Rightarrow> (File_Metadata_Result \<times> ('p, 'h) tfs_state) outcome" where
  "lookup_sectors rd path file_meta 0 lba r file_count st = Ok (r, st)"
| "lookup_sectors rd path file_meta (Suc n) lba r file_count st =
     obind (load_sector rd lba (tfs_sector_buffer st) st) (\<lambda>st.
     let M = tfs_fs_meta st;
         (r, file_count, m) = lookup_entries path (unat (tfs_sector_buffer st)) file_meta lba
           (unat (fs_sector_size M div 32)) (tfs_count_file_meta_entries M) 0 r file_count (tfs_mem st)
     in lookup_sectors rd path file_meta n (lba + 1) r file_count (set_mem m st))"

definition tfs_get_file_metadata_from_name ::
  "'h reader \<Rightarrow> String \<Rightarrow> nat \<Rightarrow> ('p, 'h) tfs_state \<Rightarrow> (File_Metadata_Result \<times> ('p, 'h) tfs_state) outcome" where
  "tfs_get_file_metadata_from_name rd path file_meta st =
     lookup_sectors rd path file_meta (unat (fs_file_meta_sector_count (tfs_fs_meta st)))
       tfs_get_file_metadata_lba \<lparr>found = False, result_lba = 0, result_offset = 0\<rparr> 0 st"

definition tfs_get_file_attributes ::
  "'h reader \<Rightarrow> String \<Rightarrow> nat \<Rightarrow> ('p, 'h) tfs_state \<Rightarrow> (bool \<times> ('p, 'h) tfs_state) outcome" where
  "tfs_get_file_attributes rd path file_meta st =
     obind (tfs_get_file_metadata_from_name rd path file_meta st) (\<lambda>(r, st). Ok (found r, st))"

section \<open>The allocation table\<close>

definition fat_entry_addr :: "u32 \<Rightarrow> u32 \<Rightarrow> nat" where
  "fat_entry_addr fats i = unat (fats + 2 * i)"

text \<open>
  The table is read into a heap buffer of two sectors. The second sector goes to \<open>fats + sector_size\<close>, which
  is an address of 16-bit entries: \<open>2 * sector_size\<close> bytes further.
\<close>

definition load_fats ::
  "'p committer \<Rightarrow> 'h reader \<Rightarrow> nat \<Rightarrow> ('p, 'h) tfs_state \<Rightarrow> (u32 \<times> ('p, 'h) tfs_state) outcome" where
  "load_fats commit rd fuel st =
     (let M = tfs_fs_meta st;
          fats_size = fs_sector_size M * fs_fat_sector_count M in
      obind (allocate commit fuel fats_size st) (\<lambda>(fats, st).
      let fat_lba = tfs_get_fat_lba M in
      obind (load_sector rd fat_lba fats st) (\<lambda>st.
      obind (load_sector rd (fat_lba + 1) (fats + 2 * fs_sector_size M) st) (\<lambda>st.
      Ok (fats, st)))))"

function free_fat_from :: "memory \<Rightarrow> u32 \<Rightarrow> int \<Rightarrow> int \<Rightarrow> int" where
  "free_fat_from m fats fat_count i =
     (if i < fat_count then
        if ld16 m (fat_entry_addr fats (of_int i)) = 0 then i else free_fat_from m fats fat_count (i + 1)
      else - 1)"
  by pat_completeness auto
termination
  by (relation "measure (\<lambda>(m, fats, n, i). nat (n - i))") auto

declare free_fat_from.simps [simp del]

definition tfs_find_free_fat :: "TagFS_FS_Metadata \<Rightarrow> memory \<Rightarrow> u32 \<Rightarrow> int" where
  "tfs_find_free_fat M m fats = free_fat_from m fats (sint (fs_fat_sector_count M * fs_sector_size M div 2)) 0"

fun follow_fat :: "memory \<Rightarrow> u32 \<Rightarrow> nat \<Rightarrow> u32 \<Rightarrow> u32 option" where
  "follow_fat m fats 0 fat_index = Some fat_index"
| "follow_fat m fats (Suc n) fat_index =
     (let e = ld16 m (fat_entry_addr fats fat_index)
      in if e = 0xffff then None else follow_fat m fats n (ucast e))"

section \<open>Reading a file\<close>

definition release_both :: "nat \<Rightarrow> u32 \<Rightarrow> u32 \<Rightarrow> bool \<Rightarrow> ('p, 'h) tfs_state \<Rightarrow> (bool \<times> ('p, 'h) tfs_state) outcome" where
  "release_both fuel file_meta fats result st =
     obind (release fuel file_meta st) (\<lambda>st. obind (release fuel fats st) (\<lambda>st. Ok (result, st)))"

text \<open>The loop over the sectors after the first.\<close>

fun read_sectors ::
  "'h reader \<Rightarrow> nat \<Rightarrow> u32 \<Rightarrow> u32 \<Rightarrow> u32 \<Rightarrow> u32 \<Rightarrow> u32 \<Rightarrow> u32 \<Rightarrow> u32 \<Rightarrow> ('p, 'h) tfs_state
     \<Rightarrow> ('p, 'h) tfs_state outcome" where
  "read_sectors rd 0 fats file_meta data_lba buffer read_size buf_index fat_index st = Diverged"
| "read_sectors rd (Suc fuel) fats file_meta data_lba buffer read_size buf_index fat_index st =
     (if buf_index < read_size then
        if buf_index \<ge> entry_size (tfs_mem st) (unat file_meta) then Ok st
        else
          (let sector_size = fs_sector_size (tfs_fs_meta st);
               fat_index = ucast (ld16 (tfs_mem st) (fat_entry_addr fats fat_index));
               bytes_to_read = (if read_size \<le> buf_index + sector_size then read_size - buf_index else sector_size) in
           obind (load_sector rd (data_lba + fat_index) (tfs_sector_buffer st) st) (\<lambda>st.
           read_sectors rd fuel fats file_meta data_lba buffer read_size (buf_index + bytes_to_read) fat_index
             (copy_bytes (buffer + buf_index) (tfs_sector_buffer st) bytes_to_read st)))
      else Ok st)"

definition read_file ::
  "'h reader \<Rightarrow> nat \<Rightarrow> u32 \<Rightarrow> u32 \<Rightarrow> u32 \<Rightarrow> u32 \<Rightarrow> u32 \<Rightarrow> ('p, 'h) tfs_state
     \<Rightarrow> (bool \<times> ('p, 'h) tfs_state) outcome" where
  "read_file rd fuel fats file_meta buffer read_size offset st =
     (let sector_size = fs_sector_size (tfs_fs_meta st) in
      if sector_size = 0 then Fault ''division by zero'' else
      let byte_skip_count = offset mod sector_size in
      case follow_fat (tfs_mem st) fats (unat (offset div sector_size)) (entry_first (tfs_mem st) (unat file_meta)) of
        None \<Rightarrow> release_both fuel file_meta fats False st
      | Some fat_index \<Rightarrow>
          (let data_lba = tfs_get_data_lba (tfs_fs_meta st) in
           obind (load_sector rd (data_lba + fat_index) (tfs_sector_buffer st) st) (\<lambda>st.
           if read_size \<le> sector_size - byte_skip_count
           then release_both fuel file_meta fats True
                  (copy_bytes buffer (tfs_sector_buffer st + byte_skip_count) read_size st)
           else
             (let first_sector_bytes = sector_size - byte_skip_count;
                  st = copy_bytes buffer (tfs_sector_buffer st + byte_skip_count) first_sector_bytes st in
              obind (read_sectors rd fuel fats file_meta data_lba buffer read_size first_sector_bytes fat_index st)
                (release_both fuel file_meta fats True)))))"

definition tfs_read ::
  "'p committer \<Rightarrow> 'h reader \<Rightarrow> nat \<Rightarrow> String \<Rightarrow> u32 \<Rightarrow> u32 \<Rightarrow> u32 \<Rightarrow> ('p, 'h) tfs_state
     \<Rightarrow> (bool \<times> ('p, 'h) tfs_state) outcome" where
  "tfs_read commit rd fuel path buffer read_size offset st =
     obind (ASSERT (fs_fat_sector_count (tfs_fs_meta st) = 2) ''Unsupported sector count.'') (\<lambda>_.
     obind (load_fats commit rd fuel st) (\<lambda>(fats, st).
     obind (allocate commit fuel 32 st) (\<lambda>(file_meta, st).
     obind (tfs_get_file_metadata_from_name rd path (unat file_meta) st) (\<lambda>(r, st).
     if \<not> found r then release_both fuel file_meta fats False st
     else read_file rd fuel fats file_meta buffer read_size offset st))))"

section \<open>Writing a file\<close>

text \<open>One read-modify-write of a sector.\<close>

definition patch_sector ::
  "'h reader \<Rightarrow> 'h writer \<Rightarrow> u32 \<Rightarrow> u32 \<Rightarrow> u32 \<Rightarrow> u32 \<Rightarrow> ('p, 'h) tfs_state \<Rightarrow> ('p, 'h) tfs_state outcome" where
  "patch_sector rd wr lba offset src n st =
     obind (load_sector rd lba (tfs_sector_buffer st) st) (\<lambda>st.
     let st = copy_bytes (tfs_sector_buffer st + offset) src n st in
     store_sector wr lba (tfs_sector_buffer st) st)"

definition set_entry_size :: "u32 \<Rightarrow> u32 \<Rightarrow> ('p, 'h) tfs_state \<Rightarrow> ('p, 'h) tfs_state" where
  "set_entry_size file_meta n st = set_mem (st32 (tfs_mem st) (unat file_meta + 4) n) st"

fun write_sectors ::
  "'h reader \<Rightarrow> 'h writer \<Rightarrow> nat \<Rightarrow> u32 \<Rightarrow> u32 \<Rightarrow> u32 \<Rightarrow> u32 \<Rightarrow> u32 \<Rightarrow> ('p, 'h) tfs_state
     \<Rightarrow> (u32 \<times> ('p, 'h) tfs_state) outcome" where
  "write_sectors rd wr 0 fats data_lba buffer sz buf_index st = Diverged"
| "write_sectors rd wr (Suc fuel) fats data_lba buffer sz buf_index st =
     (if buf_index < sz then
        (let fat_index = tfs_find_free_fat (tfs_fs_meta st) (tfs_mem st) fats in
         if fat_index = - 1 then Ok (buf_index, st)
         else
           (let sector_size = fs_sector_size (tfs_fs_meta st);
                bytes_to_write = (if sz \<le> buf_index + sector_size then sz - buf_index else sector_size) in
            obind (patch_sector rd wr (data_lba + of_int fat_index) 0 (buffer + buf_index) bytes_to_write st)
              (write_sectors rd wr fuel fats data_lba buffer sz (buf_index + bytes_to_write))))
      else Ok (buf_index, st))"

definition write_data ::
  "'h reader \<Rightarrow> 'h writer \<Rightarrow> nat \<Rightarrow> u32 \<Rightarrow> u32 \<Rightarrow> u32 \<Rightarrow> u32 \<Rightarrow> u32 \<Rightarrow> u32 \<Rightarrow> u32 \<Rightarrow> ('p, 'h) tfs_state
     \<Rightarrow> ('p, 'h) tfs_state outcome" where
  "write_data rd wr fuel fats file_meta buffer sz offset fat_index byte_skip_count st =
     (let sector_size = fs_sector_size (tfs_fs_meta st);
          data_lba = tfs_get_data_lba (tfs_fs_meta st);
          grow = (\<lambda>n st. if offset + n > entry_size (tfs_mem st) (unat file_meta)
                         then set_entry_size file_meta (offset + n) st else st) in
      if sz \<le> sector_size - byte_skip_count then
        obind (patch_sector rd wr (data_lba + fat_index) byte_skip_count buffer sz st) (\<lambda>st.
        let a = fat_entry_addr fats fat_index;
            st = (if ld16 (tfs_mem st) a = 0 then set_mem (st16 (tfs_mem st) a 0xffff) st else st)
        in Ok (grow sz st))
      else
        (let first_sector_bytes = sector_size - byte_skip_count in
         obind (patch_sector rd wr (data_lba + fat_index) byte_skip_count buffer first_sector_bytes st) (\<lambda>st.
         obind (write_sectors rd wr fuel fats data_lba buffer sz first_sector_bytes st) (\<lambda>(buf_index, st).
         Ok (grow buf_index st)))))"

definition write_file ::
  "'h reader \<Rightarrow> 'h writer \<Rightarrow> nat \<Rightarrow> u32 \<Rightarrow> u32 \<Rightarrow> File_Metadata_Result \<Rightarrow> u32 \<Rightarrow> u32 \<Rightarrow> u32
     \<Rightarrow> ('p, 'h) tfs_state \<Rightarrow> (bool \<times> ('p, 'h) tfs_state) outcome" where
  "write_file rd wr fuel fats file_meta r buffer sz offset st =
     (let first = entry_first (tfs_mem st) (unat file_meta);
          free = tfs_find_free_fat (tfs_fs_meta st) (tfs_mem st) fats in
      if first = 0xffff \<and> free = - 1 then release_both fuel file_meta fats False st else
      let fat_index = (if first = 0xffff then of_int free else first);
          st = (if first = 0xffff then set_mem (st32 (tfs_mem st) (unat file_meta) fat_index) st else st);
          sector_size = fs_sector_size (tfs_fs_meta st);
          file_size = entry_size (tfs_mem st) (unat file_meta);
          pos = (if offset < file_size then offset else file_size) in
      if sector_size = 0 then Fault ''division by zero'' else
      case follow_fat (tfs_mem st) fats (unat (pos div sector_size)) fat_index of
        None \<Rightarrow> release_both fuel file_meta fats False st
      | Some fat_index \<Rightarrow>
          obind (write_data rd wr fuel fats file_meta buffer sz offset fat_index (pos mod sector_size) st) (\<lambda>st.
          obind (patch_sector rd wr (result_lba r) (result_offset r) file_meta 32 st)
            (release_both fuel file_meta fats True)))"

definition tfs_write ::
  "'p committer \<Rightarrow> 'h reader \<Rightarrow> 'h writer \<Rightarrow> nat \<Rightarrow> String \<Rightarrow> u32 \<Rightarrow> u32 \<Rightarrow> u32 \<Rightarrow> ('p, 'h) tfs_state
     \<Rightarrow> (bool \<times> ('p, 'h) tfs_state) outcome" where
  "tfs_write commit rd wr fuel path buffer sz offset st =
     obind (ASSERT (fs_fat_sector_count (tfs_fs_meta st) = 2) ''Unsupported sector count.'') (\<lambda>_.
     obind (load_fats commit rd fuel st) (\<lambda>(fats, st).
     obind (allocate commit fuel 32 st) (\<lambda>(file_meta, st).
     obind (tfs_get_file_metadata_from_name rd path (unat file_meta) st) (\<lambda>(r, st).
     if \<not> found r then release_both fuel file_meta fats False st
     else write_file rd wr fuel fats file_meta r buffer sz offset st))))"

section \<open>Creating a file\<close>

text \<open>
  The search for a free entry in one sector: the entry found, or the number of entries counted and whether the
  count went past the number of entries.
\<close>

function free_entry_from :: "memory \<Rightarrow> nat \<Rightarrow> nat \<Rightarrow> u32 \<Rightarrow> nat \<Rightarrow> u32 \<Rightarrow> nat option \<times> u32 \<times> bool" where
  "free_entry_from m buf per_sector entries i file_count =
     (if i < per_sector then
        if tfs_file_metadata_entry_is_free m (buf + 32 * i) then (Some i, file_count, False)
        else if entries < file_count + 1 then (None, file_count + 1, True)
        else free_entry_from m buf per_sector entries (i + 1) (file_count + 1)
      else (None, file_count, False))"
  by pat_completeness auto
termination
  by (relation "measure (\<lambda>(m, buf, per, entries, i, c). per - i)") auto

declare free_entry_from.simps [simp del]

text \<open>The stores go through \<open>buf_file_meta\<close>, the first entry of the sector, whichever entry was found free.\<close>

definition write_new_entry :: "String \<Rightarrow> nat \<Rightarrow> memory \<Rightarrow> memory" where
  "write_new_entry path buf m =
     (let m = st32 m buf 0xffff;
          m = st32 m (buf + 4) 0;
          m = memory_copy m (entry_name buf) (str_data path) (str_length path)
      in m(entry_name buf + str_length path := 0))"

fun make_in_sectors ::
  "'h reader \<Rightarrow> 'h writer \<Rightarrow> String \<Rightarrow> nat \<Rightarrow> u32 \<Rightarrow> u32 \<Rightarrow> ('p, 'h) tfs_state
     \<Rightarrow> (bool \<times> ('p, 'h) tfs_state) outcome" where
  "make_in_sectors rd wr path 0 lba file_count st = Ok (False, st)"
| "make_in_sectors rd wr path (Suc n) lba file_count st =
     obind (load_sector rd lba (tfs_sector_buffer st) st) (\<lambda>st.
     let M = tfs_fs_meta st; buf = unat (tfs_sector_buffer st) in
     case free_entry_from (tfs_mem st) buf (unat (fs_sector_size M div 32)) (tfs_count_file_meta_entries M) 0 file_count of
       (Some i, _) \<Rightarrow>
         obind (store_sector wr lba (tfs_sector_buffer st) (set_mem (write_new_entry path buf (tfs_mem st)) st))
           (\<lambda>st. Ok (True, st))
     | (None, file_count, full) \<Rightarrow>
         if full then Ok (False, st)
         else make_in_sectors rd wr path n (lba + 1) file_count st)"

definition tfs_make_new_file ::
  "'h reader \<Rightarrow> 'h writer \<Rightarrow> String \<Rightarrow> ('p, 'h) tfs_state \<Rightarrow> (bool \<times> ('p, 'h) tfs_state) outcome" where
  "tfs_make_new_file rd wr path st =
     (if 24 \<le> str_length path then Ok (False, st)
      else make_in_sectors rd wr path (unat (fs_file_meta_sector_count (tfs_fs_meta st)))
             tfs_get_file_metadata_lba 0 st)"

section \<open>Specification vocabulary\<close>

text \<open>Entry \<open>k\<close> of a sector whose bytes are \<open>D\<close> has the name \<open>name\<close>.\<close>

definition entry_matches :: "(nat \<Rightarrow> u8) \<Rightarrow> nat \<Rightarrow> u8 list \<Rightarrow> bool" where
  "entry_matches D k name \<longleftrightarrow>
     list_all (\<lambda>j. D (32 * k + 8 + j) = name ! j) [0..<length name] \<and> D (32 * k + 8 + length name) = 0"

definition matching_entry :: "(nat \<Rightarrow> u8) \<Rightarrow> u8 list \<Rightarrow> nat option" where
  "matching_entry D name = find (\<lambda>k. entry_matches D k name) [0..<16]"

text \<open>The lookup on the sectors \<open>lba\<close>, \<open>lba + 1\<close>, ...: the first entry of the last sector that has one.\<close>

fun lookup_disk :: "(u32 \<Rightarrow> nat \<Rightarrow> u8) \<Rightarrow> u8 list \<Rightarrow> nat \<Rightarrow> u32 \<Rightarrow> (u32 \<times> nat) option \<Rightarrow> (u32 \<times> nat) option" where
  "lookup_disk disk name 0 lba r = r"
| "lookup_disk disk name (Suc n) lba r =
     lookup_disk disk name n (lba + 1)
       (case matching_entry (disk lba) name of None \<Rightarrow> r | Some k \<Rightarrow> Some (lba, k))"

definition disjoint_areas :: "nat \<Rightarrow> nat \<Rightarrow> nat \<Rightarrow> nat \<Rightarrow> bool" where
  "disjoint_areas a n b k \<longleftrightarrow> a + n \<le> b \<or> b + k \<le> a"

text \<open>The buffers of a lookup: the name, the sector buffer and the entry to fill do not overlap.\<close>

definition lookup_areas :: "String \<Rightarrow> nat \<Rightarrow> nat \<Rightarrow> bool" where
  "lookup_areas path buf file_meta \<longleftrightarrow>
     disjoint_areas buf 512 file_meta 32 \<and> disjoint_areas buf 512 (str_data path) (str_length path)
   \<and> disjoint_areas file_meta 32 (str_data path) (str_length path)"

definition result_of :: "(u32 \<times> nat) option \<Rightarrow> File_Metadata_Result" where
  "result_of o' = (case o' of None \<Rightarrow> \<lparr>found = False, result_lba = 0, result_offset = 0\<rparr>
     | Some (l, k) \<Rightarrow> \<lparr>found = True, result_lba = l, result_offset = of_nat (32 * k)\<rparr>)"

definition entry_copied :: "(u32 \<Rightarrow> nat \<Rightarrow> u8) \<Rightarrow> (u32 \<times> nat) option \<Rightarrow> nat \<Rightarrow> memory \<Rightarrow> bool" where
  "entry_copied disk o' file_meta m \<longleftrightarrow>
     (case o' of None \<Rightarrow> True | Some (l, k) \<Rightarrow> \<forall>j < 32. m (file_meta + j) = disk l (32 * k + j))"

lemma set_mem_simps [simp]:
  "tfs_mem (set_mem m st) = m" "tfs_disk (set_mem m st) = tfs_disk st"
  "tfs_fs_meta (set_mem m st) = tfs_fs_meta st" "tfs_sector_buffer (set_mem m st) = tfs_sector_buffer st"
  "set_mem m' (set_mem m st) = set_mem m' st" "set_mem (tfs_mem st) st = st"
  "set_mem m (st\<lparr>tfs_disk := h\<rparr>) = (set_mem m st)\<lparr>tfs_disk := h\<rparr>"
  by (cases st; simp add: set_mem_def)+

section \<open>One sector of entries\<close>

lemma str_equals_entry:
  assumes "\<forall>j < 512. m (buf + j) = D j" and "bytes_at m (str_data path) (str_length path) = name"
    and "k < 16" and "str_length path < 24"
  shows "str_equals_cstr m path (entry_name (buf + 32 * k)) \<longleftrightarrow> entry_matches D k name"
proof -
  have l: "length name = str_length path" using assms(2) by (metis length_bytes_at)
  have n: "m (str_data path + j) = name ! j" if "j < str_length path" for j
    using that assms(2) by (metis nth_bytes_at)
  have b: "m (entry_name (buf + 32 * k) + j) = D (32 * k + 8 + j)" if "j \<le> str_length path" for j
    using that assms(1,3,4) by (simp add: entry_name_def add.assoc)
  show ?thesis
    using n b by (auto simp: str_equals_cstr_def str_equals_loop_iff entry_matches_def list_all_iff l)
qed

lemma lookup_entries_spec:
  assumes "\<forall>j < 512. m (buf + j) = D j" and "bytes_at m (str_data path) (str_length path) = name"
    and "str_length path < 24" and "i \<le> 16" and "unat c + (16 - i) \<le> unat entries"
  shows "\<exists>c'. lookup_entries path buf fm lba 16 entries i r c m =
      (case find (\<lambda>k. entry_matches D k name) [i..<16] of None \<Rightarrow> (r, c', m)
       | Some k \<Rightarrow> (\<lparr>found = True, result_lba = lba, result_offset = of_nat (32 * k)\<rparr>, c', memory_copy m fm (buf + 32 * k) 32))
    \<and> unat c' \<le> unat c + (16 - i)"
  using assms(4,5)
proof (induction "16 - i" arbitrary: i c)
  case 0
  then show ?case by (subst lookup_entries.simps) simp
next
  case (Suc n)
  then have i: "i < 16" by simp
  then have up: "[i..<16] = i # [Suc i..<16]" by (simp add: upt_conv_Cons)
  note eq = str_equals_entry [OF assms(1,2) i assms(3)]
  show ?case
  proof (cases "entry_matches D i name")
    case True
    then show ?thesis using i eq by (subst lookup_entries.simps) (auto simp: up intro!: exI [of _ c])
  next
    case False
    have c1: "unat (c + 1) = unat c + 1"
    proof -
      have "unat c + 1 < 4294967296"
        using Suc.prems i unat_lt_pow2 [of entries] by linarith
      then show ?thesis using unat_add_no_wrap [of c 1] by simp
    qed
    have "\<not> entries < c + 1" using Suc.prems i by (simp add: word_less_nat_alt c1)
    then have "lookup_entries path buf fm lba 16 entries i r c m =
        lookup_entries path buf fm lba 16 entries (Suc i) r (c + 1) m"
      using i eq False by (subst lookup_entries.simps) simp
    moreover have "n = 16 - Suc i" "Suc i \<le> 16" "unat (c + 1) + (16 - Suc i) \<le> unat entries"
      using Suc.hyps(2) Suc.prems i by (simp_all add: c1)
    ultimately show ?thesis
      using Suc.hyps(1) [of "Suc i" "c + 1"] False c1 by (auto simp: up)
  qed
qed

lemma memory_copy_out:
  "d \<le> s \<or> s + n \<le> d \<Longrightarrow> x < d \<or> d + n \<le> x \<Longrightarrow> memory_copy m d s n x = m x"
  by (auto simp: memory_copy_apply)

context sector_disk
begin

lemma load_sector_ok:
  assumes "ok (tfs_disk st)" and "lba \<le> 0xFFFFFFF"
  obtains m h where "load_sector rd lba buffer st = Ok ((set_mem m st)\<lparr>tfs_disk := h\<rparr>)" and "ok h"
    and "disk h = disk (tfs_disk st)"
    and "\<forall>x. m x = (if unat buffer \<le> x \<and> x < unat buffer + 512
           then disk (tfs_disk st) lba (x - unat buffer) else tfs_mem st x)"
  using sector_read [OF assms, of "unat buffer" "tfs_mem st"] by (auto simp: load_sector_def)

lemma lookup_sectors_spec:
  assumes "ok (tfs_disk st)" and "fs_sector_size (tfs_fs_meta st) = 512"
    and "lookup_areas path (unat (tfs_sector_buffer st)) file_meta" and "str_length path < 24"
    and "bytes_at (tfs_mem st) (str_data path) (str_length path) = name"
    and "unat lba + n \<le> 0x10000000" and "unat c + 16 * n \<le> unat (tfs_count_file_meta_entries (tfs_fs_meta st))"
    and "entry_copied (disk (tfs_disk st)) o' file_meta (tfs_mem st)"
  shows "\<exists>m h. lookup_sectors rd path file_meta n lba (result_of o') c st =
        Ok (result_of (lookup_disk (disk (tfs_disk st)) name n lba o'), (set_mem m st)\<lparr>tfs_disk := h\<rparr>)
    \<and> ok h \<and> disk h = disk (tfs_disk st)
    \<and> entry_copied (disk (tfs_disk st)) (lookup_disk (disk (tfs_disk st)) name n lba o') file_meta m
    \<and> (\<forall>x. (x < unat (tfs_sector_buffer st) \<or> unat (tfs_sector_buffer st) + 512 \<le> x)
         \<and> (x < file_meta \<or> file_meta + 32 \<le> x) \<longrightarrow> m x = tfs_mem st x)"
  using assms
proof (induction n arbitrary: lba o' c st)
  case 0
  then show ?case
    by (intro exI [of _ "tfs_mem st"] exI [of _ "tfs_disk st"]) (simp add: set_mem_def)
next
  case (Suc n)
  let ?b = "unat (tfs_sector_buffer st)" and ?D = "disk (tfs_disk st) lba"
  obtain m1 h1 where l: "load_sector rd lba (tfs_sector_buffer st) st = Ok ((set_mem m1 st)\<lparr>tfs_disk := h1\<rparr>)"
    "ok h1" "disk h1 = disk (tfs_disk st)"
    "\<forall>x. m1 x = (if ?b \<le> x \<and> x < ?b + 512 then ?D (x - ?b) else tfs_mem st x)"
    by (rule load_sector_ok [OF Suc.prems(1), of lba "tfs_sector_buffer st"])
       (use Suc.prems(6) in \<open>simp_all add: word_le_nat_alt\<close>)
  have path: "bytes_at m1 (str_data path) (str_length path) = name"
    unfolding Suc.prems(5) [symmetric]
    by (rule bytes_at_cong) (use Suc.prems(3) in \<open>auto simp: l(4) lookup_areas_def disjoint_areas_def\<close>)
  let ?E = "tfs_count_file_meta_entries (tfs_fs_meta st)"
  obtain c1 where c1: "lookup_entries path ?b file_meta lba 16 ?E 0 (result_of o') c m1 =
      (case matching_entry ?D name of None \<Rightarrow> (result_of o', c1, m1)
       | Some k \<Rightarrow> (\<lparr>found = True, result_lba = lba, result_offset = of_nat (32 * k)\<rparr>, c1,
                   memory_copy m1 file_meta (?b + 32 * k) 32))"
    "unat c1 \<le> unat c + 16"
    using lookup_entries_spec [of m1 ?b ?D path name 0 c ?E file_meta lba "result_of o'"]
      path Suc.prems(4,7) by (auto simp: l(4) matching_entry_def)
  define o1 where "o1 = (case matching_entry ?D name of None \<Rightarrow> o' | Some k \<Rightarrow> Some (lba, k))"
  define m2 where "m2 = (case matching_entry ?D name of None \<Rightarrow> m1 | Some k \<Rightarrow> memory_copy m1 file_meta (?b + 32 * k) 32)"
  have k16: "k < 16" if "matching_entry ?D name = Some k" for k
    using that by (auto simp: matching_entry_def find_Some_iff)
  have dis: "file_meta \<le> ?b + 32 * k \<or> ?b + 32 * k + 32 \<le> file_meta" if "k < 16" for k
    using that Suc.prems(3) by (auto simp: lookup_areas_def disjoint_areas_def)
  have le: "lookup_entries path ?b file_meta lba 16 ?E 0 (result_of o') c m1 = (result_of o1, c1, m2)"
    unfolding c1(1) by (cases "matching_entry ?D name") (simp_all add: o1_def m2_def result_of_def)
  have m2: "m2 x = m1 x" if "x < file_meta \<or> file_meta + 32 \<le> x" for x
    using that dis k16 by (auto simp: m2_def memory_copy_out split: option.splits)
  have copied: "entry_copied (disk (tfs_disk st)) o1 file_meta m2"
  proof (cases "matching_entry ?D name")
    case None
    have "m2 (file_meta + j) = tfs_mem st (file_meta + j)" if "j < 32" for j
      using that Suc.prems(3) None by (auto simp: m2_def l(4) lookup_areas_def disjoint_areas_def)
    then show ?thesis
      using Suc.prems(8) None by (auto simp: o1_def entry_copied_def split: option.splits)
  next
    case (Some k)
    have "m2 (file_meta + j) = ?D (32 * k + j)" if "j < 32" for j
      using that Some dis [OF k16 [OF Some]] k16 [OF Some]
      by (simp add: m2_def memory_copy_apply l(4) add.assoc)
    then show ?thesis using Some by (simp add: o1_def entry_copied_def)
  qed
  let ?st = "(set_mem m2 st)\<lparr>tfs_disk := h1\<rparr>"
  have st': "tfs_disk ?st = h1" "tfs_fs_meta ?st = tfs_fs_meta st" "tfs_sector_buffer ?st = tfs_sector_buffer st"
    "tfs_mem ?st = m2"
    by (simp_all add: set_mem_def)
  have lba: "unat (lba + 1) = unat lba + 1"
    using Suc.prems(6) unat_add_no_wrap [of lba 1] by simp
  have path2: "bytes_at m2 (str_data path) (str_length path) = name"
    unfolding path [symmetric]
    by (rule bytes_at_cong, rule m2) (use Suc.prems(3) in \<open>auto simp: lookup_areas_def disjoint_areas_def\<close>)
  have step: "lookup_sectors rd path file_meta (Suc n) lba (result_of o') c st =
      lookup_sectors rd path file_meta n (lba + 1) (result_of o1) c1 ?st"
    using le Suc.prems(2) by (simp add: l(1) Let_def)
  obtain m h where r: "lookup_sectors rd path file_meta n (lba + 1) (result_of o1) c1 ?st =
        Ok (result_of (lookup_disk (disk (tfs_disk st)) name n (lba + 1) o1), (set_mem m ?st)\<lparr>tfs_disk := h\<rparr>)"
      "ok h" "disk h = disk (tfs_disk st)"
      "entry_copied (disk (tfs_disk st)) (lookup_disk (disk (tfs_disk st)) name n (lba + 1) o1) file_meta m"
      "\<forall>x. (x < ?b \<or> ?b + 512 \<le> x) \<and> (x < file_meta \<or> file_meta + 32 \<le> x) \<longrightarrow> m x = m2 x"
    using Suc.IH [of ?st "lba + 1" c1 o1] Suc.prems(2-4,6,7) l(2,3) c1(2) path2 copied
    unfolding st' by (auto simp: lba)
  have "(set_mem m ?st)\<lparr>tfs_disk := h\<rparr> = (set_mem m st)\<lparr>tfs_disk := h\<rparr>" by (simp add: set_mem_def)
  moreover have "m x = tfs_mem st x" if "x < ?b \<or> ?b + 512 \<le> x" "x < file_meta \<or> file_meta + 32 \<le> x" for x
    using that r(5) m2 [OF that(2)] by (auto simp: l(4))
  ultimately show ?case
    using r unfolding step by (intro exI [of _ m] exI [of _ h]) (simp add: o1_def)
qed

end

section \<open>Creating a file\<close>

definition entry_free :: "(nat \<Rightarrow> u8) \<Rightarrow> nat \<Rightarrow> bool" where
  "entry_free D k \<longleftrightarrow> D (32 * k + 8) = 0"

text \<open>A sector with an empty file \<open>name\<close> stored in its first entry.\<close>

definition with_new_file :: "u8 list \<Rightarrow> (nat \<Rightarrow> u8) \<Rightarrow> (nat \<Rightarrow> u8)" where
  "with_new_file name D j =
     (if j < 8 then (if j < 2 then 0xff else 0)
      else if j < 8 + length name then name ! (j - 8)
      else if j = 8 + length name then 0 else D j)"

lemma free_entry_from_spec:
  assumes "\<forall>j < 512. m (buf + j) = D j" and "i \<le> 16" and "unat c + (16 - i) \<le> unat entries"
  shows "\<exists>c'. free_entry_from m buf 16 entries i c = (find (entry_free D) [i..<16], c', False)
    \<and> unat c' \<le> unat c + (16 - i)"
  using assms(2,3)
proof (induction "16 - i" arbitrary: i c)
  case 0
  then show ?case by (subst free_entry_from.simps) simp
next
  case (Suc n)
  then have i: "i < 16" by simp
  then have up: "[i..<16] = i # [Suc i..<16]" by (simp add: upt_conv_Cons)
  have eq: "tfs_file_metadata_entry_is_free m (buf + 32 * i) \<longleftrightarrow> entry_free D i"
    using assms(1) i by (simp add: tfs_file_metadata_entry_is_free_def entry_name_def entry_free_def add.assoc)
  show ?case
  proof (cases "entry_free D i")
    case True
    then show ?thesis using i eq by (subst free_entry_from.simps) (auto simp: up intro!: exI [of _ c])
  next
    case False
    have "unat c + 1 < 4294967296"
      using Suc.prems i unat_lt_pow2 [of entries] by linarith
    then have c1: "unat (c + 1) = unat c + 1" using unat_add_no_wrap [of c 1] by simp
    have "\<not> entries < c + 1" using Suc.prems i by (simp add: word_less_nat_alt c1)
    then have "free_entry_from m buf 16 entries i c = free_entry_from m buf 16 entries (Suc i) (c + 1)"
      using i eq False by (subst free_entry_from.simps) simp
    moreover have "n = 16 - Suc i" "Suc i \<le> 16" "unat (c + 1) + (16 - Suc i) \<le> unat entries"
      using Suc.hyps(2) Suc.prems i by (simp_all add: c1)
    ultimately show ?thesis
      using Suc.hyps(1) [of "Suc i" "c + 1"] False c1 by (auto simp: up)
  qed
qed

lemma st32_apply:
  "st32 m a v x = (if x = a then ucast v else if x = a + 1 then ucast (drop_bit 8 v)
     else if x = a + 2 then ucast (drop_bit 16 v) else if x = a + 3 then ucast (drop_bit 24 v) else m x)"
  by (simp add: st32_def)

lemma write_new_entry_apply:
  assumes "disjoint_areas buf 512 (str_data path) (str_length path)" and "str_length path < 24"
    and "bytes_at m (str_data path) (str_length path) = name" and "\<forall>j < 512. m (buf + j) = D j"
  shows "j < 512 \<Longrightarrow> write_new_entry path buf m (buf + j) = with_new_file name D j"
    and "x < buf \<or> buf + 512 \<le> x \<Longrightarrow> write_new_entry path buf m x = m x"
proof -
  let ?m2 = "st32 (st32 m buf 0xffff) (buf + 4) 0"
  have l: "length name = str_length path" using assms(3) by (metis length_bytes_at)
  have n: "m (str_data path + j) = name ! j" if "j < str_length path" for j
    using that assms(3) by (metis nth_bytes_at)
  have out: "?m2 x = m x" if "x < buf \<or> buf + 8 \<le> x" for x
    using that by (auto simp: st32_apply)
  have sep: "entry_name buf \<le> str_data path \<or> str_data path + str_length path \<le> entry_name buf"
    using assms(1) by (auto simp: disjoint_areas_def entry_name_def)
  have w: "write_new_entry path buf m x =
      (if x = buf + 8 + str_length path then 0
       else if buf + 8 \<le> x \<and> x < buf + 8 + str_length path then ?m2 (str_data path + (x - (buf + 8))) else ?m2 x)" for x
    unfolding write_new_entry_def Let_def using memory_copy_apply [OF sep] by (simp add: entry_name_def)
  have src: "?m2 (str_data path + i) = name ! i" if "i < str_length path" for i
    using that out [of "str_data path + i"] assms(1) n [OF that] by (auto simp: disjoint_areas_def)
  show "write_new_entry path buf m (buf + j) = with_new_file name D j" if "j < 512"
  proof -
    consider "j < 8" | "8 \<le> j" "j < 8 + str_length path" | "j = 8 + str_length path" | "8 + str_length path < j"
      by linarith
    then show ?thesis
    proof cases
      case 1
      then have "j = 0 \<or> j = 1 \<or> j = 2 \<or> j = 3 \<or> j = 4 \<or> j = 5 \<or> j = 6 \<or> j = 7" by linarith
      then show ?thesis unfolding w with_new_file_def by (auto simp: st32_apply l)
    next
      case 2
      then show ?thesis unfolding w with_new_file_def using src [of "j - 8"] by (simp add: l)
    next
      case 3
      then show ?thesis unfolding w with_new_file_def by (simp add: l)
    next
      case 4
      then show ?thesis
        unfolding w with_new_file_def using out [of "buf + j"] assms(4) that by (simp add: l)
    qed
  qed
  show "write_new_entry path buf m x = m x" if "x < buf \<or> buf + 512 \<le> x"
    unfolding w using that assms(2) out [of x] by auto
qed

context sector_disk
begin

lemma store_sector_ok:
  assumes "ok (tfs_disk st)" and "lba \<le> 0xFFFFFFF"
  obtains h where "store_sector wr lba buffer st = Ok (st\<lparr>tfs_disk := h\<rparr>)" and "ok h"
    and "\<forall>l j. j < 512 \<longrightarrow> disk h l j = (if l = lba then tfs_mem st (unat buffer + j) else disk (tfs_disk st) l j)"
  using sector_write [OF assms, of "unat buffer" "tfs_mem st"] by (auto simp: store_sector_def)

lemma make_in_sectors_spec:
  assumes "ok (tfs_disk st)" and "fs_sector_size (tfs_fs_meta st) = 512"
    and "disjoint_areas (unat (tfs_sector_buffer st)) 512 (str_data path) (str_length path)"
    and "str_length path < 24" and "bytes_at (tfs_mem st) (str_data path) (str_length path) = name"
    and "s < n" and "unat lba + n \<le> 0x10000000"
    and "unat c + 16 * n \<le> unat (tfs_count_file_meta_entries (tfs_fs_meta st))"
    and "\<forall>t < s. \<forall>k < 16. \<not> entry_free (disk (tfs_disk st) (lba + of_nat t)) k"
    and "\<exists>k < 16. entry_free (disk (tfs_disk st) (lba + of_nat s)) k"
  shows "\<exists>st'. make_in_sectors rd wr path n lba c st = Ok (True, st') \<and> ok (tfs_disk st')
    \<and> (\<forall>l j. j < 512 \<longrightarrow> disk (tfs_disk st') l j =
         (if l = lba + of_nat s then with_new_file name (disk (tfs_disk st) l) j else disk (tfs_disk st) l j))
    \<and> tfs_fs_meta st' = tfs_fs_meta st \<and> tfs_sector_buffer st' = tfs_sector_buffer st
    \<and> (\<forall>x. x < unat (tfs_sector_buffer st) \<or> unat (tfs_sector_buffer st) + 512 \<le> x \<longrightarrow> tfs_mem st' x = tfs_mem st x)"
  using assms
proof (induction n arbitrary: s lba c st)
  case 0
  then show ?case by simp
next
  case (Suc n)
  let ?b = "unat (tfs_sector_buffer st)" and ?D = "disk (tfs_disk st) lba"
  let ?E = "tfs_count_file_meta_entries (tfs_fs_meta st)"
  have lba: "lba \<le> 0xFFFFFFF" using Suc.prems(7) by (simp add: word_le_nat_alt)
  obtain m1 h1 where l: "load_sector rd lba (tfs_sector_buffer st) st = Ok ((set_mem m1 st)\<lparr>tfs_disk := h1\<rparr>)"
    "ok h1" "disk h1 = disk (tfs_disk st)"
    "\<forall>x. m1 x = (if ?b \<le> x \<and> x < ?b + 512 then ?D (x - ?b) else tfs_mem st x)"
    by (rule load_sector_ok [OF Suc.prems(1) lba])
  have path: "bytes_at m1 (str_data path) (str_length path) = name"
    unfolding Suc.prems(5) [symmetric]
    by (rule bytes_at_cong) (use Suc.prems(3) in \<open>auto simp: l(4) disjoint_areas_def\<close>)
  have D: "\<forall>j < 512. m1 (?b + j) = ?D j" by (simp add: l(4))
  obtain c1 where c1: "free_entry_from m1 ?b 16 ?E 0 c = (find (entry_free ?D) [0..<16], c1, False)"
    "unat c1 \<le> unat c + 16"
    using free_entry_from_spec [OF D, of 0 c ?E] Suc.prems(8) by auto
  let ?st1 = "(set_mem m1 st)\<lparr>tfs_disk := h1\<rparr>"
  show ?case
  proof (cases "\<exists>k < 16. entry_free ?D k")
    case True
    have s: "s = 0"
    proof (rule ccontr)
      assume "s \<noteq> 0"
      then have "0 < s" by simp
      with Suc.prems(9) have "\<forall>k < 16. \<not> entry_free (disk (tfs_disk st) (lba + of_nat 0)) k" by blast
      then show False using True by auto
    qed
    obtain k where k: "find (entry_free ?D) [0..<16] = Some k"
      using True by (cases "find (entry_free ?D) [0..<16]") (auto simp: find_None_iff)
    let ?m2 = "write_new_entry path ?b m1"
    let ?st2 = "(set_mem ?m2 st)\<lparr>tfs_disk := h1\<rparr>"
    note w = write_new_entry_apply [OF Suc.prems(3,4) path D]
    obtain h2 where h2: "store_sector wr lba (tfs_sector_buffer st) ?st2 = Ok (?st2\<lparr>tfs_disk := h2\<rparr>)" "ok h2"
      "\<forall>l j. j < 512 \<longrightarrow> disk h2 l j = (if l = lba then ?m2 (?b + j) else disk h1 l j)"
    proof (rule store_sector_ok [of ?st2 lba "tfs_sector_buffer st"])
      show "ok (tfs_disk ?st2)" "lba \<le> 0xFFFFFFF" using l(2) lba by simp_all
      fix h
      assume "store_sector wr lba (tfs_sector_buffer st) ?st2 = Ok (?st2\<lparr>tfs_disk := h\<rparr>)" "ok h"
        "\<forall>l j. j < 512 \<longrightarrow> disk h l j =
           (if l = lba then tfs_mem ?st2 (?b + j) else disk (tfs_disk ?st2) l j)"
      then show thesis by (intro that [of h]) (simp_all cong: if_cong)
    qed
    have made: "make_in_sectors rd wr path (Suc n) lba c st = Ok (True, ?st2\<lparr>tfs_disk := h2\<rparr>)"
      using h2(1) Suc.prems(2) by (simp add: l(1) c1(1) k Let_def)
    have "disk h2 l j = (if l = lba then with_new_file name (disk (tfs_disk st) l) j else disk (tfs_disk st) l j)"
      if "j < 512" for l j
      using that h2(3) w(1) by (simp add: l(3))
    moreover have "?m2 x = tfs_mem st x" if "x < ?b \<or> ?b + 512 \<le> x" for x
      unfolding w(2) [OF that] using that l(4) by auto
    ultimately show ?thesis
      using made h2(2) by (intro exI [of _ "?st2\<lparr>tfs_disk := h2\<rparr>"]) (simp add: s del: make_in_sectors.simps)
  next
    case False
    then have f: "find (entry_free ?D) [0..<16] = None" by (auto simp: find_None_iff)
    from False Suc.prems(10) obtain s' where s': "s = Suc s'" by (cases s) auto
    have step: "make_in_sectors rd wr path (Suc n) lba c st = make_in_sectors rd wr path n (lba + 1) c1 ?st1"
      using Suc.prems(2) by (simp add: l(1) c1(1) f Let_def)
    have lba1: "unat (lba + 1) = unat lba + 1"
      using Suc.prems(7) unat_add_no_wrap [of lba 1] by simp
    have up: "lba + of_nat (Suc t) = lba + 1 + of_nat t" for t by simp
    have full: "\<forall>t < s'. \<forall>k < 16. \<not> entry_free (disk (tfs_disk st) (lba + 1 + of_nat t)) k"
      using Suc.prems(9) unfolding s' up [symmetric] by blast
    have some: "\<exists>k < 16. entry_free (disk (tfs_disk st) (lba + 1 + of_nat s')) k"
      using Suc.prems(10) unfolding s' up .
    obtain st' where st': "make_in_sectors rd wr path n (lba + 1) c1 ?st1 = Ok (True, st')" "ok (tfs_disk st')"
      "\<forall>l j. j < 512 \<longrightarrow> disk (tfs_disk st') l j =
         (if l = lba + 1 + of_nat s' then with_new_file name (disk (tfs_disk st) l) j else disk (tfs_disk st) l j)"
      "tfs_fs_meta st' = tfs_fs_meta st" "tfs_sector_buffer st' = tfs_sector_buffer st"
      "\<forall>x. x < ?b \<or> ?b + 512 \<le> x \<longrightarrow> tfs_mem st' x = m1 x"
      using Suc.IH [of ?st1 s' "lba + 1" c1] Suc.prems(2-4,6-8) l(2,3) path c1(2) full some
      by (auto simp: s' lba1)
    then show ?thesis
      unfolding step using l(4) by (intro exI [of _ st']) (auto simp: s' add.assoc)
  qed
qed

end

section \<open>Lookup and creation on the drive\<close>

lemma entries_count:
  assumes "fs_sector_size M = 512" and "unat (fs_file_meta_sector_count M) \<le> 0x7FFFFF"
  shows "unat (tfs_count_file_meta_entries M) = 16 * unat (fs_file_meta_sector_count M)"
proof -
  have "unat (fs_file_meta_sector_count M * 512) = unat (fs_file_meta_sector_count M) * 512"
    using assms(2) by (subst unat_mult_lem [THEN iffD1]) simp_all
  then show ?thesis by (simp add: tfs_count_file_meta_entries_def assms(1) unat_div)
qed

lemma matching_entry_Some: "matching_entry D name = Some k \<Longrightarrow> k < 16 \<and> entry_matches D k name"
  by (auto simp: matching_entry_def find_Some_iff)

lemma matching_entry_None: "matching_entry D name = None \<longleftrightarrow> (\<forall>k < 16. \<not> entry_matches D k name)"
  by (auto simp: matching_entry_def find_None_iff)

lemma lookup_disk_cases:
  "(\<exists>s < n. \<exists>k. lookup_disk disk name n lba o' = Some (lba + of_nat s, k)
      \<and> matching_entry (disk (lba + of_nat s)) name = Some k)
   \<or> (lookup_disk disk name n lba o' = o' \<and> (\<forall>s < n. matching_entry (disk (lba + of_nat s)) name = None))"
proof (induction n arbitrary: lba o')
  case 0
  then show ?case by simp
next
  case (Suc n)
  let ?o = "case matching_entry (disk lba) name of None \<Rightarrow> o' | Some k \<Rightarrow> Some (lba, k)"
  have up: "lba + of_nat (Suc s) = lba + 1 + of_nat s" for s by simp
  from Suc.IH [of "lba + 1" ?o] show ?case
  proof
    assume "\<exists>s < n. \<exists>k. lookup_disk disk name n (lba + 1) ?o = Some (lba + 1 + of_nat s, k)
      \<and> matching_entry (disk (lba + 1 + of_nat s)) name = Some k"
    then obtain s k where "s < n" "lookup_disk disk name n (lba + 1) ?o = Some (lba + of_nat (Suc s), k)"
      "matching_entry (disk (lba + of_nat (Suc s))) name = Some k"
      unfolding up [symmetric] by blast
    then show ?thesis by (intro disjI1 exI [of _ "Suc s"]) simp
  next
    assume b: "lookup_disk disk name n (lba + 1) ?o = ?o
      \<and> (\<forall>s < n. matching_entry (disk (lba + 1 + of_nat s)) name = None)"
    show ?thesis
    proof (cases "matching_entry (disk lba) name")
      case None
      then show ?thesis using b unfolding up [symmetric]
        by (intro disjI2) (auto simp del: of_nat_Suc simp: less_Suc_eq_0_disj)
    next
      case (Some k)
      then show ?thesis using b by (intro disjI1 exI [of _ 0]) simp
    qed
  qed
qed

definition tfs_ready ::
  "device \<Rightarrow> channels \<Rightarrow> nat \<Rightarrow> nat \<Rightarrow> nat \<Rightarrow> drive \<Rightarrow> ('p, hw) tfs_state \<Rightarrow> bool" where
  "tfs_ready dev C fuel delay flush d0 st \<longleftrightarrow> ata_ready dev C fuel IDE_BUS_PRIM 0 delay flush d0 (tfs_disk st)
     \<and> fs_sector_size (tfs_fs_meta st) = 512 \<and> unat (fs_file_meta_sector_count (tfs_fs_meta st)) \<le> 0x7FFFFF"

abbreviation tfs_sectors ::
  "channels \<Rightarrow> nat \<Rightarrow> nat \<Rightarrow> drive \<Rightarrow> ('p, hw) tfs_state \<Rightarrow> u32 \<Rightarrow> nat \<Rightarrow> u8" where
  "tfs_sectors C delay flush d0 st \<equiv> sector_of C IDE_BUS_PRIM delay flush d0 0 (tfs_disk st)"

context sector_disk
begin

lemma get_attributes_spec:
  assumes "ok (tfs_disk st)" and "fs_sector_size (tfs_fs_meta st) = 512"
    and "unat (fs_file_meta_sector_count (tfs_fs_meta st)) \<le> 0x7FFFFF"
    and "lookup_areas path (unat (tfs_sector_buffer st)) file_meta" and "str_length path < 24"
    and "bytes_at (tfs_mem st) (str_data path) (str_length path) = name"
  shows "\<exists>b st'. tfs_get_file_attributes rd path file_meta st = Ok (b, st')
    \<and> ok (tfs_disk st') \<and> disk (tfs_disk st') = disk (tfs_disk st)
    \<and> (b \<longleftrightarrow> (\<exists>s < unat (fs_file_meta_sector_count (tfs_fs_meta st)). \<exists>k < 16.
          entry_matches (disk (tfs_disk st) (1 + of_nat s)) k name))
    \<and> (b \<longrightarrow> (\<exists>s < unat (fs_file_meta_sector_count (tfs_fs_meta st)). \<exists>k < 16.
          entry_matches (disk (tfs_disk st) (1 + of_nat s)) k name
        \<and> (\<forall>j < 32. tfs_mem st' (file_meta + j) = disk (tfs_disk st) (1 + of_nat s) (32 * k + j))))
    \<and> (\<forall>x. (x < unat (tfs_sector_buffer st) \<or> unat (tfs_sector_buffer st) + 512 \<le> x)
         \<and> (x < file_meta \<or> file_meta + 32 \<le> x) \<longrightarrow> tfs_mem st' x = tfs_mem st x)"
proof -
  let ?n = "unat (fs_file_meta_sector_count (tfs_fs_meta st))" and ?d = "disk (tfs_disk st)"
  let ?o = "lookup_disk ?d name ?n 1 None"
  have r0: "\<lparr>found = False, result_lba = 0, result_offset = 0\<rparr> = result_of None" by (simp add: result_of_def)
  obtain m h where l: "lookup_sectors rd path file_meta ?n 1 (result_of None) 0 st =
        Ok (result_of ?o, (set_mem m st)\<lparr>tfs_disk := h\<rparr>)" "ok h" "disk h = ?d" "entry_copied ?d ?o file_meta m"
      "\<forall>x. (x < unat (tfs_sector_buffer st) \<or> unat (tfs_sector_buffer st) + 512 \<le> x)
         \<and> (x < file_meta \<or> file_meta + 32 \<le> x) \<longrightarrow> m x = tfs_mem st x"
    using lookup_sectors_spec [OF assms(1,2,4,5,6), of 1 ?n 0 None] assms(3) entries_count [OF assms(2,3)]
    by (auto simp: entry_copied_def)
  have a: "tfs_get_file_attributes rd path file_meta st = Ok (found (result_of ?o), (set_mem m st)\<lparr>tfs_disk := h\<rparr>)"
    using l(1) by (simp add: tfs_get_file_attributes_def tfs_get_file_metadata_from_name_def
        tfs_get_file_metadata_lba_def r0)
  from lookup_disk_cases [of ?n ?d name 1 None] show ?thesis
  proof
    assume "\<exists>s < ?n. \<exists>k. ?o = Some (1 + of_nat s, k) \<and> matching_entry (?d (1 + of_nat s)) name = Some k"
    then obtain s k where s: "s < ?n" "?o = Some (1 + of_nat s, k)" "matching_entry (?d (1 + of_nat s)) name = Some k"
      by blast
    have "\<forall>j < 32. m (file_meta + j) = ?d (1 + of_nat s) (32 * k + j)"
      using l(4) s(2) by (simp add: entry_copied_def)
    with s matching_entry_Some [OF s(3)] a l(2,3,5) show ?thesis
      by (intro exI [of _ True] exI [of _ "(set_mem m st)\<lparr>tfs_disk := h\<rparr>"]) (auto simp: result_of_def)
  next
    assume "?o = None \<and> (\<forall>s < ?n. matching_entry (?d (1 + of_nat s)) name = None)"
    with a l(2,3,5) show ?thesis
      by (intro exI [of _ False] exI [of _ "(set_mem m st)\<lparr>tfs_disk := h\<rparr>"])
         (auto simp: result_of_def matching_entry_None)
  qed
qed

lemma make_new_file_spec:
  assumes "ok (tfs_disk st)" and "fs_sector_size (tfs_fs_meta st) = 512"
    and "unat (fs_file_meta_sector_count (tfs_fs_meta st)) \<le> 0x7FFFFF"
    and "disjoint_areas (unat (tfs_sector_buffer st)) 512 (str_data path) (str_length path)"
    and "str_length path < 24" and "bytes_at (tfs_mem st) (str_data path) (str_length path) = name"
    and "s < unat (fs_file_meta_sector_count (tfs_fs_meta st))"
    and "\<forall>t < s. \<forall>k < 16. \<not> entry_free (disk (tfs_disk st) (1 + of_nat t)) k"
    and "\<exists>k < 16. entry_free (disk (tfs_disk st) (1 + of_nat s)) k"
  shows "\<exists>st'. tfs_make_new_file rd wr path st = Ok (True, st') \<and> ok (tfs_disk st')
    \<and> (\<forall>l j. j < 512 \<longrightarrow> disk (tfs_disk st') l j =
         (if l = 1 + of_nat s then with_new_file name (disk (tfs_disk st) l) j else disk (tfs_disk st) l j))
    \<and> tfs_fs_meta st' = tfs_fs_meta st \<and> tfs_sector_buffer st' = tfs_sector_buffer st
    \<and> (\<forall>x. x < unat (tfs_sector_buffer st) \<or> unat (tfs_sector_buffer st) + 512 \<le> x \<longrightarrow> tfs_mem st' x = tfs_mem st x)"
proof -
  have "tfs_make_new_file rd wr path st =
      make_in_sectors rd wr path (unat (fs_file_meta_sector_count (tfs_fs_meta st))) 1 0 st"
    using assms(5) by (simp add: tfs_make_new_file_def tfs_get_file_metadata_lba_def)
  then show ?thesis
    using make_in_sectors_spec [OF assms(1,2,4,5,6,7), of 1 0] assms(3,8,9) entries_count [OF assms(2,3)]
    by simp
qed

end

lemma new_file_matches:
  assumes "length name < 24" and "\<forall>j < 512. D' j = with_new_file name D j"
  shows "entry_matches D' 0 name"
  using assms by (auto simp: entry_matches_def list_all_iff with_new_file_def)

section \<open>Properties\<close>

text \<open>
  (C10) Looking a file up. On a drive that follows the ATA protocol, \<open>tfs_get_file_attributes\<close> returns true
  exactly when some entry of the file metadata sectors has the name; then the 32 bytes of such an entry are
  in the caller's record. The drive's contents do not change, nor any byte outside the sector buffer and
  the record.
\<close>

theorem tfs_lookup_correct:
  assumes "tfs_ready dev C fuel delay flush d0 st" and "str_length path < 24"
    and "lookup_areas path (unat (tfs_sector_buffer st)) file_meta"
    and "bytes_at (tfs_mem st) (str_data path) (str_length path) = name"
  shows "\<exists>b st'. tfs_get_file_attributes (ata_read_sector dev C fuel IDE_BUS_PRIM 0) path file_meta st = Ok (b, st')
    \<and> tfs_sectors C delay flush d0 st' = tfs_sectors C delay flush d0 st
    \<and> (b \<longleftrightarrow> (\<exists>s < unat (fs_file_meta_sector_count (tfs_fs_meta st)). \<exists>k < 16.
          entry_matches (tfs_sectors C delay flush d0 st (1 + of_nat s)) k name))
    \<and> (b \<longrightarrow> (\<exists>s < unat (fs_file_meta_sector_count (tfs_fs_meta st)). \<exists>k < 16.
          entry_matches (tfs_sectors C delay flush d0 st (1 + of_nat s)) k name
        \<and> (\<forall>j < 32. tfs_mem st' (file_meta + j) = tfs_sectors C delay flush d0 st (1 + of_nat s) (32 * k + j))))
    \<and> (\<forall>x. (x < unat (tfs_sector_buffer st) \<or> unat (tfs_sector_buffer st) + 512 \<le> x)
         \<and> (x < file_meta \<or> file_meta + 32 \<le> x) \<longrightarrow> tfs_mem st' x = tfs_mem st x)"
proof -
  have r: "ata_ready dev C fuel IDE_BUS_PRIM 0 delay flush d0 (tfs_disk st)" "fs_sector_size (tfs_fs_meta st) = 512"
    "unat (fs_file_meta_sector_count (tfs_fs_meta st)) \<le> 0x7FFFFF"
    using assms(1) by (simp_all add: tfs_ready_def)
  from ata.get_attributes_spec [OF r assms(3,2,4)] show ?thesis by (elim exE conjE) (intro exI conjI; assumption)
qed

text \<open>A disk with one file, \<open>A\<close>, in the first entry of sector 1.\<close>

definition one_file_drive :: drive where
  "one_file_drive = blank_drive\<lparr>sectors := (\<lambda>u l i. if l = 1 \<and> i = 4 then 0x41 else 0)\<rparr>"

definition example_tfs :: "u8 \<Rightarrow> (pfa_state, hw) tfs_state" where
  "example_tfs c = \<lparr>tfs_heap = fresh_heap (\<lambda>x. if x = 0x3000 then c else 0), tfs_disk = hw_start,
     tfs_fs_meta = \<lparr>fs_jump = 0, fs_version = 0, fs_sector_count = 64, fs_sector_size = 512,
       fs_file_meta_sector_count = 1, fs_tag_meta_sector_count = 1, fs_tag_file_sector_count = 1,
       fs_fat_sector_count = 2, fs_free_file_id = 0, fs_free_tag_id = 0\<rparr>,
     tfs_sector_buffer = 0x1000\<rparr>"

definition example_path :: String where
  "example_path = \<lparr>str_data = 0x3000, str_length = 1\<rparr>"

lemma example_tfs_ready:
  "tfs_ready (drive_device 0x1F0 3 2 one_file_drive) legacy_channels 5 3 2 one_file_drive (example_tfs c)"
  using drive_device_channel [of 3 2 one_file_drive]
  by (simp add: tfs_ready_def ata_ready_def example_tfs_def drive_at_def drive_after_def hw_start_def
      one_file_drive_def blank_drive_def)

lemma example_tfs_areas:
  "lookup_areas example_path (unat (tfs_sector_buffer (example_tfs c))) 0x2000"
  "str_length example_path < 24"
  "bytes_at (tfs_mem (example_tfs c)) (str_data example_path) (str_length example_path) = [c]"
  by (simp_all add: lookup_areas_def disjoint_areas_def example_path_def example_tfs_def bytes_at_def
      fresh_heap_def memory_init_def)

lemma example_sector:
  "tfs_sectors legacy_channels 3 2 one_file_drive (example_tfs c) l j = (if l = 1 \<and> j = 8 then 0x41 else 0)"
  by (auto simp: sector_of_def sector_byte_def drive_at_def drive_after_def example_tfs_def hw_start_def
      one_file_drive_def elim!: evenE oddE)

theorem tfs_lookup_correct_witness:
  "\<exists>st'. tfs_get_file_attributes (ata_read_sector (drive_device 0x1F0 3 2 one_file_drive) legacy_channels 5 0 0)
      example_path 0x2000 (example_tfs 0x41) = Ok (True, st')"
proof -
  have m: "entry_matches (tfs_sectors legacy_channels 3 2 one_file_drive (example_tfs 0x41) (1 + of_nat 0)) 0 [0x41]"
    by (simp add: entry_matches_def example_sector)
  have some: "\<exists>s < unat (fs_file_meta_sector_count (tfs_fs_meta (example_tfs 0x41))). \<exists>k < 16.
      entry_matches (tfs_sectors legacy_channels 3 2 one_file_drive (example_tfs 0x41) (1 + of_nat s)) k [0x41]"
    by (rule exI [of _ 0], rule conjI [OF _ exI [of _ 0]], simp add: example_tfs_def) (use m in simp)
  obtain b st' where "tfs_get_file_attributes (ata_read_sector (drive_device 0x1F0 3 2 one_file_drive) legacy_channels 5 0 0)
      example_path 0x2000 (example_tfs 0x41) = Ok (b, st')" "b"
    using tfs_lookup_correct [OF example_tfs_ready example_tfs_areas(2,1,3)] some by blast
  then show ?thesis by auto
qed

text \<open>
  (C26) A new file can be looked up. When some file metadata sector has a free entry, \<open>tfs_make_new_file\<close>
  returns true, and a lookup of the same name then succeeds.
\<close>

theorem tfs_make_then_lookup:
  assumes "tfs_ready dev C fuel delay flush d0 st" and "str_length path < 24"
    and "lookup_areas path (unat (tfs_sector_buffer st)) file_meta"
    and "bytes_at (tfs_mem st) (str_data path) (str_length path) = name"
    and "s < unat (fs_file_meta_sector_count (tfs_fs_meta st))"
    and "\<forall>t < s. \<forall>k < 16. \<not> entry_free (tfs_sectors C delay flush d0 st (1 + of_nat t)) k"
    and "\<exists>k < 16. entry_free (tfs_sectors C delay flush d0 st (1 + of_nat s)) k"
  shows "\<exists>st' st2. tfs_make_new_file (ata_read_sector dev C fuel IDE_BUS_PRIM 0)
        (ata_write_sector dev C fuel IDE_BUS_PRIM 0) path st = Ok (True, st')
    \<and> tfs_get_file_attributes (ata_read_sector dev C fuel IDE_BUS_PRIM 0) path file_meta st' = Ok (True, st2)"
proof -
  let ?ok = "ata_ready dev C fuel IDE_BUS_PRIM 0 delay flush d0"
  have r: "?ok (tfs_disk st)" "fs_sector_size (tfs_fs_meta st) = 512"
    "unat (fs_file_meta_sector_count (tfs_fs_meta st)) \<le> 0x7FFFFF"
    using assms(1) by (simp_all add: tfs_ready_def)
  have dis: "disjoint_areas (unat (tfs_sector_buffer st)) 512 (str_data path) (str_length path)"
    using assms(3) by (simp add: lookup_areas_def)
  obtain st' where m: "tfs_make_new_file (ata_read_sector dev C fuel IDE_BUS_PRIM 0)
        (ata_write_sector dev C fuel IDE_BUS_PRIM 0) path st = Ok (True, st')" "?ok (tfs_disk st')"
    "\<forall>l j. j < 512 \<longrightarrow> tfs_sectors C delay flush d0 st' l j =
         (if l = 1 + of_nat s then with_new_file name (tfs_sectors C delay flush d0 st l) j
          else tfs_sectors C delay flush d0 st l j)"
    "tfs_fs_meta st' = tfs_fs_meta st" "tfs_sector_buffer st' = tfs_sector_buffer st"
    "\<forall>x. x < unat (tfs_sector_buffer st) \<or> unat (tfs_sector_buffer st) + 512 \<le> x \<longrightarrow> tfs_mem st' x = tfs_mem st x"
    using ata.make_new_file_spec [OF r dis assms(2,4,5,6,7)] by blast
  have path: "bytes_at (tfs_mem st') (str_data path) (str_length path) = name"
    unfolding assms(4) [symmetric]
    by (rule bytes_at_cong) (use m(6) dis in \<open>auto simp: disjoint_areas_def\<close>)
  have "length name < 24" using assms(2,4) by (metis length_bytes_at)
  then have "entry_matches (tfs_sectors C delay flush d0 st' (1 + of_nat s)) 0 name"
    by (rule new_file_matches [of name _ "tfs_sectors C delay flush d0 st (1 + of_nat s)"]) (use m(3) in simp)
  then have some: "\<exists>s < unat (fs_file_meta_sector_count (tfs_fs_meta st')). \<exists>k < 16.
      entry_matches (tfs_sectors C delay flush d0 st' (1 + of_nat s)) k name"
    using assms(5) m(4) by (intro exI [of _ s] conjI exI [of _ 0]) simp_all
  have r': "fs_sector_size (tfs_fs_meta st') = 512" "unat (fs_file_meta_sector_count (tfs_fs_meta st')) \<le> 0x7FFFFF"
    "lookup_areas path (unat (tfs_sector_buffer st')) file_meta"
    using r(2,3) assms(3) m(4,5) by simp_all
  obtain b st2 where
    "tfs_get_file_attributes (ata_read_sector dev C fuel IDE_BUS_PRIM 0) path file_meta st' = Ok (b, st2)" "b"
    using ata.get_attributes_spec [OF m(2) r' assms(2) path] some by blast
  with m(1) show ?thesis by auto
qed

lemma example_first_free:
  "\<exists>k < 16. entry_free (tfs_sectors legacy_channels 3 2 one_file_drive (example_tfs c) (1 + of_nat 0)) k"
  by (rule exI [of _ 1]) (simp add: entry_free_def example_sector)

lemma example_sector_count: "0 < unat (fs_file_meta_sector_count (tfs_fs_meta (example_tfs c)))"
  by (simp add: example_tfs_def)

theorem tfs_make_then_lookup_witness:
  "\<exists>st' st2. tfs_make_new_file (ata_read_sector (drive_device 0x1F0 3 2 one_file_drive) legacy_channels 5 0 0)
        (ata_write_sector (drive_device 0x1F0 3 2 one_file_drive) legacy_channels 5 0 0)
        example_path (example_tfs 0x42) = Ok (True, st')
    \<and> tfs_get_file_attributes (ata_read_sector (drive_device 0x1F0 3 2 one_file_drive) legacy_channels 5 0 0)
        example_path 0x2000 st' = Ok (True, st2)"
  by (rule tfs_make_then_lookup [OF example_tfs_ready example_tfs_areas(2,1,3) example_sector_count _ example_first_free])
     simp

lemma matches_nth: "entry_matches D 0 name \<Longrightarrow> j < length name \<Longrightarrow> D (8 + j) = name ! j"
  by (simp add: entry_matches_def list_all_iff)

lemma matches_used:
  assumes "entry_matches D 0 name" and "name \<noteq> []" and "0 \<notin> set name"
  shows "\<not> entry_free D 0"
proof -
  have "0 < length name" using assms(2) by simp
  then have "name ! 0 \<in> set name" by (rule nth_mem)
  then show ?thesis
    using matches_nth [OF assms(1) \<open>0 < length name\<close>] assms(3) by (auto simp: entry_free_def)
qed

lemma matches_unique:
  assumes "entry_matches D 0 a" and "entry_matches D 0 b" and "0 \<notin> set a" and "0 \<notin> set b"
  shows "a = b"
proof -
  have e: "D (8 + length a) = 0" "D (8 + length b) = 0"
    using assms(1,2) by (simp_all add: entry_matches_def)
  have z: "D (8 + j) \<noteq> 0" if "j < length a \<or> j < length b" for j
    using that matches_nth [OF assms(1), of j] matches_nth [OF assms(2), of j] assms(3,4) by (metis nth_mem)
  have "length a = length b"
    using e z by (metis linorder_neqE_nat)
  then show ?thesis
    using matches_nth [OF assms(1)] matches_nth [OF assms(2)] by (intro nth_equalityI) simp_all
qed

text \<open>
  (C36) A new file replaces the first file of its sector. \<open>tfs_make_new_file\<close> looks for a free entry and then
  writes the first entry of the sector: when that one is in use, its file is lost (its name no longer
  matches), every entry that was free stays free, and the other entries do not change.
\<close>

theorem tfs_make_overwrites_first:
  assumes "tfs_ready dev C fuel delay flush d0 st" and "str_length path < 24"
    and "disjoint_areas (unat (tfs_sector_buffer st)) 512 (str_data path) (str_length path)"
    and "bytes_at (tfs_mem st) (str_data path) (str_length path) = name"
    and "name \<noteq> []" and "0 \<notin> set name" and "0 < unat (fs_file_meta_sector_count (tfs_fs_meta st))"
    and "\<exists>k < 16. entry_free (tfs_sectors C delay flush d0 st 1) k"
    and "entry_matches (tfs_sectors C delay flush d0 st 1) 0 old" and "old \<noteq> name" and "length old < 24"
    and "old \<noteq> []" and "0 \<notin> set old"
  shows "\<exists>st'. tfs_make_new_file (ata_read_sector dev C fuel IDE_BUS_PRIM 0)
        (ata_write_sector dev C fuel IDE_BUS_PRIM 0) path st = Ok (True, st')
    \<and> entry_matches (tfs_sectors C delay flush d0 st' 1) 0 name
    \<and> \<not> entry_matches (tfs_sectors C delay flush d0 st' 1) 0 old
    \<and> (\<forall>k < 16. entry_free (tfs_sectors C delay flush d0 st' 1) k \<longleftrightarrow> entry_free (tfs_sectors C delay flush d0 st 1) k)
    \<and> (\<forall>j. 32 \<le> j \<and> j < 512 \<longrightarrow> tfs_sectors C delay flush d0 st' 1 j = tfs_sectors C delay flush d0 st 1 j)"
proof -
  let ?ok = "ata_ready dev C fuel IDE_BUS_PRIM 0 delay flush d0" and ?D = "tfs_sectors C delay flush d0 st 1"
  have r: "?ok (tfs_disk st)" "fs_sector_size (tfs_fs_meta st) = 512"
    "unat (fs_file_meta_sector_count (tfs_fs_meta st)) \<le> 0x7FFFFF"
    using assms(1) by (simp_all add: tfs_ready_def)
  have ln: "length name < 24" using assms(2,4) by (metis length_bytes_at)
  have free: "\<exists>k < 16. entry_free (tfs_sectors C delay flush d0 st (1 + of_nat 0)) k" using assms(8) by simp
  obtain st' where m: "tfs_make_new_file (ata_read_sector dev C fuel IDE_BUS_PRIM 0)
        (ata_write_sector dev C fuel IDE_BUS_PRIM 0) path st = Ok (True, st')"
    "\<forall>l j. j < 512 \<longrightarrow> tfs_sectors C delay flush d0 st' l j =
         (if l = 1 + of_nat 0 then with_new_file name (tfs_sectors C delay flush d0 st l) j
          else tfs_sectors C delay flush d0 st l j)"
    using ata.make_new_file_spec [OF r assms(3,2,4,7) _ free] by blast
  have D': "tfs_sectors C delay flush d0 st' 1 j = with_new_file name ?D j" if "j < 512" for j
    using that m(2) by simp
  have new: "entry_matches (tfs_sectors C delay flush d0 st' 1) 0 name"
    by (rule new_file_matches [OF ln, of _ ?D]) (use D' in simp)
  have gone: "\<not> entry_matches (tfs_sectors C delay flush d0 st' 1) 0 old"
    using matches_unique [OF new _ assms(6,13)] assms(10) by blast
  have same: "tfs_sectors C delay flush d0 st' 1 j = ?D j" if "32 \<le> j" "j < 512" for j
    using that D' ln by (simp add: with_new_file_def)
  have "entry_free (tfs_sectors C delay flush d0 st' 1) k \<longleftrightarrow> entry_free ?D k" if "k < 16" for k
  proof (cases "k = 0")
    case True
    then show ?thesis
      using matches_used [OF assms(9,12,13)] matches_used [OF new assms(5,6)] by simp
  next
    case False
    then show ?thesis using that same [of "32 * k + 8"] by (simp add: entry_free_def)
  qed
  with m(1) new gone same show ?thesis by blast
qed

theorem tfs_make_overwrites_first_witness:
  "\<exists>st'. tfs_make_new_file (ata_read_sector (drive_device 0x1F0 3 2 one_file_drive) legacy_channels 5 0 0)
        (ata_write_sector (drive_device 0x1F0 3 2 one_file_drive) legacy_channels 5 0 0)
        example_path (example_tfs 0x42) = Ok (True, st')
    \<and> \<not> entry_matches (tfs_sectors legacy_channels 3 2 one_file_drive st' 1) 0 [0x41]"
proof -
  have a: "disjoint_areas (unat (tfs_sector_buffer (example_tfs 0x42))) 512 (str_data example_path) (str_length example_path)"
    using example_tfs_areas(1) by (simp add: lookup_areas_def)
  have f: "\<exists>k < 16. entry_free (tfs_sectors legacy_channels 3 2 one_file_drive (example_tfs 0x42) 1) k"
    using example_first_free [of "0x42"] by simp
  have o: "entry_matches (tfs_sectors legacy_channels 3 2 one_file_drive (example_tfs 0x42) 1) 0 [0x41]"
    by (simp add: entry_matches_def example_sector)
  show ?thesis
    using tfs_make_overwrites_first [OF example_tfs_ready example_tfs_areas(2) a example_tfs_areas(3) _ _
        example_sector_count f o] by force
qed

lemma ld32_zero:
  assumes "\<And>j. j < 4 \<Longrightarrow> m (a + j) = 0"
  shows "ld32 m a = 0"
  using assms [of 0] assms [of 1] assms [of 2] assms [of 3] by (simp add: ld32_def)

lemma zero_header:
  assumes "free_segments_head h \<noteq> 0" and "\<And>j. j < 8 \<Longrightarrow> hmem h (unat (free_segments_head h) + j) = 0"
  shows "\<not> heap_ok h zs"
proof
  assume ok: "heap_ok h zs"
  have "seg_len (hmem h) (free_segments_head h) = 0"
    unfolding seg_len_def
  proof (rule ld32_zero)
    show "hmem h (unat (free_segments_head h) + 4 + j) = 0" if "j < 4" for j
      using assms(2) [of "4 + j"] that by (simp add: add.assoc)
  qed
  with ok assms(1) show False by (cases zs) (auto simp: heap_ok_def)
qed

text \<open>The block of the table, taken off a first segment that is large enough.\<close>

lemma table_block:
  assumes "heap_ok h ((a, n) # A)" and "1036 \<le> unat n" and "length A + 1 < fuel"
  obtains h' where "memory_allocate commit fuel 1024 h = Ok (a + 4, h')"
    and "heap_ok h' ((a + 1028, n - 1028) # A)"
    and "unat (a + 4) = unat a + 4" and "unat (a + 1028) = unat a + 1028"
proof -
  have sz: "size_ok 1024" by (simp add: size_ok_def)
  have bs: "block_size 1024 = 1028" by (simp add: word_unat_eq_iff unat_block_size(1) [OF sz])
  have ff: "first_fit (block_size 1024) ((a, n) # A) = Some (a, (a + 1028, n - 1028) # A)"
    using assms(2) by (simp add: bs)
  have fuel: "length ((a, n) # A) < fuel" using assms(3) by simp
  obtain h' where h: "memory_allocate commit fuel 1024 h = Ok (a + 4, h')" "heap_ok h' ((a + 1028, n - 1028) # A)"
    by (rule allocate_hit [OF assms(1) sz ff fuel])
  have "unat a + unat n < 4294967296"
    using assms(1) by (auto simp: heap_ok_def dest: fsorted_le intro: le_less_trans [OF _ unat_lt_pow2])
  then show ?thesis
    using assms(2) h by (intro that [of h']) (simp_all add: unat_add_no_wrap)
qed

text \<open>
  Loading the allocation table destroys the heap. The table's buffer has 1024 bytes, and the second sector
  is stored 1024 bytes after its start: the table's second half keeps what was in memory, and the sector
  replaces the header of the free segment behind the block. When the sector starts with eight zero bytes, as on
  a fresh volume, no free list is left.
\<close>

theorem tfs_fats_overwrite_heap:
  assumes "tfs_ready dev C fuel delay flush d0 st" and "heap_ok (tfs_heap st) ((a, n) # A)" and "1036 \<le> unat n"
    and "fs_fat_sector_count (tfs_fs_meta st) = 2" and "tfs_get_fat_lba (tfs_fs_meta st) = L" and "L \<le> 0xFFFFFFE"
    and "length A + 1 < fuel"
  shows "\<exists>st'. load_fats commit (ata_read_sector dev C fuel IDE_BUS_PRIM 0) fuel st = Ok (a + 4, st')
    \<and> (\<forall>j < 512. tfs_mem st' (unat a + 4 + j) = tfs_sectors C delay flush d0 st L j)
    \<and> (\<forall>j < 512. tfs_mem st' (unat a + 4 + 1024 + j) = tfs_sectors C delay flush d0 st (L + 1) j)
    \<and> free_segments_head (tfs_heap st') = a + 1028
    \<and> ((\<forall>j < 8. tfs_sectors C delay flush d0 st (L + 1) j = 0) \<longrightarrow> (\<forall>zs. \<not> heap_ok (tfs_heap st') zs))"
proof -
  have r: "ata_ready dev C fuel IDE_BUS_PRIM 0 delay flush d0 (tfs_disk st)" "fs_sector_size (tfs_fs_meta st) = 512"
    using assms(1) by (simp_all add: tfs_ready_def)
  obtain h where h: "memory_allocate commit fuel 1024 (tfs_heap st) = Ok (a + 4, h)"
    "heap_ok h ((a + 1028, n - 1028) # A)" and u: "unat (a + 4) = unat a + 4" "unat (a + 1028) = unat a + 1028"
    by (rule table_block [OF assms(2,3,7)])
  have L: "L \<le> 0xFFFFFFF" "L + 1 \<le> 0xFFFFFFF"
    using assms(6) unat_add_no_wrap [of L 1] by (simp_all add: word_le_nat_alt)
  let ?st0 = "st\<lparr>tfs_heap := h\<rparr>"
  obtain m1 h1 where l1: "load_sector (ata_read_sector dev C fuel IDE_BUS_PRIM 0) L (a + 4) ?st0
        = Ok ((set_mem m1 ?st0)\<lparr>tfs_disk := h1\<rparr>)"
    "ata_ready dev C fuel IDE_BUS_PRIM 0 delay flush d0 h1"
    "sector_of C IDE_BUS_PRIM delay flush d0 0 h1 = tfs_sectors C delay flush d0 ?st0"
    "\<forall>x. m1 x = (if unat (a + 4) \<le> x \<and> x < unat (a + 4) + 512
       then tfs_sectors C delay flush d0 ?st0 L (x - unat (a + 4)) else tfs_mem ?st0 x)"
    by (rule ata.load_sector_ok [of dev C fuel IDE_BUS_PRIM 0 delay flush d0 ?st0 L "a + 4"])
       (use r(1) L(1) in simp_all)
  let ?st1 = "(set_mem m1 ?st0)\<lparr>tfs_disk := h1\<rparr>"
  obtain m2 h2 where l2: "load_sector (ata_read_sector dev C fuel IDE_BUS_PRIM 0) (L + 1) (a + 1028) ?st1
        = Ok ((set_mem m2 ?st1)\<lparr>tfs_disk := h2\<rparr>)"
    "\<forall>x. m2 x = (if unat (a + 1028) \<le> x \<and> x < unat (a + 1028) + 512
       then tfs_sectors C delay flush d0 ?st1 (L + 1) (x - unat (a + 1028)) else tfs_mem ?st1 x)"
    by (rule ata.load_sector_ok [of dev C fuel IDE_BUS_PRIM 0 delay flush d0 ?st1 "L + 1" "a + 1028"])
       (use l1(2) L(2) in simp_all)
  let ?st' = "(set_mem m2 ?st1)\<lparr>tfs_disk := h2\<rparr>"
  have run: "load_fats commit (ata_read_sector dev C fuel IDE_BUS_PRIM 0) fuel st = Ok (a + 4, ?st')"
    using r(2) assms(4,5) l1(1) l2(1) by (simp add: load_fats_def allocate_def h(1) add.assoc)
  have head: "free_segments_head (tfs_heap ?st') = a + 1028"
    using h(2) by (simp add: heap_ok_def set_mem_def)
  have bytes: "tfs_mem ?st' (unat a + 4 + j) = tfs_sectors C delay flush d0 st L j"
    "tfs_mem ?st' (unat a + 4 + 1024 + j) = tfs_sectors C delay flush d0 st (L + 1) j" if "j < 512" for j
    using that l1(3,4) l2(2) by (simp_all add: u set_mem_def)
  have "\<not> heap_ok (tfs_heap ?st') zs" if z: "\<forall>j < 8. tfs_sectors C delay flush d0 st (L + 1) j = 0" for zs
  proof (rule zero_header)
    show "free_segments_head (tfs_heap ?st') \<noteq> 0"
      unfolding head using u(2) by (metis add_is_0 unat_0 zero_neq_numeral)
    show "tfs_mem ?st' (unat (free_segments_head (tfs_heap ?st')) + j) = 0" if "j < 8" for j
      unfolding head using bytes(2) [of j] that z by (simp add: u add.assoc)
  qed
  with run bytes head show ?thesis by blast
qed

definition one_segment :: "memory \<Rightarrow> pfa_state heap_state" where
  "one_segment m = (fresh_heap (set_len (set_next m 0xC0800000 0) 0xC0800000 4096))
     \<lparr>free_segments_head := 0xC0800000, next_page_virt_addr := 0xC0801000\<rparr>"

lemma one_segment_ok: "heap_ok (one_segment m) [(0xC0800000, 4096)]"
  by (simp add: one_segment_def heap_ok_def fresh_heap_def memory_init_def)

theorem tfs_fats_overwrite_heap_witness:
  "\<exists>st'. load_fats (pfa_commit_page example_link)
      (ata_read_sector (drive_device 0x1F0 3 2 one_file_drive) legacy_channels 5 0 0) 5
      ((example_tfs 0x41)\<lparr>tfs_heap := one_segment (\<lambda>x. 0)\<rparr>) = Ok (0xC0800004, st')
    \<and> (\<forall>zs. \<not> heap_ok (tfs_heap st') zs)"
proof -
  let ?st = "(example_tfs 0x41)\<lparr>tfs_heap := one_segment (\<lambda>x. 0)\<rparr>"
  have r: "tfs_ready (drive_device 0x1F0 3 2 one_file_drive) legacy_channels 5 3 2 one_file_drive ?st"
    using example_tfs_ready [of "0x41"] by (simp add: tfs_ready_def)
  have h: "heap_ok (tfs_heap ?st) [(0xC0800000, 4096)]" by (simp add: one_segment_ok)
  have z: "\<forall>j < 8. tfs_sectors legacy_channels 3 2 one_file_drive ?st (4 + 1) j = 0"
    using example_sector [of "0x41"] by simp
  have f: "fs_fat_sector_count (tfs_fs_meta ?st) = 2" "tfs_get_fat_lba (tfs_fs_meta ?st) = 4"
    by (simp_all add: example_tfs_def tfs_get_fat_lba_def tfs_get_tag_file_array_lba_def
        tfs_get_tag_metadata_lba_def tfs_get_file_metadata_lba_def)
  show ?thesis
    using tfs_fats_overwrite_heap [OF r h _ f, of "pfa_commit_page example_link"] z by auto
qed

end
