(* ===== verification/TagImage.thy ===== *)
theory TagImage
  imports CMem
begin

text \<open>
  The TagFS image and the helpers that every TagFS tool shares, \<open>src/tagfs/utils.c\<close>: the geometry of the
  sections, the packed records, the search for a file by name and for a free FAT entry.

  An image is the memory mapping of the image file: its bytes and its length. Addresses are offsets from the
  start of the mapping and are integers, because the code computes negative ones; every load and store
  outside the mapping is a \<open>Fault\<close>. The sizes of the sections are 32-bit products that wrap, as in the
  source. The three searches of the tools are instances of one locale, \<open>first_match\<close>.
\<close>

section \<open>The mapping\<close>

record image =
  imem :: memory
  ilen :: nat

definition img_at :: "image \<Rightarrow> int \<Rightarrow> nat \<Rightarrow> bool" where
  "img_at img a w \<longleftrightarrow> 0 \<le> a \<and> a + int w \<le> int (ilen img)"

definition img_ld8 :: "image \<Rightarrow> int \<Rightarrow> u8 outcome" where
  "img_ld8 img a = (if img_at img a 1 then Ok (ld8 (imem img) (nat a)) else Fault ''outside the image'')"

definition img_ld16 :: "image \<Rightarrow> int \<Rightarrow> u16 outcome" where
  "img_ld16 img a = (if img_at img a 2 then Ok (ld16 (imem img) (nat a)) else Fault ''outside the image'')"

definition img_ld32 :: "image \<Rightarrow> int \<Rightarrow> u32 outcome" where
  "img_ld32 img a = (if img_at img a 4 then Ok (ld32 (imem img) (nat a)) else Fault ''outside the image'')"

definition img_st8 :: "image \<Rightarrow> int \<Rightarrow> u8 \<Rightarrow> image outcome" where
  "img_st8 img a v = (if img_at img a 1 then Ok (img\<lparr>imem := st8 (imem img) (nat a) v\<rparr>)
     else Fault ''outside the image'')"

definition img_st16 :: "image \<Rightarrow> int \<Rightarrow> u16 \<Rightarrow> image outcome" where
  "img_st16 img a v = (if img_at img a 2 then Ok (img\<lparr>imem := st16 (imem img) (nat a) v\<rparr>)
     else Fault ''outside the image'')"

definition img_st32 :: "image \<Rightarrow> int \<Rightarrow> u32 \<Rightarrow> image outcome" where
  "img_st32 img a v = (if img_at img a 4 then Ok (img\<lparr>imem := st32 (imem img) (nat a) v\<rparr>)
     else Fault ''outside the image'')"

text \<open>\<open>memcpy\<close> between the image and a buffer.\<close>

definition mem_put :: "memory \<Rightarrow> nat \<Rightarrow> u8 list \<Rightarrow> memory" where
  "mem_put m a bs = (\<lambda>x. if a \<le> x \<and> x < a + length bs then bs ! (x - a) else m x)"

definition img_load :: "image \<Rightarrow> int \<Rightarrow> nat \<Rightarrow> u8 list outcome" where
  "img_load img a n = (if img_at img a n then Ok (bytes_at (imem img) (nat a) n)
     else Fault ''outside the image'')"

definition img_store :: "image \<Rightarrow> int \<Rightarrow> u8 list \<Rightarrow> image outcome" where
  "img_store img a bs = (if img_at img a (length bs) then Ok (img\<lparr>imem := mem_put (imem img) (nat a) bs\<rparr>)
     else Fault ''outside the image'')"

text \<open>\<open>strcmp (str, img + a) == 0\<close>: it reads up to the first difference or the end of the string.\<close>

fun img_strcmp :: "image \<Rightarrow> u8 list \<Rightarrow> int \<Rightarrow> bool outcome" where
  "img_strcmp img [] a = obind (img_ld8 img a) (\<lambda>b. Ok (b = 0))"
| "img_strcmp img (c # cs) a =
     obind (img_ld8 img a) (\<lambda>b. if b = c then img_strcmp img cs (a + 1) else Ok False)"

section \<open>Records and geometry\<close>

text \<open>The fields of the \<open>FS_Metadata\<close> record at the start of the image.\<close>

definition m_sector_count :: "image \<Rightarrow> u32" where "m_sector_count img = ld32 (imem img) 8"
definition m_sector_size :: "image \<Rightarrow> u32" where "m_sector_size img = ld32 (imem img) 12"
definition m_file_meta_sector_count :: "image \<Rightarrow> u32" where "m_file_meta_sector_count img = ld32 (imem img) 16"
definition m_tag_meta_sector_count :: "image \<Rightarrow> u32" where "m_tag_meta_sector_count img = ld32 (imem img) 20"
definition m_tag_file_sector_count :: "image \<Rightarrow> u32" where "m_tag_file_sector_count img = ld32 (imem img) 24"
definition m_fat_sector_count :: "image \<Rightarrow> u32" where "m_fat_sector_count img = ld32 (imem img) 28"

definition get_file_metadata :: "image \<Rightarrow> int" where
  "get_file_metadata img = int (unat (m_sector_size img))"

definition get_tag_metadata :: "image \<Rightarrow> int" where
  "get_tag_metadata img = int (unat ((1 + m_file_meta_sector_count img) * m_sector_size img))"

definition get_tag_file_array :: "image \<Rightarrow> int" where
  "get_tag_file_array img =
     int (unat ((1 + m_file_meta_sector_count img + m_tag_meta_sector_count img) * m_sector_size img))"

definition get_fat :: "image \<Rightarrow> int" where
  "get_fat img = int (unat ((1 + m_file_meta_sector_count img + m_tag_meta_sector_count img
     + m_tag_file_sector_count img) * m_sector_size img))"

definition get_data :: "image \<Rightarrow> int" where
  "get_data img = int (unat ((1 + m_file_meta_sector_count img + m_tag_meta_sector_count img
     + m_tag_file_sector_count img + m_fat_sector_count img) * m_sector_size img))"

text \<open>The fields of \<open>file_meta[i]\<close>: 32 bytes each, the name from byte 8 on.\<close>

definition meta_first :: "int \<Rightarrow> int \<Rightarrow> int" where "meta_first file_meta i = file_meta + 32 * i"
definition meta_size :: "int \<Rightarrow> int \<Rightarrow> int" where "meta_size file_meta i = file_meta + 32 * i + 4"
definition meta_name :: "int \<Rightarrow> int \<Rightarrow> int" where "meta_name file_meta i = file_meta + 32 * i + 8"

definition count_file_meta_entries :: "image \<Rightarrow> nat" where
  "count_file_meta_entries img = unat (m_file_meta_sector_count img * m_sector_size img) div 32"

function name_search :: "image \<Rightarrow> int \<Rightarrow> u8 list \<Rightarrow> nat \<Rightarrow> u16 outcome" where
  "name_search img file_meta name i =
     (if i < count_file_meta_entries img then
        obind (img_strcmp img name (meta_name file_meta (int i))) (\<lambda>eq.
        if eq then Ok (of_nat (i + 1)) else name_search img file_meta name (i + 1))
      else Ok 0)"
  by pat_completeness auto
termination
  by (relation "measure (\<lambda>(img, fm, name, i). count_file_meta_entries img - i)") auto

definition get_file_id_from_name :: "image \<Rightarrow> int \<Rightarrow> u8 list \<Rightarrow> u16 outcome" where
  "get_file_id_from_name img file_meta name = name_search img file_meta name 0"

definition file_metadata_entry_is_free :: "image \<Rightarrow> int \<Rightarrow> bool outcome" where
  "file_metadata_entry_is_free img entry = obind (img_ld8 img (entry + 8)) (\<lambda>b. Ok (b = 0))"

definition tag_metadata_entry_is_free :: "image \<Rightarrow> int \<Rightarrow> bool outcome" where
  "tag_metadata_entry_is_free img entry = obind (img_ld8 img entry) (\<lambda>b. Ok (b = 0))"

definition tag_file_entry_is_free :: "image \<Rightarrow> int \<Rightarrow> bool outcome" where
  "tag_file_entry_is_free img entry = obind (img_ld16 img entry) (\<lambda>t. Ok (t = 0))"

definition fat_count :: "image \<Rightarrow> nat" where
  "fat_count img = unat (m_fat_sector_count img * m_sector_size img) div 2"

definition fat_at :: "int \<Rightarrow> int \<Rightarrow> int" where
  "fat_at fat i = fat + 2 * i"

function free_fat_search :: "image \<Rightarrow> int \<Rightarrow> nat \<Rightarrow> int outcome" where
  "free_fat_search img fat i =
     (if i < fat_count img then
        obind (img_ld16 img (fat_at fat (int i))) (\<lambda>e.
        if e = 0 then Ok (int i) else free_fat_search img fat (i + 1))
      else Ok (- 1))"
  by pat_completeness auto
termination
  by (relation "measure (\<lambda>(img, fat, i). fat_count img - i)") auto

definition find_free_fat :: "image \<Rightarrow> int \<Rightarrow> int outcome" where
  "find_free_fat img fat = free_fat_search img fat 0"

declare name_search.simps [simp del] free_fat_search.simps [simp del]

section \<open>Well-formed images\<close>

text \<open>
  The geometry an image must have for the sections to lie one after the other inside the mapping. The
  layout is what \<open>tfsfmt format\<close> writes.
\<close>

definition sector :: "image \<Rightarrow> nat" where "sector img = unat (m_sector_size img)"

definition sections :: "image \<Rightarrow> nat" where
  "sections img = 1 + unat (m_file_meta_sector_count img) + unat (m_tag_meta_sector_count img)
     + unat (m_tag_file_sector_count img) + unat (m_fat_sector_count img)"

definition fat_base :: "image \<Rightarrow> nat" where
  "fat_base img = (1 + unat (m_file_meta_sector_count img) + unat (m_tag_meta_sector_count img)
     + unat (m_tag_file_sector_count img)) * sector img"

text \<open>The tag names, 32 bytes each, and the tag file map, four bytes for each link.\<close>

definition tag_base :: "image \<Rightarrow> nat" where
  "tag_base img = (1 + unat (m_file_meta_sector_count img)) * sector img"

definition link_base :: "image \<Rightarrow> nat" where
  "link_base img = (1 + unat (m_file_meta_sector_count img) + unat (m_tag_meta_sector_count img)) * sector img"

definition tag_entries :: "image \<Rightarrow> nat" where
  "tag_entries img = unat (m_tag_meta_sector_count img) * sector img div 32"

definition link_entries :: "image \<Rightarrow> nat" where
  "link_entries img = unat (m_tag_file_sector_count img) * sector img div 4"

definition data_base :: "image \<Rightarrow> nat" where
  "data_base img = sections img * sector img"

definition fat_entries :: "image \<Rightarrow> nat" where
  "fat_entries img = unat (m_fat_sector_count img) * sector img div 2"

definition meta_entries :: "image \<Rightarrow> nat" where
  "meta_entries img = unat (m_file_meta_sector_count img) * sector img div 32"

definition img_wf :: "image \<Rightarrow> bool" where
  "img_wf img \<longleftrightarrow> 36 \<le> ilen img \<and> 64 \<le> sector img \<and> sections img * sector img < 2 ^ 32
     \<and> (sections img + fat_entries img) * sector img \<le> ilen img
     \<and> (sections img + fat_entries img) * sector img < 2 ^ 32 \<and> meta_entries img < 2 ^ 16
     \<and> fat_entries img < 2 ^ 16"

text \<open>The views of the image the theorems speak about.\<close>

definition fat_entry :: "image \<Rightarrow> nat \<Rightarrow> u16" where
  "fat_entry img i = ld16 (imem img) (fat_base img + 2 * i)"

definition meta_base :: "image \<Rightarrow> nat \<Rightarrow> nat" where
  "meta_base img i = sector img + 32 * i"

definition entry_first :: "image \<Rightarrow> nat \<Rightarrow> u32" where "entry_first img i = ld32 (imem img) (meta_base img i)"
definition entry_size :: "image \<Rightarrow> nat \<Rightarrow> u32" where "entry_size img i = ld32 (imem img) (meta_base img i + 4)"

definition has_name :: "image \<Rightarrow> nat \<Rightarrow> u8 list \<Rightarrow> bool" where
  "has_name img i name \<longleftrightarrow> bytes_at (imem img) (meta_base img i + 8) (length name) = name
     \<and> imem img (meta_base img i + 8 + length name) = 0"

definition entry_free :: "image \<Rightarrow> nat \<Rightarrow> bool" where
  "entry_free img i \<longleftrightarrow> imem img (meta_base img i + 8) = 0"

definition data_byte :: "image \<Rightarrow> nat \<Rightarrow> nat \<Rightarrow> u8" where
  "data_byte img s k = imem img (data_base img + s * sector img + k)"

section \<open>Search loops\<close>

text \<open>
  A loop that tests the indices from \<open>i\<close> up to a bound and returns at the first hit.
\<close>

locale first_match =
  fixes scan :: "'s \<Rightarrow> nat \<Rightarrow> 'r outcome"
    and bound :: "'s \<Rightarrow> nat"
    and test :: "'s \<Rightarrow> nat \<Rightarrow> bool outcome"
    and hit :: "'s \<Rightarrow> nat \<Rightarrow> 'r outcome"
    and miss :: "'s \<Rightarrow> 'r"
  assumes scan_step: "scan s i = (if i < bound s then
      obind (test s i) (\<lambda>b. if b then hit s i else scan s (i + 1)) else Ok (miss s))"
begin

lemma scan_hit:
  assumes "i \<le> k" and "k < bound s" and "test s k = Ok True"
    and "\<And>j. i \<le> j \<Longrightarrow> j < k \<Longrightarrow> test s j = Ok False"
  shows "scan s i = hit s k"
  using assms
proof (induction "k - i" arbitrary: i)
  case 0
  then show ?case by (subst scan_step) simp
next
  case (Suc n)
  then have "i < k" by simp
  then have "scan s i = scan s (i + 1)" using Suc.prems by (subst scan_step) simp
  moreover have "scan s (i + 1) = hit s k" by (rule Suc.hyps) (use Suc in auto)
  ultimately show ?case by simp
qed

lemma scan_miss:
  assumes "\<And>j. i \<le> j \<Longrightarrow> j < bound s \<Longrightarrow> test s j = Ok False"
  shows "scan s i = Ok (miss s)"
  using assms
proof (induction "bound s - i" arbitrary: i)
  case 0
  then show ?case by (subst scan_step) simp
next
  case (Suc n)
  then have "i < bound s" by simp
  then have "scan s i = scan s (i + 1)" using Suc.prems by (subst scan_step) simp
  moreover have "scan s (i + 1) = Ok (miss s)" by (rule Suc.hyps) (use Suc in auto)
  ultimately show ?case by simp
qed

lemma scan_total:
  assumes t: "\<And>j. j < bound s \<Longrightarrow> test s j = Ok (P j)"
  shows "(\<exists>k < bound s. P k \<and> (\<forall>j < k. \<not> P j) \<and> scan s 0 = hit s k)
    \<or> (\<forall>j < bound s. \<not> P j) \<and> scan s 0 = Ok (miss s)"
proof (cases "\<exists>k < bound s. P k")
  case True
  define k where "k = (LEAST k. k < bound s \<and> P k)"
  have k: "k < bound s \<and> P k" unfolding k_def by (rule LeastI_ex) (use True in blast)
  have f: "\<not> P j" if "j < k" for j
    using not_less_Least [of j "\<lambda>k. k < bound s \<and> P k"] that k unfolding k_def [symmetric] by auto
  have "scan s 0 = hit s k"
    by (rule scan_hit) (use k f t in auto)
  with k f show ?thesis by blast
next
  case False
  then show ?thesis using t by (intro disjI2 conjI scan_miss) auto
qed

end

interpretation names: first_match "\<lambda>(img, fm, name). name_search img fm name"
    "\<lambda>(img, fm, name). count_file_meta_entries img"
    "\<lambda>(img, fm, name) i. img_strcmp img name (meta_name fm (int i))" "\<lambda>s i. Ok (of_nat (i + 1))" "\<lambda>s. 0"
  by unfold_locales (auto simp: name_search.simps split: prod.splits intro!: arg_cong [of _ _ "obind _"])

interpretation free_fat: first_match "\<lambda>(img, fat). free_fat_search img fat" "\<lambda>(img, fat). fat_count img"
    "\<lambda>(img, fat) i. obind (img_ld16 img (fat_at fat (int i))) (\<lambda>e. Ok (e = 0))" "\<lambda>s i. Ok (int i)" "\<lambda>s. - 1"
  by unfold_locales (auto simp: free_fat_search.simps obind_assoc split: prod.splits
      intro!: arg_cong [of _ _ "obind _"])

section \<open>Geometry of a well-formed image\<close>

lemma unat_of_nat_u32: "n < 4294967296 \<Longrightarrow> unat (of_nat n :: u32) = n"
  by (simp add: unat_of_nat)

lemma geometry:
  assumes "img_wf img"
  shows "get_fat img = int (fat_base img)" and "get_data img = int (data_base img)"
    and "count_file_meta_entries img = meta_entries img" and "fat_count img = fat_entries img"
    and "get_file_metadata img = int (sector img)" and "get_tag_metadata img = int (tag_base img)"
    and "get_tag_file_array img = int (link_base img)"
    and "unat (m_tag_meta_sector_count img * m_sector_size img) div 32 = tag_entries img"
    and "unat (m_tag_file_sector_count img * m_sector_size img) div 4 = link_entries img"
proof -
  let ?fm = "unat (m_file_meta_sector_count img)" and ?tm = "unat (m_tag_meta_sector_count img)"
    and ?tf = "unat (m_tag_file_sector_count img)" and ?fa = "unat (m_fat_sector_count img)"
    and ?s = "unat (m_sector_size img)"
  have lt: "(1 + ?fm + ?tm + ?tf + ?fa) * ?s < 4294967296"
    using assms by (simp add: img_wf_def sections_def sector_def)
  have le: "k * ?s < 4294967296" if "k \<le> 1 + ?fm + ?tm + ?tf + ?fa" for k
    using lt mult_le_mono1 [OF that, of ?s] by (rule le_less_trans [rotated])
  have w: "of_nat (unat x) = x" for x :: u32 by simp
  have p: "unat ((of_nat k :: u32) * m_sector_size img) = k * ?s" if "k \<le> 1 + ?fm + ?tm + ?tf + ?fa" for k
  proof -
    have "(of_nat k :: u32) * m_sector_size img = of_nat (k * ?s)" by simp
    then show ?thesis using unat_of_nat_u32 [OF le [OF that]] by simp
  qed
  show "get_file_metadata img = int (sector img)" by (simp add: get_file_metadata_def sector_def)
  show "get_fat img = int (fat_base img)"
    unfolding get_fat_def fat_base_def sector_def using p [of "1 + ?fm + ?tm + ?tf"]
    by (simp only: of_nat_add of_nat_1 w le_add1)
  show "get_data img = int (data_base img)"
    unfolding get_data_def data_base_def sections_def sector_def using p [of "1 + ?fm + ?tm + ?tf + ?fa"]
    by (simp only: of_nat_add of_nat_1 w order_refl)
  show "get_tag_metadata img = int (tag_base img)"
    unfolding get_tag_metadata_def tag_base_def sector_def using p [of "1 + ?fm"]
    by (simp only: of_nat_add of_nat_1 w)
  show "get_tag_file_array img = int (link_base img)"
    unfolding get_tag_file_array_def link_base_def sector_def using p [of "1 + ?fm + ?tm"]
    by (simp only: of_nat_add of_nat_1 w)
  show "unat (m_tag_meta_sector_count img * m_sector_size img) div 32 = tag_entries img"
    using p [of ?tm] by (simp add: tag_entries_def sector_def)
  show "unat (m_tag_file_sector_count img * m_sector_size img) div 4 = link_entries img"
    using p [of ?tf] by (simp add: link_entries_def sector_def)
  show "count_file_meta_entries img = meta_entries img"
    using p [of ?fm] by (simp add: count_file_meta_entries_def meta_entries_def sector_def)
  show "fat_count img = fat_entries img"
    using p [of ?fa] by (simp add: fat_count_def fat_entries_def sector_def)
qed

lemma section_bounds:
  assumes "img_wf img"
  shows "i < meta_entries img \<Longrightarrow> meta_base img i + 32 \<le> fat_base img"
    and "i < fat_entries img \<Longrightarrow> fat_base img + 2 * i + 2 \<le> data_base img"
    and "i < fat_entries img \<Longrightarrow> data_base img + i * sector img + sector img \<le> ilen img"
    and "data_base img \<le> ilen img" and "64 \<le> sector img"
    and "i < fat_entries img \<Longrightarrow> i * sector img < 4294967296"
    and "i < meta_entries img \<Longrightarrow> meta_base img i + 32 \<le> tag_base img"
    and "i < tag_entries img \<Longrightarrow> tag_base img + 32 * i + 32 \<le> link_base img"
    and "i < link_entries img \<Longrightarrow> link_base img + 4 * i + 4 \<le> fat_base img"
    and "sector img \<le> tag_base img" "tag_base img \<le> link_base img" "link_base img \<le> fat_base img"
    "fat_base img \<le> data_base img"
proof -
  let ?fm = "unat (m_file_meta_sector_count img)" and ?tm = "unat (m_tag_meta_sector_count img)"
    and ?tf = "unat (m_tag_file_sector_count img)" and ?fa = "unat (m_fat_sector_count img)"
  have w: "64 \<le> sector img" "(sections img + fat_entries img) * sector img \<le> ilen img"
    "(sections img + fat_entries img) * sector img < 4294967296"
    using assms by (simp_all add: img_wf_def)
  show "64 \<le> sector img" by (fact w(1))
  show "data_base img \<le> ilen img"
    using w(2) by (simp add: data_base_def add_mult_distrib)
  have fm: "32 * i + 32 \<le> ?fm * sector img" if "i < meta_entries img"
    using that by (simp add: meta_entries_def less_eq_div_iff_mult_less_eq Suc_le_eq [symmetric] mult.commute)
  show "meta_base img i + 32 \<le> fat_base img" if "i < meta_entries img"
    using fm [OF that] by (simp add: meta_base_def fat_base_def algebra_simps)
  show "meta_base img i + 32 \<le> tag_base img" if "i < meta_entries img"
    using fm [OF that] by (simp add: meta_base_def tag_base_def algebra_simps)
  show "tag_base img + 32 * i + 32 \<le> link_base img" if "i < tag_entries img"
  proof -
    have "32 * i + 32 \<le> ?tm * sector img"
      using that by (simp add: tag_entries_def less_eq_div_iff_mult_less_eq Suc_le_eq [symmetric] mult.commute)
    then show ?thesis by (simp add: tag_base_def link_base_def algebra_simps)
  qed
  show "link_base img + 4 * i + 4 \<le> fat_base img" if "i < link_entries img"
  proof -
    have "4 * i + 4 \<le> ?tf * sector img"
      using that by (simp add: link_entries_def less_eq_div_iff_mult_less_eq Suc_le_eq [symmetric] mult.commute)
    then show ?thesis by (simp add: link_base_def fat_base_def algebra_simps)
  qed
  show "sector img \<le> tag_base img" "tag_base img \<le> link_base img" "link_base img \<le> fat_base img"
    "fat_base img \<le> data_base img"
    by (simp_all add: tag_base_def link_base_def fat_base_def data_base_def sections_def)
  show "fat_base img + 2 * i + 2 \<le> data_base img" if "i < fat_entries img"
  proof -
    have "2 * i + 2 \<le> ?fa * sector img"
      using that by (simp add: fat_entries_def less_eq_div_iff_mult_less_eq Suc_le_eq [symmetric] mult.commute)
    then show ?thesis by (simp add: fat_base_def data_base_def sections_def algebra_simps)
  qed
  show "data_base img + i * sector img + sector img \<le> ilen img" if "i < fat_entries img"
  proof -
    have "(sections img + (i + 1)) * sector img \<le> (sections img + fat_entries img) * sector img"
      using that by (intro mult_le_mono1) simp
    with w(2) show ?thesis by (simp add: data_base_def algebra_simps)
  qed
  show "i * sector img < 4294967296" if "i < fat_entries img"
  proof -
    have "i * sector img \<le> (sections img + fat_entries img) * sector img"
      using that by (intro mult_le_mono1) simp
    with w(3) show ?thesis by linarith
  qed
qed

text \<open>The geometry is a function of the first 36 bytes.\<close>

lemma same_header:
  assumes "\<And>x. x < 36 \<Longrightarrow> imem img' x = imem img x" and "ilen img' = ilen img"
  shows "sector img' = sector img" "fat_base img' = fat_base img" "data_base img' = data_base img"
    "fat_entries img' = fat_entries img" "meta_entries img' = meta_entries img"
    "meta_base img' = meta_base img" "img_wf img' = img_wf img" "tag_base img' = tag_base img"
    "link_base img' = link_base img" "tag_entries img' = tag_entries img" "link_entries img' = link_entries img"
proof -
  have f: "ld32 (imem img') a = ld32 (imem img) a" if "a + 4 \<le> 36" for a
    by (rule cell32.ld_cong) (use that in \<open>simp add: assms(1)\<close>)
  have "m_sector_size img' = m_sector_size img" "m_file_meta_sector_count img' = m_file_meta_sector_count img"
    "m_tag_meta_sector_count img' = m_tag_meta_sector_count img"
    "m_tag_file_sector_count img' = m_tag_file_sector_count img" "m_fat_sector_count img' = m_fat_sector_count img"
    by (simp_all add: m_sector_size_def m_file_meta_sector_count_def m_tag_meta_sector_count_def
        m_tag_file_sector_count_def m_fat_sector_count_def f)
  then show "sector img' = sector img" "fat_base img' = fat_base img" "data_base img' = data_base img"
    "fat_entries img' = fat_entries img" "meta_entries img' = meta_entries img"
    "meta_base img' = meta_base img" "img_wf img' = img_wf img" "tag_base img' = tag_base img"
    "link_base img' = link_base img" "tag_entries img' = tag_entries img" "link_entries img' = link_entries img"
    using assms(2) by (simp_all add: sector_def fat_base_def data_base_def sections_def fat_entries_def
        meta_entries_def meta_base_def fun_eq_iff img_wf_def tag_base_def link_base_def
        tag_entries_def link_entries_def)
qed

section \<open>Accesses\<close>

lemma img_at_nat [simp]: "img_at img (int a) w \<longleftrightarrow> a + w \<le> ilen img"
  by (auto simp: img_at_def)

lemma img_access:
  "a + 1 \<le> ilen img \<Longrightarrow> img_ld8 img (int a) = Ok (imem img a)"
  "a + 2 \<le> ilen img \<Longrightarrow> img_ld16 img (int a) = Ok (ld16 (imem img) a)"
  "a + 4 \<le> ilen img \<Longrightarrow> img_ld32 img (int a) = Ok (ld32 (imem img) a)"
  "a + 1 \<le> ilen img \<Longrightarrow> img_st8 img (int a) b = Ok (img\<lparr>imem := st8 (imem img) a b\<rparr>)"
  "a + 2 \<le> ilen img \<Longrightarrow> img_st16 img (int a) h = Ok (img\<lparr>imem := st16 (imem img) a h\<rparr>)"
  "a + 4 \<le> ilen img \<Longrightarrow> img_st32 img (int a) v = Ok (img\<lparr>imem := st32 (imem img) a v\<rparr>)"
  "a + n \<le> ilen img \<Longrightarrow> img_load img (int a) n = Ok (bytes_at (imem img) a n)"
  "a + length bs \<le> ilen img \<Longrightarrow> img_store img (int a) bs = Ok (img\<lparr>imem := mem_put (imem img) a bs\<rparr>)"
  by (simp_all add: img_ld8_def img_ld16_def img_ld32_def img_st8_def img_st16_def img_st32_def
      img_load_def img_store_def ld8_def)

lemma meta_addr:
  assumes "img_wf img"
  shows "meta_first (get_file_metadata img) (int i) = int (meta_base img i)"
    "meta_size (get_file_metadata img) (int i) = int (meta_base img i + 4)"
    "meta_name (get_file_metadata img) (int i) = int (meta_base img i + 8)"
    "fat_at (get_fat img) (int j) = int (fat_base img + 2 * j)"
  using geometry [OF assms]
  by (simp_all add: meta_first_def meta_size_def meta_name_def meta_base_def fat_at_def)

lemma img_strcmp_spec:
  "a + length cs + 1 \<le> ilen img \<Longrightarrow> img_strcmp img cs (int a) =
     Ok (bytes_at (imem img) a (length cs) = cs \<and> imem img (a + length cs) = 0)"
proof (induction cs arbitrary: a)
  case Nil
  then show ?case by (simp add: img_access(1) bytes_at_def)
next
  case (Cons c cs)
  have "img_strcmp img cs (int a + 1) =
      Ok (bytes_at (imem img) (a + 1) (length cs) = cs \<and> imem img (a + 1 + length cs) = 0)"
    using Cons.IH [of "a + 1"] Cons.prems by (simp add: add.commute)
  moreover have "bytes_at (imem img) a (Suc (length cs)) = imem img a # bytes_at (imem img) (a + 1) (length cs)"
    unfolding bytes_at_def by (subst upt_conv_Cons) (simp_all add: map_Suc_upt [symmetric] del: upt_Suc map_Suc_upt)
  ultimately show ?case
    using Cons.prems by (auto simp: img_access(1))
qed

section \<open>What the searches return\<close>

lemma name_test:
  assumes "img_wf img" and "i < meta_entries img" and "length name < 24"
  shows "img_strcmp img name (meta_name (get_file_metadata img) (int i)) = Ok (has_name img i name)"
proof -
  have "meta_base img i + 8 + length name + 1 \<le> ilen img"
    using section_bounds(1) [OF assms(1,2)] section_bounds(4) [OF assms(1)] assms(3)
    by (simp add: fat_base_def data_base_def sections_def algebra_simps)
  then show ?thesis
    unfolding meta_addr(3) [OF assms(1)] has_name_def by (rule img_strcmp_spec)
qed

lemma file_id_no_wrap:
  assumes "img_wf img" and "k < meta_entries img"
  shows "unat (of_nat (k + 1) :: u16) = k + 1"
  by (subst unat_of_nat) (use assms in \<open>simp add: img_wf_def\<close>)

lemma lookup_cases:
  assumes wf: "img_wf img" and n: "length name < 24"
  obtains (found) k where "k < meta_entries img" "has_name img k name" "\<forall>j < k. \<not> has_name img j name"
      "get_file_id_from_name img (get_file_metadata img) name = Ok (of_nat (k + 1))" "unat (of_nat (k + 1) :: u16) = k + 1"
    | (missing) "\<forall>j < meta_entries img. \<not> has_name img j name" "get_file_id_from_name img (get_file_metadata img) name = Ok 0"
proof -
  note g = geometry(3) [OF wf]
  have t: "img_strcmp img name (meta_name (get_file_metadata img) (int j)) = Ok (has_name img j name)" if "j < meta_entries img" for j
    by (rule name_test [OF wf that n])
  have "(\<exists>k < meta_entries img. has_name img k name \<and> (\<forall>j < k. \<not> has_name img j name)
        \<and> name_search img (get_file_metadata img) name 0 = Ok (of_nat (k + 1)))
    \<or> (\<forall>j < meta_entries img. \<not> has_name img j name) \<and> name_search img (get_file_metadata img) name 0 = Ok 0"
    using names.scan_total [of "(img, get_file_metadata img, name)" "\<lambda>j. has_name img j name"] t g by simp
  then show ?thesis
    using found missing file_id_no_wrap [OF wf] unfolding get_file_id_from_name_def by blast
qed

lemma lookup_found:
  assumes "img_wf img" and "length name < 24" and "k < meta_entries img" and "has_name img k name"
    and "\<And>j. j < k \<Longrightarrow> \<not> has_name img j name"
  shows "get_file_id_from_name img (get_file_metadata img) name = Ok (of_nat (k + 1))" and "unat (of_nat (k + 1) :: u16) = k + 1"
proof -
  show "unat (of_nat (k + 1) :: u16) = k + 1"
    by (rule file_id_no_wrap [OF assms(1,3)])
  have "name_search img (get_file_metadata img) name 0 = Ok (of_nat (k + 1))"
    using names.scan_hit [of 0 k "(img, get_file_metadata img, name)"] name_test [OF assms(1) _ assms(2)] assms(3-5)
      geometry(3) [OF assms(1)] by simp
  then show "get_file_id_from_name img (get_file_metadata img) name = Ok (of_nat (k + 1))" by (simp add: get_file_id_from_name_def)
qed

lemma fat_test:
  assumes "img_wf img" and "i < fat_entries img"
  shows "img_ld16 img (fat_at (get_fat img) (int i)) = Ok (fat_entry img i)"
  using section_bounds(2) [OF assms] section_bounds(4) [OF assms(1)]
  unfolding meta_addr(4) [OF assms(1)] fat_entry_def by (intro img_access(2)) linarith

lemma find_free_fat_cases:
  assumes wf: "img_wf img"
  obtains (found) k where "k < fat_entries img" "fat_entry img k = 0" "\<forall>j < k. fat_entry img j \<noteq> 0"
      "find_free_fat img (get_fat img) = Ok (int k)"
    | (full) "\<forall>j < fat_entries img. fat_entry img j \<noteq> 0" "find_free_fat img (get_fat img) = Ok (- 1)"
proof -
  note g = geometry(4) [OF wf]
  have t: "obind (img_ld16 img (fat_at (get_fat img) (int j))) (\<lambda>e. Ok (e = 0)) = Ok (fat_entry img j = 0)"
    if "j < fat_entries img" for j by (simp add: fat_test [OF wf that])
  have "(\<exists>k < fat_entries img. fat_entry img k = 0 \<and> (\<forall>j < k. fat_entry img j \<noteq> 0)
        \<and> free_fat_search img (get_fat img) 0 = Ok (int k))
    \<or> (\<forall>j < fat_entries img. fat_entry img j \<noteq> 0) \<and> free_fat_search img (get_fat img) 0 = Ok (- 1)"
    using free_fat.scan_total [of "(img, get_fat img)" "\<lambda>j. fat_entry img j = 0"] t g by simp
  then show ?thesis using found full unfolding find_free_fat_def by blast
qed

text \<open>An empty image: sectors of 64 bytes, one sector per section, 32 data sectors.\<close>

definition example_image :: image where
  "example_image = \<lparr>imem = st32 (st32 (st32 (st32 (st32 (\<lambda>x. 0) 12 64) 16 1) 20 1) 24 1) 28 1, ilen = 2368\<rparr>"

lemma example_geometry:
  "sector example_image = 64" "sections example_image = 5" "fat_base example_image = 256"
  "data_base example_image = 320" "fat_entries example_image = 32" "meta_entries example_image = 2"
  "meta_base example_image i = 64 + 32 * i" "ilen example_image = 2368" "img_wf example_image"
proof -
  have m: "m_sector_size example_image = 64" "m_file_meta_sector_count example_image = 1"
    "m_tag_meta_sector_count example_image = 1" "m_tag_file_sector_count example_image = 1"
    "m_fat_sector_count example_image = 1"
    by (simp_all add: example_image_def m_sector_size_def m_file_meta_sector_count_def
        m_tag_meta_sector_count_def m_tag_file_sector_count_def m_fat_sector_count_def
        cell32.ld_st cell32.ld_st_disjoint)
  show l: "ilen example_image = 2368" by (simp add: example_image_def)
  show g: "sector example_image = 64" "sections example_image = 5" "fat_base example_image = 256"
    "data_base example_image = 320" "fat_entries example_image = 32" "meta_entries example_image = 2"
    "meta_base example_image i = 64 + 32 * i"
    by (simp_all add: m sector_def sections_def fat_base_def data_base_def fat_entries_def meta_entries_def
        meta_base_def)
  show "img_wf example_image" by (simp add: img_wf_def g l)
qed

lemma example_bytes: "36 \<le> x \<Longrightarrow> imem example_image x = 0"
  by (simp add: example_image_def cell32.st_frame)

end
