(* ===== verification/FuseDriver.thy ===== *)
theory FuseDriver
  imports TagImage
begin

text \<open>
  The FUSE driver, \<open>src/tagfs/FUSE_driver/src/tagfs.c\<close>: the six callbacks over the mapped image. A callback
  returns the integer that FUSE gets (an error number negated, or a count) and the new image or the
  bytes it wrote to the caller's buffer. Paths are the bytes of the C string without its terminator and
  start with a slash; offsets are never negative, as FUSE passes them. The calls of the \<open>filler\<close> callback are
  returned as a list.

  \<open>main\<close> and the table of the callbacks are in \<open>FuseSession\<close>.
\<close>

section \<open>The callbacks\<close>

definition ENOENT :: int where "ENOENT = 2"
definition ENOSPC :: int where "ENOSPC = 28"
definition ENAMETOOLONG :: int where "ENAMETOOLONG = 36"
definition EBADFD :: int where "EBADFD = 77"

text \<open>The directory, the regular file, and the permission bits of \<open>sys/stat.h\<close>.\<close>

definition S_IFMT :: u32 where "S_IFMT = 0xF000"
definition S_IFDIR :: u32 where "S_IFDIR = 0x4000"
definition S_IFREG :: u32 where "S_IFREG = 0x8000"
definition S_IRWXUGO :: u32 where "S_IRWXUGO = 0x1FF"

record stat =
  st_ino :: int
  st_mode :: u32
  st_nlink :: nat
  st_size :: int
  st_blksize :: int
  st_blocks :: int

definition CEIL_DIV :: "int \<Rightarrow> int \<Rightarrow> int" where
  "CEIL_DIV m n = (m + n - 1) div n"

function getattr_root :: "image \<Rightarrow> int \<Rightarrow> nat \<Rightarrow> stat \<Rightarrow> stat outcome" where
  "getattr_root img file_meta i st =
     (if i < count_file_meta_entries img then
        obind (img_ld8 img (meta_name file_meta (int i))) (\<lambda>b.
        if b \<noteq> 0 then
          obind (img_ld32 img (meta_size file_meta (int i))) (\<lambda>sz.
          getattr_root img file_meta (i + 1)
            (st\<lparr>st_size := st_size st + int (unat sz),
                st_blocks := st_blocks st + CEIL_DIV (int (unat sz)) (st_blksize st)\<rparr>))
        else getattr_root img file_meta (i + 1) st)
      else Ok st)"
  by pat_completeness auto
termination
  by (relation "measure (\<lambda>(img, fm, i, st). count_file_meta_entries img - i)") auto

function getattr_file :: "image \<Rightarrow> int \<Rightarrow> u8 list \<Rightarrow> nat \<Rightarrow> stat \<Rightarrow> (int \<times> stat) outcome" where
  "getattr_file img file_meta name i st =
     (if i < count_file_meta_entries img then
        obind (img_strcmp img name (meta_name file_meta (int i))) (\<lambda>eq.
        if eq then
          obind (img_ld32 img (meta_size file_meta (int i))) (\<lambda>sz.
          Ok (0, st\<lparr>st_ino := int i + 1, st_size := int (unat sz),
                    st_blocks := CEIL_DIV (int (unat sz)) (st_blksize st)\<rparr>))
        else getattr_file img file_meta name (i + 1) st)
      else Ok (- ENOENT, st))"
  by pat_completeness auto
termination
  by (relation "measure (\<lambda>(img, fm, name, i, st). count_file_meta_entries img - i)") auto

definition root_path :: "u8 list" where
  "root_path = [47]"

definition tagfs_getattr :: "u8 list \<Rightarrow> stat \<Rightarrow> image \<Rightarrow> (int \<times> stat) outcome" where
  "tagfs_getattr path st img =
     (let file_meta = get_file_metadata img;
          st = st\<lparr>st_nlink := 0, st_blksize := 512\<rparr> in
      if path = root_path then
        obind (getattr_root img file_meta 0 (st\<lparr>st_mode := S_IFDIR OR S_IRWXUGO\<rparr>)) (\<lambda>st. Ok (0, st))
      else getattr_file img file_meta (tl path) 0 (st\<lparr>st_mode := S_IFREG OR S_IRWXUGO\<rparr>))"

text \<open>One call of \<open>filler\<close>: where the name is, the inode, the size and the mode.\<close>

record dir_entry =
  de_name :: int
  de_ino :: int
  de_size :: u32
  de_mode :: u32

function readdir_loop :: "image \<Rightarrow> int \<Rightarrow> nat \<Rightarrow> dir_entry list outcome" where
  "readdir_loop img file_meta i =
     (if i < count_file_meta_entries img then
        obind (file_metadata_entry_is_free img (meta_first file_meta (int i))) (\<lambda>free.
        if \<not> free then
          obind (img_ld32 img (meta_size file_meta (int i))) (\<lambda>sz.
          obind (readdir_loop img file_meta (i + 1)) (\<lambda>es.
          Ok (\<lparr>de_name = meta_name file_meta (int i), de_ino = int i + 1, de_size = sz,
               de_mode = S_IFREG OR S_IRWXUGO\<rparr> # es)))
        else readdir_loop img file_meta (i + 1))
      else Ok [])"
  by pat_completeness auto
termination
  by (relation "measure (\<lambda>(img, fm, i). count_file_meta_entries img - i)") auto

definition tagfs_readdir :: "u8 list \<Rightarrow> image \<Rightarrow> (int \<times> dir_entry list) outcome" where
  "tagfs_readdir path img =
     (if path = root_path then obind (readdir_loop img (get_file_metadata img) 0) (\<lambda>es. Ok (0, es))
      else Ok (0, []))"

text \<open>
  \<open>int\<close> counters are 32 bits wide: a count that does not fit is negative and its loop does not run.
\<close>

definition int_count :: "nat \<Rightarrow> nat" where
  "int_count n = nat (sint (of_nat n :: u32))"

text \<open>The loop that follows the chain of a file; \<open>None\<close> is the early return of \<open>-EBADFD\<close>.\<close>

fun skip_sectors :: "image \<Rightarrow> int \<Rightarrow> nat \<Rightarrow> int \<Rightarrow> int option outcome" where
  "skip_sectors img fat 0 fat_index = Ok (Some fat_index)"
| "skip_sectors img fat (Suc n) fat_index =
     obind (img_ld16 img (fat_at fat fat_index)) (\<lambda>e.
     if e = 0xffff then Ok None else skip_sectors img fat n (int (unat e)))"

definition sector_at :: "image \<Rightarrow> int \<Rightarrow> int \<Rightarrow> int" where
  "sector_at img data fat_index = data + int (unat (m_sector_size img * of_int fat_index))"

function read_rest :: "image \<Rightarrow> int \<Rightarrow> int \<Rightarrow> u32 \<Rightarrow> nat \<Rightarrow> int \<Rightarrow> u8 list \<Rightarrow> u8 list outcome" where
  "read_rest img fat data file_size sz fat_index buf =
     (if length buf < sz then
        if unat file_size \<le> length buf then Ok buf
        else if sector img = 0 then Diverged
        else
          obind (img_ld16 img (fat_at fat fat_index)) (\<lambda>e.
          let bytes_to_read = (if sz \<le> length buf + sector img then sz - length buf else sector img) in
          obind (img_load img (sector_at img data (int (unat e))) bytes_to_read) (\<lambda>bs.
          read_rest img fat data file_size sz (int (unat e)) (buf @ bs)))
      else Ok buf)"
  by pat_completeness auto
termination
  by (relation "measure (\<lambda>(img, fat, data, fs, sz, fi, buf). sz - length buf)")
     (auto simp: img_load_def bytes_at_def split: if_splits)

definition tagfs_read :: "u8 list \<Rightarrow> nat \<Rightarrow> nat \<Rightarrow> image \<Rightarrow> (int \<times> u8 list) outcome" where
  "tagfs_read path sz offset img =
     (let file_meta = get_file_metadata img in
      obind (get_file_id_from_name img file_meta (tl path)) (\<lambda>file_id.
      if file_id = 0 then Ok (- ENOENT, []) else
      let entry = int (unat file_id) - 1 in
      obind (img_ld32 img (meta_size file_meta entry)) (\<lambda>file_size.
      if unat file_size \<le> offset then Ok (0, []) else
      if sector img = 0 then Fault ''division by zero'' else
      let sector_skip_count = int_count (offset div sector img);
          byte_skip_count = offset mod sector img;
          fat = get_fat img; data = get_data img in
      obind (img_ld32 img (meta_first file_meta entry)) (\<lambda>first.
      obind (skip_sectors img fat sector_skip_count (sint first)) (\<lambda>r.
      case r of None \<Rightarrow> Ok (- EBADFD, [])
      | Some fat_index \<Rightarrow>
        if sz \<le> sector img - byte_skip_count then
          obind (img_load img (sector_at img data fat_index + int byte_skip_count) sz) (\<lambda>bs.
          Ok (int sz, bs))
        else
          obind (img_load img (sector_at img data fat_index + int byte_skip_count)
                  (sector img - byte_skip_count)) (\<lambda>bs.
          obind (read_rest img fat data file_size sz fat_index bs) (\<lambda>buf.
          Ok (int (length buf), buf))))))))"

function slot_search :: "image \<Rightarrow> int \<Rightarrow> nat \<Rightarrow> nat option outcome" where
  "slot_search img file_meta i =
     (if i < count_file_meta_entries img then
        obind (file_metadata_entry_is_free img (meta_first file_meta (int i))) (\<lambda>free.
        if free then Ok (Some i) else slot_search img file_meta (i + 1))
      else Ok None)"
  by pat_completeness auto
termination
  by (relation "measure (\<lambda>(img, fm, i). count_file_meta_entries img - i)") auto

definition tagfs_mknod :: "u8 list \<Rightarrow> u32 \<Rightarrow> image \<Rightarrow> (int \<times> image) outcome" where
  "tagfs_mknod path mode img =
     (let name = tl path in
      if mode AND S_IFMT = S_IFREG then
        if 24 \<le> length name then Ok (- ENAMETOOLONG, img)
        else
          (let file_meta = get_file_metadata img in
           obind (slot_search img file_meta 0) (\<lambda>slot.
           case slot of None \<Rightarrow> Ok (- ENOSPC, img)
           | Some i \<Rightarrow>
             obind (img_st32 img (meta_first file_meta (int i)) 0xffff) (\<lambda>img.
             obind (img_st32 img (meta_size file_meta (int i)) 0) (\<lambda>img.
             obind (img_store img (meta_name file_meta (int i)) (name @ [0])) (\<lambda>img.
             Ok (0, img))))))
      else Ok (- 38, img))"

text \<open>
  The loop of a write that spans sectors. It returns whether it ended early for lack of a free FAT entry,
  the count of bytes written, and the image.
\<close>

function write_rest :: "image \<Rightarrow> int \<Rightarrow> int \<Rightarrow> u8 list \<Rightarrow> nat \<Rightarrow> (bool \<times> nat \<times> image) outcome" where
  "write_rest img fat data buf buf_index =
     (if buf_index < length buf then
        if sector img = 0 then Diverged
        else
          obind (find_free_fat img fat) (\<lambda>fat_index.
          if fat_index = - 1 then Ok (True, buf_index, img)
          else
            let bytes_to_write =
              (if length buf \<le> buf_index + sector img then length buf - buf_index else sector img) in
            obind (img_store img (sector_at img data fat_index) (take bytes_to_write (drop buf_index buf))) (\<lambda>img.
            write_rest img fat data buf (buf_index + bytes_to_write)))
      else Ok (False, buf_index, img))"
  by pat_completeness auto
termination
  by (relation "measure (\<lambda>(img, fat, data, buf, k). length buf - k)") auto

definition write_at ::
  "int \<Rightarrow> int \<Rightarrow> int \<Rightarrow> u8 list \<Rightarrow> nat \<Rightarrow> int \<Rightarrow> nat \<Rightarrow> image \<Rightarrow> (int \<times> image) outcome" where
  "write_at size_addr fat data buf offset fat_index byte_skip_count img =
     (let sz = length buf;
          set_size = (\<lambda>n img. obind (img_ld32 img size_addr) (\<lambda>file_size.
            if unat file_size < offset + n then img_st32 img size_addr (of_nat (offset + n)) else Ok img)) in
      if sz \<le> sector img - byte_skip_count then
        obind (img_store img (sector_at img data fat_index + int byte_skip_count) buf) (\<lambda>img.
        obind (img_ld16 img (fat_at fat fat_index)) (\<lambda>e.
        obind (if e = 0 then img_st16 img (fat_at fat fat_index) 0xffff else Ok img) (\<lambda>img.
        obind (set_size sz img) (\<lambda>img.
        Ok (int sz, img)))))
      else
        let first_sector_bytes = sector img - byte_skip_count in
        obind (img_store img (sector_at img data fat_index + int byte_skip_count)
                (take first_sector_bytes buf)) (\<lambda>img.
        obind (write_rest img fat data buf first_sector_bytes) (\<lambda>(early, buf_index, img).
        if early then Ok (int buf_index, img)
        else obind (set_size buf_index img) (\<lambda>img. Ok (int buf_index, img)))))"

definition tagfs_write :: "u8 list \<Rightarrow> u8 list \<Rightarrow> nat \<Rightarrow> image \<Rightarrow> (int \<times> image) outcome" where
  "tagfs_write path buf offset img =
     (let file_meta = get_file_metadata img in
      obind (get_file_id_from_name img file_meta (tl path)) (\<lambda>file_id.
      if file_id = 0 then Ok (- ENOENT, img) else
      let entry = int (unat file_id) - 1; fat = get_fat img; data = get_data img in
      obind (img_ld32 img (meta_first file_meta entry)) (\<lambda>first.
      obind (if first = 0xffff then
               obind (find_free_fat img fat) (\<lambda>fat_index.
               if fat_index = - 1 then Ok None
               else obind (img_st32 img (meta_first file_meta entry) (of_int fat_index)) (\<lambda>img.
                    Ok (Some (fat_index, img))))
             else Ok (Some (sint first, img))) (\<lambda>start.
      case start of None \<Rightarrow> Ok (0, img)
      | Some (fat_index, img) \<Rightarrow>
        obind (img_ld32 img (meta_size file_meta entry)) (\<lambda>file_size.
        if sector img = 0 then Fault ''division by zero'' else
        let pos = (if offset < unat file_size then offset else unat file_size);
            byte_skip_count = pos mod sector img in
        obind (skip_sectors img fat (int_count (pos div sector img)) fat_index) (\<lambda>r.
        case r of None \<Rightarrow> Ok (- EBADFD, img)
        | Some fat_index \<Rightarrow>
          write_at (meta_size file_meta entry) fat data buf offset fat_index byte_skip_count img))))))"

text \<open>The loop of \<open>unlink\<close> has no bound: it takes fuel.\<close>

fun unlink_loop :: "nat \<Rightarrow> int \<Rightarrow> int \<Rightarrow> image \<Rightarrow> image outcome" where
  "unlink_loop 0 fat fat_index img = Diverged"
| "unlink_loop (Suc fuel) fat fat_index img =
     obind (img_ld16 img (fat_at fat fat_index)) (\<lambda>old_fat_entry.
     obind (img_st16 img (fat_at fat fat_index) 0) (\<lambda>img.
     if old_fat_entry = 0xffff then Ok img
     else obind (img_ld16 img (fat_at fat fat_index)) (\<lambda>e. unlink_loop fuel fat (int (unat e)) img)))"

definition tagfs_unlink :: "nat \<Rightarrow> u8 list \<Rightarrow> image \<Rightarrow> (int \<times> image) outcome" where
  "tagfs_unlink fuel name img =
     (let file_meta = get_file_metadata img in
      obind (get_file_id_from_name img file_meta (tl name)) (\<lambda>id16.
      let file_id = int (unat id16) in
      if file_id = - 1 then Ok (- ENOENT, img) else
      let entry = file_id - 1 in
      obind (img_st8 img (meta_name file_meta entry) 0) (\<lambda>img.
      obind (img_ld32 img (meta_first file_meta entry)) (\<lambda>first.
      if first = 0xffff then Ok (0, img)
      else obind (unlink_loop fuel (get_fat img) (sint first) img) (\<lambda>img. Ok (0, img))))))"

declare getattr_root.simps [simp del] getattr_file.simps [simp del] readdir_loop.simps [simp del]
  read_rest.simps [simp del] slot_search.simps [simp del] write_rest.simps [simp del]

interpretation slots: first_match "\<lambda>(img, fm). slot_search img fm" "\<lambda>(img, fm). count_file_meta_entries img"
    "\<lambda>(img, fm) i. file_metadata_entry_is_free img (meta_first fm (int i))" "\<lambda>s i. Ok (Some i)" "\<lambda>s. None"
  by unfold_locales (auto simp: slot_search.simps split: prod.splits intro!: arg_cong [of _ _ "obind _"])


interpretation attrs: first_match "\<lambda>(img, fm, name, st) i. getattr_file img fm name i st"
    "\<lambda>(img, fm, name, st). count_file_meta_entries img"
    "\<lambda>(img, fm, name, st) i. img_strcmp img name (meta_name fm (int i))"
    "\<lambda>(img, fm, name, st) i. obind (img_ld32 img (meta_size fm (int i))) (\<lambda>sz.
       Ok (0, st\<lparr>st_ino := int i + 1, st_size := int (unat sz),
                 st_blocks := CEIL_DIV (int (unat sz)) (st_blksize st)\<rparr>))" "\<lambda>(img, fm, name, st). (- ENOENT, st)"
  by unfold_locales (auto simp: getattr_file.simps split: prod.splits intro!: arg_cong [of _ _ "obind _"])

section \<open>Creating a file\<close>

lemma meta_in_image:
  assumes "img_wf img" and "i < meta_entries img"
  shows "meta_base img i + 32 \<le> ilen img" "64 \<le> meta_base img i"
proof -
  have "fat_base img \<le> data_base img"
    by (simp add: fat_base_def data_base_def sections_def)
  then show "meta_base img i + 32 \<le> ilen img"
    using section_bounds(1) [OF assms] section_bounds(4) [OF assms(1)] by linarith
  show "64 \<le> meta_base img i" using section_bounds(5) [OF assms(1)] by (simp add: meta_base_def)
qed

lemma slot_test:
  assumes "img_wf img" and "i < meta_entries img"
  shows "file_metadata_entry_is_free img (meta_first (get_file_metadata img) (int i)) = Ok (entry_free img i)"
proof -
  have "img_ld8 img (int (meta_base img i + 8)) = Ok (imem img (meta_base img i + 8))"
    using meta_in_image [OF assms] by (intro img_access(1)) linarith
  then show ?thesis
    by (simp add: file_metadata_entry_is_free_def entry_free_def meta_addr [OF assms(1)])
qed

lemma slot_cases:
  assumes wf: "img_wf img"
  obtains (found) k where "k < meta_entries img" "entry_free img k" "\<forall>j < k. \<not> entry_free img j"
      "slot_search img (get_file_metadata img) 0 = Ok (Some k)"
    | (full) "\<forall>j < meta_entries img. \<not> entry_free img j" "slot_search img (get_file_metadata img) 0 = Ok None"
proof -
  have "(\<exists>k < meta_entries img. entry_free img k \<and> (\<forall>j < k. \<not> entry_free img j)
        \<and> slot_search img (get_file_metadata img) 0 = Ok (Some k))
    \<or> (\<forall>j < meta_entries img. \<not> entry_free img j) \<and> slot_search img (get_file_metadata img) 0 = Ok None"
    using slots.scan_total [of "(img, get_file_metadata img)" "entry_free img"] slot_test [OF wf]
      geometry(3) [OF wf] by simp
  then show ?thesis using found full by blast
qed

text \<open>The image after a file is created in slot \<open>k\<close>.\<close>

definition created :: "image \<Rightarrow> nat \<Rightarrow> u8 list \<Rightarrow> image" where
  "created img k name =
     (let b = meta_base img k in
      img\<lparr>imem := mem_put (st32 (st32 (imem img) b 0xffff) (b + 4) 0) (b + 8) (name @ [0])\<rparr>)"

lemma mem_put_outside: "x < a \<or> a + length bs \<le> x \<Longrightarrow> mem_put m a bs x = m x"
  by (auto simp: mem_put_def)

lemma bytes_at_mem_put: "bytes_at (mem_put m a (bs @ cs)) a (length bs) = bs"
  by (rule nth_equalityI) (auto simp: bytes_at_def mem_put_def nth_append)

lemma created_outside:
  assumes "length name < 24" and "x < meta_base img k \<or> meta_base img k + 32 \<le> x"
  shows "imem (created img k name) x = imem img x"
  using assms by (auto simp: created_def Let_def mem_put_outside cell32.st_frame)

lemma created_geometry:
  assumes "img_wf img" and "k < meta_entries img" and "length name < 24"
  shows "sector (created img k name) = sector img" "fat_base (created img k name) = fat_base img"
    "data_base (created img k name) = data_base img" "fat_entries (created img k name) = fat_entries img"
    "meta_entries (created img k name) = meta_entries img" "meta_base (created img k name) = meta_base img"
    "img_wf (created img k name) = img_wf img" "ilen (created img k name) = ilen img"
proof -
  have l: "ilen (created img k name) = ilen img" by (simp add: created_def Let_def)
  have h: "imem (created img k name) x = imem img x" if "x < 36" for x
    using meta_in_image(2) [OF assms(1,2)] that by (intro created_outside [OF assms(3)]) simp
  from same_header [OF h l] l
  show "sector (created img k name) = sector img" "fat_base (created img k name) = fat_base img"
    "data_base (created img k name) = data_base img" "fat_entries (created img k name) = fat_entries img"
    "meta_entries (created img k name) = meta_entries img" "meta_base (created img k name) = meta_base img"
    "img_wf (created img k name) = img_wf img" "ilen (created img k name) = ilen img" by simp_all
qed

lemma created_entry:
  assumes "img_wf img" and "k < meta_entries img" and "length name < 24"
  shows "has_name (created img k name) k name" and "entry_size (created img k name) k = 0"
    and "entry_first (created img k name) k = 0xffff"
proof -
  let ?b = "meta_base img k"
  note g = created_geometry [OF assms]
  have m: "imem (created img k name) = mem_put (st32 (st32 (imem img) ?b 0xffff) (?b + 4) 0) (?b + 8) (name @ [0])"
    by (simp add: created_def Let_def)
  show "has_name (created img k name) k name"
    unfolding has_name_def g m by (simp add: bytes_at_mem_put) (simp add: mem_put_def nth_append)
  have "ld32 (imem (created img k name)) a = ld32 (st32 (st32 (imem img) ?b 0xffff) (?b + 4) 0) a"
    if "a + 4 \<le> ?b + 8" for a
    unfolding m by (rule cell32.ld_cong) (use that in \<open>simp add: mem_put_outside\<close>)
  then show "entry_size (created img k name) k = 0" "entry_first (created img k name) k = 0xffff"
    unfolding entry_size_def entry_first_def g by (simp_all add: cell32.ld_st cell32.ld_st_disjoint)
qed

lemma created_others:
  assumes "img_wf img" and "k < meta_entries img" and "length name < 24" and "j \<noteq> k"
  shows "length name' < 24 \<Longrightarrow> has_name (created img k name) j name' = has_name img j name'"
    and "entry_size (created img k name) j = entry_size img j"
    and "entry_first (created img k name) j = entry_first img j"
proof -
  note g = created_geometry [OF assms(1-3)]
  have out: "imem (created img k name) x = imem img x" if "meta_base img j \<le> x" "x < meta_base img j + 32" for x
  proof (rule created_outside [OF assms(3)])
    from assms(4) have "j + 1 \<le> k \<or> k + 1 \<le> j" by linarith
    with that show "x < meta_base img k \<or> meta_base img k + 32 \<le> x"
      unfolding meta_base_def by linarith
  qed
  show "has_name (created img k name) j name' = has_name img j name'" if "length name' < 24"
  proof -
    have "bytes_at (imem (created img k name)) (meta_base img j + 8) (length name')
        = bytes_at (imem img) (meta_base img j + 8) (length name')"
      unfolding bytes_at_def by (rule map_cong) (use that in \<open>auto intro!: out\<close>)
    with that show ?thesis unfolding has_name_def g by (simp add: out)
  qed
  have "ld32 (imem (created img k name)) (meta_base img j + d) = ld32 (imem img) (meta_base img j + d)" if "d \<le> 28" for d
    by (rule cell32.ld_cong) (use that in \<open>simp add: out\<close>)
  from this [of 0] this [of 4]
  show "entry_size (created img k name) j = entry_size img j" "entry_first (created img k name) j = entry_first img j"
    unfolding entry_size_def entry_first_def g by simp_all
qed

lemma mknod_creates:
  assumes wf: "img_wf img" and n: "length name < 24" and mode: "mode AND S_IFMT = S_IFREG"
    and k: "k < meta_entries img" "slot_search img (get_file_metadata img) 0 = Ok (Some k)"
  shows "tagfs_mknod (c # name) mode img = Ok (0, created img k name)"
proof -
  let ?b = "meta_base img k"
  have b: "?b + 32 \<le> ilen img" by (rule meta_in_image(1) [OF wf k(1)])
  have "img_st32 img (int ?b) 0xffff = Ok (img\<lparr>imem := st32 (imem img) ?b 0xffff\<rparr>)"
    using b by (intro img_access(6)) linarith
  moreover have "img_st32 (img\<lparr>imem := m\<rparr>) (int (?b + 4)) 0 = Ok (img\<lparr>imem := st32 m (?b + 4) 0\<rparr>)" for m
    using img_access(6) [of "?b + 4" "img\<lparr>imem := m\<rparr>" 0] b by simp
  moreover have "img_store (img\<lparr>imem := m\<rparr>) (int (?b + 8)) (name @ [0])
      = Ok (img\<lparr>imem := mem_put m (?b + 8) (name @ [0])\<rparr>)" for m
    using img_access(8) [of "?b + 8" "name @ [0]" "img\<lparr>imem := m\<rparr>"] b n by simp
  ultimately show ?thesis
    using n mode k(2)
    by (simp add: tagfs_mknod_def Let_def meta_addr [OF wf] created_def del: of_nat_add)
qed

lemma getattr_found:
  assumes wf: "img_wf img" and n: "length name < 24" and "c # name \<noteq> root_path"
    and k: "k < meta_entries img" "has_name img k name" "\<And>j. j < k \<Longrightarrow> \<not> has_name img j name"
  shows "tagfs_getattr (c # name) st img = Ok (0, st\<lparr>st_nlink := 0, st_blksize := 512,
      st_mode := S_IFREG OR S_IRWXUGO, st_ino := int k + 1, st_size := int (unat (entry_size img k)),
      st_blocks := CEIL_DIV (int (unat (entry_size img k))) 512\<rparr>)"
proof -
  let ?st = "st\<lparr>st_nlink := 0, st_blksize := 512, st_mode := S_IFREG OR S_IRWXUGO\<rparr>"
  have ld: "img_ld32 img (meta_size (get_file_metadata img) (int k)) = Ok (entry_size img k)"
    unfolding meta_addr(2) [OF wf] entry_size_def
    by (rule img_access(3)) (use meta_in_image(1) [OF wf k(1)] in linarith)
  have "getattr_file img (get_file_metadata img) name 0 ?st =
      Ok (0, ?st\<lparr>st_ino := int k + 1, st_size := int (unat (entry_size img k)),
        st_blocks := CEIL_DIV (int (unat (entry_size img k))) (st_blksize ?st)\<rparr>)"
    using attrs.scan_hit [of 0 k "(img, get_file_metadata img, name, ?st)"] name_test [OF wf _ n] k ld
      geometry(3) [OF wf] by simp
  then show ?thesis using assms(3) by (simp add: tagfs_getattr_def Let_def)
qed

text \<open>
  (C28) A created file can be looked up. On a well-formed image with a free entry and no file of that name,
  \<open>tagfs_mknod\<close> of a name of at most 23 bytes returns 0; \<open>tagfs_getattr\<close> then reports an empty regular file, and
  the entries of all other files, the FAT and the data are unchanged.
\<close>

theorem mknod_then_getattr:
  assumes "img_wf img" and "name \<noteq> []" and "length name < 24" and "mode AND S_IFMT = S_IFREG"
    and "\<exists>i < meta_entries img. entry_free img i" and "\<forall>i < meta_entries img. \<not> has_name img i name"
  shows "\<exists>k img'. k < meta_entries img \<and> tagfs_mknod (47 # name) mode img = Ok (0, img') \<and> img_wf img'
    \<and> tagfs_getattr (47 # name) st img' = Ok (0, st\<lparr>st_nlink := 0, st_blksize := 512,
        st_mode := S_IFREG OR S_IRWXUGO, st_ino := int k + 1, st_size := 0, st_blocks := 0\<rparr>)
    \<and> (\<forall>x. x < meta_base img k \<or> meta_base img k + 32 \<le> x \<longrightarrow> imem img' x = imem img x)"
proof -
  from assms(1) show ?thesis
  proof (cases rule: slot_cases)
    case (found k)
    let ?img = "created img k name"
    note g = created_geometry [OF assms(1) found(1) assms(3)]
    note e = created_entry [OF assms(1) found(1) assms(3)]
    have nr: "47 # name \<noteq> root_path" using assms(2) by (simp add: root_path_def)
    have no: "\<not> has_name ?img j name" if "j < k" for j
      using created_others(1) [OF assms(1) found(1) assms(3), of j name] assms(3,6) that found(1) by simp
    have "tagfs_getattr (47 # name) st ?img = Ok (0, st\<lparr>st_nlink := 0, st_blksize := 512,
        st_mode := S_IFREG OR S_IRWXUGO, st_ino := int k + 1, st_size := 0, st_blocks := 0\<rparr>)"
      using getattr_found [OF _ assms(3) nr _ e(1) no, of st] found(1) assms(1) e(2)
      by (simp add: g CEIL_DIV_def)
    then show ?thesis
      using mknod_creates [OF assms(1,3,4) found(1,4), of 47] found(1) assms(1) created_outside [OF assms(3)]
      by (intro exI [of _ k] exI [of _ ?img]) (simp add: g)
  next
    case full
    with assms(5) show ?thesis by blast
  qed
qed

definition example_stat :: stat where
  "example_stat = \<lparr>st_ino = 0, st_mode = 0, st_nlink = 0, st_size = 0, st_blksize = 0, st_blocks = 0\<rparr>"

lemma example_no_files:
  "entry_free example_image 0" "name \<noteq> [] \<Longrightarrow> 0 \<notin> set name \<Longrightarrow> \<not> has_name example_image i name"
proof -
  show "entry_free example_image 0" by (simp add: entry_free_def example_geometry example_bytes)
  assume "name \<noteq> []" "0 \<notin> set name"
  then have "name ! 0 \<noteq> 0" by (metis length_greater_0_conv nth_mem)
  moreover have "bytes_at (imem example_image) (meta_base example_image i + 8) (length name) ! 0 = 0"
    using \<open>name \<noteq> []\<close> by (simp add: bytes_at_def example_geometry example_bytes)
  ultimately show "\<not> has_name example_image i name" unfolding has_name_def by metis
qed

theorem mknod_then_getattr_witness:
  "\<exists>k img'. k < meta_entries example_image \<and> tagfs_mknod (47 # [97, 98]) 0x81A4 example_image = Ok (0, img')
    \<and> img_wf img'
    \<and> tagfs_getattr (47 # [97, 98]) example_stat img' = Ok (0, example_stat\<lparr>st_nlink := 0, st_blksize := 512,
        st_mode := S_IFREG OR S_IRWXUGO, st_ino := int k + 1, st_size := 0, st_blocks := 0\<rparr>)
    \<and> (\<forall>x. x < meta_base example_image k \<or> meta_base example_image k + 32 \<le> x
         \<longrightarrow> imem img' x = imem example_image x)"
proof (rule mknod_then_getattr [OF example_geometry(9)])
  show "\<exists>i < meta_entries example_image. entry_free example_image i"
    using example_no_files(1) by (intro exI [of _ 0]) (simp add: example_geometry)
  show "\<forall>i < meta_entries example_image. \<not> has_name example_image i [97, 98]"
    by (intro allI impI example_no_files(2)) simp_all
qed (simp_all add: S_IFMT_def S_IFREG_def)

section \<open>Writing and reading one sector\<close>

lemma find_free_fat_found:
  assumes "img_wf img" and "f < fat_entries img" and "fat_entry img f = 0" and "\<And>j. j < f \<Longrightarrow> fat_entry img j \<noteq> 0"
  shows "find_free_fat img (get_fat img) = Ok (int f)"
  using assms(1)
proof (cases rule: find_free_fat_cases)
  case (found k)
  then have "k = f" using assms(3,4) by (metis linorder_neqE_nat)
  with found show ?thesis by simp
next
  case full
  with assms(2,3) show ?thesis by blast
qed

lemma fat_index_word:
  assumes "img_wf img" and "f < fat_entries img"
  shows "sint (of_int (int f) :: u32) = int f" "(of_nat f :: u32) \<noteq> 0xffff" "f < 65535"
    "sector_at img (get_data img) (int f) = int (data_base img + f * sector img)"
proof -
  have f: "f < 65535" using assms by (simp add: img_wf_def)
  then show "f < 65535" .
  have u: "unat (of_nat f :: u32) = f" using f by (simp add: unat_of_nat)
  show "(of_nat f :: u32) \<noteq> 0xffff"
  proof
    assume "(of_nat f :: u32) = 0xffff"
    then have "unat (of_nat f :: u32) = 65535" by simp
    with u f show False by simp
  qed
  have "sint (of_nat f :: u32) = int f"
    unfolding sint_uint uint_nat u using f by (simp add: signed_take_bit_int_eq_self)
  then show "sint (of_int (int f) :: u32) = int f" by simp
  have "m_sector_size img * of_int (int f) = of_nat (sector img * f)"
    by (simp add: sector_def)
  moreover have "sector img * f < 4294967296"
    using section_bounds(6) [OF assms] by (simp add: mult.commute)
  ultimately have "unat (m_sector_size img * of_int (int f)) = f * sector img"
    by (simp only: unat_of_nat_u32 mult.commute)
  then show "sector_at img (get_data img) (int f) = int (data_base img + f * sector img)"
    unfolding sector_at_def geometry(2) [OF assms(1)] by simp
qed

text \<open>What an operation may do to the image while the geometry and the other views stay the same.\<close>

lemma header_kept:
  assumes "img_wf img" and "ilen img' = ilen img" and "\<forall>x < 64. imem img' x = imem img x"
  shows "sector img' = sector img" "fat_base img' = fat_base img" "data_base img' = data_base img"
    "fat_entries img' = fat_entries img" "meta_entries img' = meta_entries img" "meta_base img' = meta_base img"
    "img_wf img'" "get_fat img' = get_fat img" "get_data img' = get_data img"
    "get_file_metadata img' = get_file_metadata img"
proof -
  have h: "imem img' x = imem img x" if "x < 36" for x using assms(3) that by simp
  note s = same_header [OF h assms(2)]
  show "sector img' = sector img" "fat_base img' = fat_base img" "data_base img' = data_base img"
    "fat_entries img' = fat_entries img" "meta_entries img' = meta_entries img" "meta_base img' = meta_base img"
    "img_wf img'" using s assms(1) by simp_all
  then show "get_fat img' = get_fat img" "get_data img' = get_data img"
    "get_file_metadata img' = get_file_metadata img"
    using geometry [OF assms(1)] geometry [OF \<open>img_wf img'\<close>] by simp_all
qed

lemma has_name_cong:
  assumes "meta_base img' = meta_base img" and "length name < 24"
    and "\<And>x. meta_base img i + 8 \<le> x \<Longrightarrow> x < meta_base img i + 32 \<Longrightarrow> imem img' x = imem img x"
  shows "has_name img' i name = has_name img i name"
proof -
  have "bytes_at (imem img') (meta_base img i + 8) (length name) = bytes_at (imem img) (meta_base img i + 8) (length name)"
    unfolding bytes_at_def by (rule map_cong) (use assms(2) in \<open>auto intro!: assms(3)\<close>)
  with assms show ?thesis unfolding has_name_def assms(1) by simp
qed

lemma fat_entry_cong:
  assumes "fat_base img' = fat_base img"
    and "\<And>x. fat_base img + 2 * i \<le> x \<Longrightarrow> x < fat_base img + 2 * i + 2 \<Longrightarrow> imem img' x = imem img x"
  shows "fat_entry img' i = fat_entry img i"
  unfolding fat_entry_def assms(1) by (rule cell16.ld_frame) (use assms(2) in auto)

text \<open>Slot \<open>k\<close> holds the first file of that name.\<close>

definition file_at :: "image \<Rightarrow> u8 list \<Rightarrow> nat \<Rightarrow> bool" where
  "file_at img name k \<longleftrightarrow> img_wf img \<and> length name < 24 \<and> k < meta_entries img
     \<and> has_name img k name \<and> (\<forall>j < k. \<not> has_name img j name)"

lemma file_at_lookup:
  assumes "file_at img name k"
  shows "get_file_id_from_name img (get_file_metadata img) name = Ok (of_nat (k + 1))"
    and "unat (of_nat (k + 1) :: u16) = k + 1" and "(of_nat (k + 1) :: u16) \<noteq> 0"
    and "img_ld32 img (int (meta_base img k)) = Ok (entry_first img k)"
    and "img_ld32 img (int (meta_base img k + 4)) = Ok (entry_size img k)"
proof -
  have f: "img_wf img" "length name < 24" "k < meta_entries img" "has_name img k name"
    "\<And>j. j < k \<Longrightarrow> \<not> has_name img j name" using assms by (auto simp: file_at_def)
  note l = lookup_found [OF f]
  show "get_file_id_from_name img (get_file_metadata img) name = Ok (of_nat (k + 1))"
    by (rule l(1))
  show u: "unat (of_nat (k + 1) :: u16) = k + 1" by (rule l(2))
  then show "(of_nat (k + 1) :: u16) \<noteq> 0" by (metis Suc_eq_plus1 nat.distinct(1) unat_0)
  note b = meta_in_image(1) [OF f(1,3)]
  show "img_ld32 img (int (meta_base img k)) = Ok (entry_first img k)"
    unfolding entry_first_def by (rule img_access(3)) (use b in linarith)
  show "img_ld32 img (int (meta_base img k + 4)) = Ok (entry_size img k)"
    unfolding entry_size_def by (rule img_access(3)) (use b in linarith)
qed

lemma file_at_cong:
  assumes "file_at img name k" and "ilen img' = ilen img" and "\<forall>x < 64. imem img' x = imem img x"
    and "\<And>x i. i \<le> k \<Longrightarrow> meta_base img i + 8 \<le> x \<Longrightarrow> x < meta_base img i + 32 \<Longrightarrow> imem img' x = imem img x"
  shows "file_at img' name k"
proof -
  have wf: "img_wf img" using assms(1) by (simp add: file_at_def)
  note h = header_kept [OF wf assms(2,3)]
  have "has_name img' i name = has_name img i name" if "i \<le> k" for i
    by (rule has_name_cong [OF h(6)]) (use assms(1,4) that in \<open>auto simp: file_at_def\<close>)
  with assms(1) h show ?thesis by (simp add: file_at_def)
qed

text \<open>Reading from a file that fits the sector.\<close>

lemma int_count_0 [simp]: "int_count 0 = 0"
  by (simp add: int_count_def)

lemma read_one_sector:
  assumes f: "file_at img name k" and s: "entry_first img k = of_nat s" "s < fat_entries img"
    and off: "offset < unat (entry_size img k)" "offset < sector img" and sz: "sz \<le> sector img - offset"
  shows "tagfs_read (c # name) sz offset img
    = Ok (int sz, bytes_at (imem img) (data_base img + s * sector img + offset) sz)"
proof -
  have wf: "img_wf img" using f by (simp add: file_at_def)
  note l = file_at_lookup [OF f]
  note w = fat_index_word [OF wf s(2)]
  have "img_load img (int (data_base img + s * sector img + offset)) sz
      = Ok (bytes_at (imem img) (data_base img + s * sector img + offset) sz)"
    using section_bounds(3) [OF wf s(2)] sz off(2) by (intro img_access(7)) linarith
  moreover have "sint (entry_first img k) = int s" using w(1) s(1) by simp
  moreover have e: "int (unat (of_nat (k + 1) :: u16)) - 1 = int k" unfolding l(2) by simp
  ultimately show ?thesis
    using l(1,3,4,5) off sz w(4) section_bounds(5) [OF wf]
    unfolding tagfs_read_def Let_def list.sel e
    by (simp add: meta_addr [OF wf] e [simplified] del: of_nat_add)
       (simp add: e [simplified] meta_addr [OF wf])
qed

text \<open>The store of the first sector number into an empty file's entry.\<close>

definition started :: "image \<Rightarrow> nat \<Rightarrow> nat \<Rightarrow> image" where
  "started img k f = (if entry_first img k = 0xffff
     then img\<lparr>imem := st32 (imem img) (meta_base img k) (of_nat f)\<rparr> else img)"

text \<open>Sector \<open>f\<close> is where a write to the file in slot \<open>k\<close> goes.\<close>

definition write_target :: "image \<Rightarrow> nat \<Rightarrow> nat \<Rightarrow> bool" where
  "write_target img k f \<longleftrightarrow> f < fat_entries img \<and>
     (if entry_first img k = 0xffff
      then entry_size img k = 0 \<and> fat_entry img f = 0 \<and> (\<forall>j < f. fat_entry img j \<noteq> 0)
      else entry_first img k = of_nat f)"

lemma started_simps:
  assumes "file_at img name k" and "write_target img k f"
  shows "ilen (started img k f) = ilen img"
    and "x < meta_base img k \<or> meta_base img k + 4 \<le> x \<Longrightarrow> imem (started img k f) x = imem img x"
    and "entry_first (started img k f) k = of_nat f" and "entry_size (started img k f) k = entry_size img k"
    and "file_at (started img k f) name k"
proof -
  have wf: "img_wf img" and k: "k < meta_entries img" using assms(1) by (simp_all add: file_at_def)
  show l: "ilen (started img k f) = ilen img" by (simp add: started_def)
  show out: "imem (started img k f) x = imem img x" if "x < meta_base img k \<or> meta_base img k + 4 \<le> x" for x
    using that by (simp add: started_def cell32.st_frame)
  have low: "\<forall>x < 64. imem (started img k f) x = imem img x"
    using out meta_in_image(2) [OF wf k] by auto
  note h = header_kept [OF wf l low]
  show "entry_size (started img k f) k = entry_size img k"
    unfolding entry_size_def h(6) by (rule cell32.ld_frame) (simp add: out)
  show "entry_first (started img k f) k = of_nat f"
    using assms(2) unfolding entry_first_def h(6)
    by (auto simp: started_def write_target_def entry_first_def cell32.ld_st)
  show "file_at (started img k f) name k"
  proof (rule file_at_cong [OF assms(1) l low])
    fix x i assume "i \<le> k" "meta_base img i + 8 \<le> x" "x < meta_base img i + 32"
    then have "x < meta_base img k \<or> meta_base img k + 4 \<le> x"
      by (cases "i = k") (auto simp: meta_base_def)
    then show "imem (started img k f) x = imem img x" by (rule out)
  qed
qed

lemma write_starts:
  assumes f: "file_at img name k" and t: "write_target img k f"
    and off: "offset \<le> unat (entry_size img k)" "offset < sector img"
  shows "tagfs_write (c # name) buf offset img
    = write_at (int (meta_base img k + 4)) (get_fat img) (get_data img) buf offset (int f) offset (started img k f)"
proof -
  have wf: "img_wf img" and k: "k < meta_entries img" using f by (simp_all add: file_at_def)
  have ff: "f < fat_entries img" using t by (simp add: write_target_def)
  note l = file_at_lookup [OF f]
  note w = fat_index_word [OF wf ff]
  note s = started_simps [OF f t]
  have low: "\<forall>x < 64. imem (started img k f) x = imem img x"
    using s(2) meta_in_image(2) [OF wf k] by auto
  note h = header_kept [OF wf s(1) low]
  have e: "int (unat (of_nat (k + 1) :: u16)) - 1 = int k" unfolding l(2) by simp
  have start: "(if entry_first img k = 0xffff then
      obind (find_free_fat img (get_fat img)) (\<lambda>fat_index.
        if fat_index = - 1 then Ok None
        else obind (img_st32 img (int (meta_base img k)) (of_int fat_index)) (\<lambda>img. Ok (Some (fat_index, img))))
      else Ok (Some (sint (entry_first img k), img))) = Ok (Some (int f, started img k f))"
  proof (cases "entry_first img k = 0xffff")
    case True
    then have "find_free_fat img (get_fat img) = Ok (int f)"
      using t by (intro find_free_fat_found [OF wf ff]) (auto simp: write_target_def)
    moreover have "img_st32 img (int (meta_base img k)) (of_nat f) = Ok (started img k f)"
      using True meta_in_image(1) [OF wf k] img_access(6) [of "meta_base img k" img "of_nat f"]
      by (simp add: started_def)
    ultimately show ?thesis using True by simp
  next
    case False
    with t w(1) show ?thesis by (auto simp: write_target_def started_def)
  qed
  have sz: "img_ld32 (started img k f) (int (meta_base img k + 4)) = Ok (entry_size img k)"
    using file_at_lookup(5) [OF s(5)] unfolding h(6) s(4) .
  have pos: "(if offset < unat (entry_size img k) then offset else unat (entry_size img k)) = offset"
    using off(1) by simp
  have d: "offset div sector img = 0" "offset mod sector img = offset" "sector img \<noteq> 0"
    using off(2) by simp_all
  show ?thesis
    unfolding tagfs_write_def Let_def list.sel l(1) obind.simps if_not_P [OF l(3)] e meta_addr [OF wf] l(4)
      start option.case prod.case sz h(1) if_not_P [OF d(3)] pos d(1,2) int_count_0 skip_sectors.simps ..
qed

text \<open>The image after a write inside sector \<open>f\<close>.\<close>

definition written :: "image \<Rightarrow> nat \<Rightarrow> nat \<Rightarrow> nat \<Rightarrow> u8 list \<Rightarrow> image" where
  "written img k f offset buf =
     (let m = mem_put (imem img) (data_base img + f * sector img + offset) buf;
          m = (if fat_entry img f = 0 then st16 m (fat_base img + 2 * f) 0xffff else m);
          m = (if unat (entry_size img k) < offset + length buf
               then st32 m (meta_base img k + 4) (of_nat (offset + length buf)) else m)
      in img\<lparr>imem := m\<rparr>)"

lemma write_one_sector:
  assumes wf: "img_wf img" and k: "k < meta_entries img" and f: "f < fat_entries img"
    and len: "length buf \<le> sector img - offset" and off: "offset < sector img"
  shows "write_at (int (meta_base img k + 4)) (get_fat img) (get_data img) buf offset (int f) offset img
    = Ok (int (length buf), written img k f offset buf)"
proof -
  note b = section_bounds(1) [OF wf k] section_bounds(2,3) [OF wf f] section_bounds(4) [OF wf]
    meta_in_image [OF wf k]
  let ?d = "data_base img + f * sector img + offset"
  define m1 where "m1 = mem_put (imem img) ?d buf"
  define m2 where "m2 = (if fat_entry img f = 0 then st16 m1 (fat_base img + 2 * f) 0xffff else m1)"
  have st: "img_store img (int ?d) buf = Ok (img\<lparr>imem := m1\<rparr>)"
    unfolding m1_def by (rule img_access(8)) (use len off b(3) in linarith)
  have m1: "m1 x = imem img x" if "x < data_base img" for x
    unfolding m1_def by (rule mem_put_outside) (use that in linarith)
  have m2: "m2 x = imem img x" if "x < fat_base img" for x
    using that m1 [of x] b(2) by (simp add: m2_def cell16.st_frame)
  have "ld16 m1 (fat_base img + 2 * f) = fat_entry img f"
    unfolding fat_entry_def by (rule cell16.ld_frame) (use m1 b(2) in simp)
  then have ld: "img_ld16 (img\<lparr>imem := m1\<rparr>) (int (fat_base img + 2 * f)) = Ok (fat_entry img f)"
    using img_access(2) [of "fat_base img + 2 * f" "img\<lparr>imem := m1\<rparr>"] b(2,4) by simp
  have s16: "(if fat_entry img f = 0 then img_st16 (img\<lparr>imem := m1\<rparr>) (int (fat_base img + 2 * f)) 0xffff
      else Ok (img\<lparr>imem := m1\<rparr>)) = Ok (img\<lparr>imem := m2\<rparr>)"
    using img_access(5) [of "fat_base img + 2 * f" "img\<lparr>imem := m1\<rparr>" "0xffff"] b(2,4) by (simp add: m2_def)
  have "ld32 m2 (meta_base img k + 4) = entry_size img k"
    unfolding entry_size_def by (rule cell32.ld_frame) (use m2 b(1) in simp)
  then have lsz: "img_ld32 (img\<lparr>imem := m2\<rparr>) (int (meta_base img k + 4)) = Ok (entry_size img k)"
    using img_access(3) [of "meta_base img k + 4" "img\<lparr>imem := m2\<rparr>"] b(5) by simp
  have s32: "(if unat (entry_size img k) < offset + length buf
      then img_st32 (img\<lparr>imem := m2\<rparr>) (int (meta_base img k + 4)) (of_nat (offset + length buf))
      else Ok (img\<lparr>imem := m2\<rparr>)) = Ok (written img k f offset buf)"
    using img_access(6) [of "meta_base img k + 4" "img\<lparr>imem := m2\<rparr>" "of_nat (offset + length buf)"] b(5)
    by (simp add: written_def Let_def m2_def m1_def)
  have a: "sector_at img (get_data img) (int f) + int offset = int ?d"
    unfolding fat_index_word(4) [OF wf f] by simp
  show ?thesis
    unfolding write_at_def Let_def if_P [OF len] a st obind.simps meta_addr(4) [OF wf] ld s16 lsz s32 ..
qed

lemma written_facts:
  assumes f: "file_at img name k" and ff: "f < fat_entries img"
    and len: "length buf \<le> sector img - offset" and off: "offset < sector img"
  defines "img' \<equiv> written img k f offset buf"
  shows "ilen img' = ilen img"
    and "\<And>x. x < meta_base img k + 4 \<or> meta_base img k + 8 \<le> x \<Longrightarrow>
      x < fat_base img + 2 * f \<or> fat_base img + 2 * f + 2 \<le> x \<Longrightarrow>
      x < data_base img + f * sector img + offset \<or> data_base img + f * sector img + offset + length buf \<le> x \<Longrightarrow>
      imem img' x = imem img x"
    and "file_at img' name k" and "entry_first img' k = entry_first img k"
    and "unat (entry_size img' k) = max (unat (entry_size img k)) (offset + length buf)"
    and "fat_entry img' f = (if fat_entry img f = 0 then 0xffff else fat_entry img f)"
    and "\<And>j. j < fat_entries img \<Longrightarrow> j \<noteq> f \<Longrightarrow> fat_entry img' j = fat_entry img j"
    and "bytes_at (imem img') (data_base img + f * sector img + offset) (length buf) = buf"
    and "sector img' = sector img" "fat_entries img' = fat_entries img" "data_base img' = data_base img"
proof -
  have wf: "img_wf img" and k: "k < meta_entries img" using f by (simp_all add: file_at_def)
  let ?d = "data_base img + f * sector img + offset"
  note b = section_bounds(1) [OF wf k] section_bounds(2,3) [OF wf ff] section_bounds(4) [OF wf]
    meta_in_image [OF wf k] section_bounds(6) [OF wf ff]
  show l: "ilen img' = ilen img" by (simp add: img'_def written_def Let_def)
  show out: "imem img' x = imem img x"
    if "x < meta_base img k + 4 \<or> meta_base img k + 8 \<le> x"
      "x < fat_base img + 2 * f \<or> fat_base img + 2 * f + 2 \<le> x" "x < ?d \<or> ?d + length buf \<le> x" for x
  proof -
    have "st32 m (meta_base img k + 4) v x = m x" for m v
      by (rule cell32.st_frame) (use that(1) in linarith)
    moreover have "st16 m (fat_base img + 2 * f) v x = m x" for m v
      by (rule cell16.st_frame) (rule that(2))
    ultimately show ?thesis using that(3) by (simp add: img'_def written_def Let_def mem_put_outside)
  qed
  have low: "\<forall>x < 64. imem img' x = imem img x" using out b by auto
  note h = header_kept [OF wf l low]
  show "sector img' = sector img" "fat_entries img' = fat_entries img" "data_base img' = data_base img"
    by (fact h(1), fact h(4), fact h(3))
  show "file_at img' name k"
  proof (rule file_at_cong [OF f l low])
    fix x i assume x: "i \<le> k" "meta_base img i + 8 \<le> x" "x < meta_base img i + 32"
    then have "x < meta_base img k + 4 \<or> meta_base img k + 8 \<le> x" "x < meta_base img k + 32"
      by (cases "i = k"; simp add: meta_base_def)+
    with b show "imem img' x = imem img x" by (intro out) linarith+
  qed
  show "entry_first img' k = entry_first img k"
    unfolding entry_first_def h(6) by (rule cell32.ld_frame) (use out b in simp)
  have n: "offset + length buf < 4294967296"
  proof -
    have "offset + length buf \<le> sector img" using len off by linarith
    moreover have "sector img < 4294967296" by (simp add: sector_def)
    ultimately show ?thesis by linarith
  qed
  have "ld32 (imem img') (meta_base img k + 4) =
      (if unat (entry_size img k) < offset + length buf then of_nat (offset + length buf) else entry_size img k)"
  proof (cases "unat (entry_size img k) < offset + length buf")
    case True
    then show ?thesis by (simp add: img'_def written_def Let_def cell32.ld_st)
  next
    case False
    then have "ld32 (imem img') (meta_base img k + 4) = entry_size img k"
      unfolding entry_size_def
      by (intro cell32.ld_frame)
         (use b in \<open>auto simp: img'_def written_def Let_def entry_size_def cell16.st_frame mem_put_outside\<close>)
    with False show ?thesis by simp
  qed
  then show "unat (entry_size img' k) = max (unat (entry_size img k)) (offset + length buf)"
    using n unfolding entry_size_def h(6) by (auto simp: unat_of_nat_u32 simp del: of_nat_add)
  show "fat_entry img' j = fat_entry img j" if "j < fat_entries img" "j \<noteq> f" for j
  proof (rule fat_entry_cong [OF h(2)])
    fix x assume x: "fat_base img + 2 * j \<le> x" "x < fat_base img + 2 * j + 2"
    have "x < fat_base img + 2 * f \<or> fat_base img + 2 * f + 2 \<le> x" using x that(2) by linarith
    moreover have "x < data_base img" using section_bounds(2) [OF wf that(1)] x by linarith
    ultimately show "imem img' x = imem img x" using b x by (intro out) linarith+
  qed
  show "fat_entry img' f = (if fat_entry img f = 0 then 0xffff else fat_entry img f)"
  proof -
    have "ld16 (imem img') (fat_base img + 2 * f) =
        ld16 (if fat_entry img f = 0 then st16 (mem_put (imem img) ?d buf) (fat_base img + 2 * f) 0xffff
              else mem_put (imem img) ?d buf) (fat_base img + 2 * f)"
      by (rule cell16.ld_frame) (use b in \<open>simp add: img'_def written_def Let_def cell32.st_frame\<close>)
    moreover have "ld16 (mem_put (imem img) ?d buf) (fat_base img + 2 * f) = fat_entry img f"
      unfolding fat_entry_def by (rule cell16.ld_frame) (use b in \<open>simp add: mem_put_outside\<close>)
    ultimately show ?thesis unfolding fat_entry_def [of img'] h(2) by (simp add: cell16.ld_st)
  qed
  show "bytes_at (imem img') ?d (length buf) = buf"
  proof -
    have "imem img' x = mem_put (imem img) ?d buf x" if "data_base img \<le> x" for x
      using that b by (simp add: img'_def written_def Let_def cell32.st_frame cell16.st_frame)
    then have "bytes_at (imem img') ?d (length buf) = bytes_at (mem_put (imem img) ?d buf) ?d (length buf)"
      by (simp add: bytes_at_def)
    then show ?thesis using bytes_at_mem_put [of "imem img" ?d buf "[]"] by simp
  qed
qed

text \<open>
  (C12) What is written is read back. For a file found under its name, a write inside its first sector that starts no
  later than its end (or a first write to an empty file, for which a free FAT entry exists) returns the number of
  bytes; reading the same range returns the same bytes. The file's size is the larger of the old size and the end of the
  write, its sector is marked in use, and every other FAT entry and every other byte of the data section is
  unchanged.
\<close>

theorem write_then_read:
  assumes "file_at img name k" and "write_target img k f"
    and "offset \<le> unat (entry_size img k)" and "offset < sector img" and "buf \<noteq> []"
    and "length buf \<le> sector img - offset"
  shows "\<exists>img'. tagfs_write (47 # name) buf offset img = Ok (int (length buf), img')
    \<and> tagfs_read (47 # name) (length buf) offset img' = Ok (int (length buf), buf)
    \<and> unat (entry_size img' k) = max (unat (entry_size img k)) (offset + length buf)
    \<and> fat_entry img' f \<noteq> 0 \<and> (\<forall>j < fat_entries img. j \<noteq> f \<longrightarrow> fat_entry img' j = fat_entry img j)
    \<and> (\<forall>x. data_base img \<le> x \<and> \<not> (data_base img + f * sector img + offset \<le> x
            \<and> x < data_base img + f * sector img + offset + length buf) \<longrightarrow> imem img' x = imem img x)"
proof -
  have wf: "img_wf img" and k: "k < meta_entries img" using assms(1) by (simp_all add: file_at_def)
  have f: "f < fat_entries img" using assms(2) by (simp add: write_target_def)
  let ?i1 = "started img k f"
  note s = started_simps [OF assms(1,2)]
  note b = section_bounds(1) [OF wf k] section_bounds(2) [OF wf f] meta_in_image [OF wf k]
  have low: "\<forall>x < 64. imem ?i1 x = imem img x" using s(2) b by auto
  note h = header_kept [OF wf s(1) low]
  have f1: "f < fat_entries ?i1" and len1: "length buf \<le> sector ?i1 - offset" and off1: "offset < sector ?i1"
    and k1: "k < meta_entries ?i1" using f k assms(4,6) by (simp_all add: h)
  note w = written_facts [OF s(5) f1 len1 off1]
  let ?i2 = "written ?i1 k f offset buf"
  have high: "imem ?i1 x = imem img x" if "fat_base img \<le> x" for x
    using s(2) [of x] that b by simp
  have fe: "fat_entry ?i1 j = fat_entry img j" for j
    by (rule fat_entry_cong [OF h(2)]) (simp add: high)
  have wr: "tagfs_write (47 # name) buf offset img = Ok (int (length buf), ?i2)"
    using write_starts [OF assms(1-4), of 47 buf] write_one_sector [OF h(7) k1 f1 len1 off1]
    by (simp only: h)
  have e1: "entry_first ?i2 k = of_nat f" using w(4) s(3) by simp
  have "0 < length buf" using assms(5) by simp
  then have "offset < max (unat (entry_size ?i1 k)) (offset + length buf)" by linarith
  then have rd: "tagfs_read (47 # name) (length buf) offset ?i2 = Ok (int (length buf), buf)"
    using read_one_sector [OF w(3) e1, of offset "length buf" 47] w(5,8) f assms(4,5,6)
    by (simp add: w(9,10,11) h)
  have "unat (entry_size ?i2 k) = max (unat (entry_size img k)) (offset + length buf)"
    using w(5) s(4) by simp
  moreover have "fat_entry ?i2 f \<noteq> 0" using w(6) by simp
  moreover have "\<forall>j < fat_entries img. j \<noteq> f \<longrightarrow> fat_entry ?i2 j = fat_entry img j"
    using w(7) fe by (simp add: h)
  moreover have "imem ?i2 x = imem img x" if "data_base img \<le> x \<and> \<not> (data_base img + f * sector img + offset \<le> x
            \<and> x < data_base img + f * sector img + offset + length buf)" for x
  proof -
    have "imem ?i2 x = imem ?i1 x" by (rule w(2)) (use that b in \<open>auto simp: h\<close>)
    then show ?thesis using high [of x] that b by simp
  qed
  ultimately show ?thesis using wr rd by blast
qed

definition example_file :: image where
  "example_file = created example_image 0 [97]"

lemma example_file:
  "file_at example_file [97] 0" "write_target example_file 0 0" "entry_size example_file 0 = 0"
  "sector example_file = 64" "fat_entries example_file = 32" "data_base example_file = 320" "fat_base example_file = 256"
  "entry_first example_file 0 = 0xffff" "fat_entry example_file j = 0"
proof -
  have k: "0 < meta_entries example_image" and n: "length [97 :: u8] < 24" by (simp_all add: example_geometry)
  note g = created_geometry [OF example_geometry(9) k n, folded example_file_def]
  note e = created_entry [OF example_geometry(9) k n, folded example_file_def]
  show "sector example_file = 64" "fat_entries example_file = 32" "data_base example_file = 320"
    "fat_base example_file = 256"
    by (simp_all add: g example_geometry)
  show sz: "entry_size example_file 0 = 0" and fi: "entry_first example_file 0 = 0xffff" by (fact e(2), fact e(3))
  have z: "imem example_file x = 0" if "96 \<le> x" for x
    unfolding example_file_def
    by (subst created_outside [OF n]) (use that in \<open>auto simp: example_geometry example_bytes\<close>)
  show fz: "fat_entry example_file j = 0" for j
    by (simp add: fat_entry_def ld16_def g example_geometry z)
  show "file_at example_file [97] 0"
    using e(1) by (simp add: file_at_def g example_geometry)
  show "write_target example_file 0 0"
    by (simp add: write_target_def g example_geometry sz fi fz)
qed

theorem write_then_read_witness:
  "\<exists>img'. tagfs_write (47 # [97]) [1, 2, 3] 0 example_file = Ok (int (length [1 :: u8, 2, 3]), img')
    \<and> tagfs_read (47 # [97]) (length [1 :: u8, 2, 3]) 0 img' = Ok (int (length [1 :: u8, 2, 3]), [1, 2, 3])
    \<and> unat (entry_size img' 0) = max (unat (entry_size example_file 0)) (0 + length [1 :: u8, 2, 3])
    \<and> fat_entry img' 0 \<noteq> 0
    \<and> (\<forall>j < fat_entries example_file. j \<noteq> 0 \<longrightarrow> fat_entry img' j = fat_entry example_file j)
    \<and> (\<forall>x. data_base example_file \<le> x \<and> \<not> (data_base example_file + 0 * sector example_file + 0 \<le> x
            \<and> x < data_base example_file + 0 * sector example_file + 0 + length [1 :: u8, 2, 3])
          \<longrightarrow> imem img' x = imem example_file x)"
  by (rule write_then_read [OF example_file(1,2)]) (simp_all add: example_file)

section \<open>Where the driver goes wrong\<close>

text \<open>
  Reading past the end of a file. A read that starts inside the file and stays inside its first sector
  returns as many bytes as were asked for, the ones after the end of the file included.
\<close>

theorem read_past_end:
  assumes "file_at img name k" and "entry_first img k = of_nat f" and "f < fat_entries img"
    and "offset < unat (entry_size img k)" and "unat (entry_size img k) < offset + sz"
    and "offset + sz \<le> sector img"
  shows "tagfs_read (47 # name) sz offset img
      = Ok (int sz, bytes_at (imem img) (data_base img + f * sector img + offset) sz)
    \<and> unat (entry_size img k) - offset < sz"
proof -
  have "offset < sector img" "sz \<le> sector img - offset" using assms(5,6) assms(4) by linarith+
  with read_one_sector [OF assms(1-4)] assms(4,5) show ?thesis by simp
qed

theorem read_past_end_witness:
  "\<exists>img. tagfs_read (47 # [97]) 64 0 img = Ok (int 64, bytes_at (imem img) (data_base img + 0 * sector img + 0) 64)
    \<and> unat (entry_size img 0) - 0 < 64"
proof -
  let ?i = "started example_file 0 0"
  note s = started_simps [OF example_file(1,2)]
  have low: "\<forall>x < 64. imem ?i x = imem example_file x"
    using s(2) meta_in_image(2) [of example_file 0] example_file(1) by (auto simp: file_at_def)
  have wf: "img_wf example_file" using example_file(1) by (simp add: file_at_def)
  have one: "length [1 :: u8] \<le> sector ?i - 0" "0 < sector ?i" "0 < fat_entries ?i"
    by (simp_all add: header_kept [OF wf s(1) low] example_file)
  note w = written_facts [OF s(5) one(3,1,2)]
  show ?thesis
    by (rule exI [of _ "written ?i 0 0 0 [1]"], rule read_past_end [OF w(3)])
       (use w(4,5) s(3) one in \<open>simp_all add: w(9,10) s(4) example_file header_kept [OF wf s(1) low]\<close>)
qed

lemma data_store:
  assumes wf: "img_wf img" and f: "f < fat_entries img" and len: "length bs \<le> sector img"
  defines "img' \<equiv> img\<lparr>imem := mem_put (imem img) (data_base img + f * sector img) bs\<rparr>"
  shows "img_store img (sector_at img (get_data img) (int f)) bs = Ok img'"
    and "ilen img' = ilen img" and "\<And>x. x < data_base img \<Longrightarrow> imem img' x = imem img x"
    and "fat_entry img' j = fat_entry img j \<or> fat_entries img \<le> j"
    and "bytes_at (imem img') (data_base img + f * sector img) (length bs) = bs"
proof -
  show "img_store img (sector_at img (get_data img) (int f)) bs = Ok img'"
    unfolding fat_index_word(4) [OF wf f] img'_def
    by (rule img_access(8)) (use section_bounds(3) [OF wf f] len in linarith)
  show l: "ilen img' = ilen img" by (simp add: img'_def)
  show out: "imem img' x = imem img x" if "x < data_base img" for x
    using that by (simp add: img'_def mem_put_outside)
  show "fat_entry img' j = fat_entry img j \<or> fat_entries img \<le> j"
  proof (cases "j < fat_entries img")
    case True
    have low: "\<forall>x < 64. imem img' x = imem img x"
      using out section_bounds(2) [OF wf f] section_bounds(5) [OF wf]
      by (auto simp: data_base_def sections_def intro!: out)
    show ?thesis
      by (rule disjI1, rule fat_entry_cong [OF header_kept(2) [OF wf l low]])
         (use out section_bounds(2) [OF wf True] in simp)
  qed simp
  show "bytes_at (imem img') (data_base img + f * sector img) (length bs) = bs"
    unfolding img'_def using bytes_at_mem_put [of "imem img" "data_base img + f * sector img" bs "[]"] by simp
qed

text \<open>
  Two parts of a write, when the sector \<open>f\<close> found for the first one is not marked: the second part is stored
  over the first.
\<close>

lemma second_part_overwrites:
  assumes wf: "img_wf img" and f: "f < fat_entries img" "fat_entry img f = 0" "\<forall>j < f. fat_entry img j \<noteq> 0"
    and len: "sector img < length buf" "length buf \<le> 2 * sector img"
  obtains i2 i3 where "img_store img (sector_at img (get_data img) (int f)) (take (sector img) buf) = Ok i2"
    and "write_rest i2 (get_fat img) (get_data img) buf (sector img) = Ok (False, length buf, i3)"
    and "ilen i3 = ilen img" and "\<And>x. x < data_base img \<Longrightarrow> imem i3 x = imem img x"
    and "bytes_at (imem i3) (data_base img + f * sector img) (length buf - sector img) = drop (sector img) buf"
proof -
  let ?s = "sector img" and ?d = "data_base img + f * sector img"
  note b = section_bounds(5) [OF wf] section_bounds(2) [OF wf f(1)]
  have "64 \<le> fat_base img" using b(1) by (simp add: fat_base_def)
  then have base: "64 \<le> data_base img" using b(2) by linarith
  define i2 where "i2 = img\<lparr>imem := mem_put (imem img) ?d (take ?s buf)\<rparr>"
  have t: "length (take ?s buf) \<le> sector img" by simp
  note d1 = data_store [OF wf f(1) t, folded i2_def]
  have low2: "\<forall>x < 64. imem i2 x = imem img x" using d1(3) base by auto
  note h2 = header_kept [OF wf d1(2) low2]
  have f2: "f < fat_entries i2" and t2: "length (drop ?s buf) \<le> sector i2" using f(1) len(2) by (simp_all add: h2)
  define i3 where "i3 = i2\<lparr>imem := mem_put (imem i2) ?d (drop ?s buf)\<rparr>"
  note d2 = data_store [OF h2(7) f2 t2, unfolded h2(1,3,4), folded i3_def]
  have fe2: "fat_entry i2 j = fat_entry img j" if "j < fat_entries img" for j
    using d1(4) [of j] that by simp
  have free: "find_free_fat i2 (get_fat img) = Ok (int f)"
    using find_free_fat_found [OF h2(7) f2] fe2 f h2(8) by simp
  have st: "img_store i2 (sector_at i2 (get_data img) (int f)) (take (length buf - ?s) (drop ?s buf)) = Ok i3"
    using d2(1) h2(9) by simp
  have "write_rest i3 (get_fat img) (get_data img) buf (length buf) = Ok (False, length buf, i3)"
    by (subst write_rest.simps) simp
  then have "write_rest i2 (get_fat img) (get_data img) buf ?s = Ok (False, length buf, i3)"
    using len st free b by (subst write_rest.simps) (simp add: h2(1) Let_def)
  then show ?thesis
    using d1 d2 by (intro that [of i2 i3]) simp_all
qed

lemma two_sectors_small:
  assumes "img_wf img" and "f < fat_entries img" and "n \<le> 2 * sector img"
  shows "n < 4294967296"
proof -
  have "0 < unat (m_fat_sector_count img)"
    using assms(2) by (cases "unat (m_fat_sector_count img)") (simp_all add: fat_entries_def)
  then have "2 * sector img \<le> sections img * sector img"
    by (intro mult_le_mono1) (simp add: sections_def)
  moreover have "sections img * sector img < 4294967296" using assms(1) by (simp add: img_wf_def)
  ultimately show ?thesis using assms(3) by linarith
qed



section \<open>Removing a file\<close>

lemma unlink_enters:
  assumes f: "file_at img name k" and first: "entry_first img k = of_nat f" and ff: "f < fat_entries img"
  obtains img1 where "ilen img1 = ilen img" "imem img1 = (imem img)(meta_base img k + 8 := 0)"
    "tagfs_unlink fuel (c # name) img
      = obind (unlink_loop fuel (get_fat img) (int f) img1) (\<lambda>img. Ok (0, img))"
proof -
  have wf: "img_wf img" and k: "k < meta_entries img" using f by (simp_all add: file_at_def)
  note b = meta_in_image [OF wf k]
  note l = file_at_lookup [OF f]
  define img1 where "img1 = img\<lparr>imem := (imem img)(meta_base img k + 8 := 0)\<rparr>"
  have st: "img_st8 img (int (meta_base img k + 8)) 0 = Ok img1"
    using img_access(4) [of "meta_base img k + 8" img 0] b by (simp add: img1_def st8_def)
  have low: "\<forall>x < 64. imem img1 x = imem img x" using b by (simp add: img1_def)
  have len: "ilen img1 = ilen img" by (simp add: img1_def)
  note h = header_kept [OF wf len low]
  have "ld32 (imem img1) (meta_base img k) = entry_first img k"
    unfolding entry_first_def by (rule cell32.ld_frame) (simp add: img1_def)
  then have ld: "img_ld32 img1 (int (meta_base img k)) = Ok (of_nat f)"
    using img_access(3) [of "meta_base img k" img1] b len first by simp
  have e: "int (unat (of_nat (k + 1) :: u16)) - 1 = int k" and nm: "int (unat (of_nat (k + 1) :: u16)) \<noteq> - 1"
    unfolding l(2) by simp_all
  note w = fat_index_word [OF wf ff]
  have sf: "sint (of_nat f :: u32) = int f" using w(1) by simp
  have "tagfs_unlink fuel (c # name) img
      = obind (unlink_loop fuel (get_fat img) (int f) img1) (\<lambda>img. Ok (0, img))"
    unfolding tagfs_unlink_def Let_def list.sel l(1) obind.simps if_not_P [OF nm] e meta_addr [OF wf] st ld
      if_not_P [OF w(2)] h(8) sf ..
  then show ?thesis using that [of img1] by (simp add: img1_def)
qed

lemma unlink_loop_step:
  assumes wf: "img_wf img" and f: "f < fat_entries img"
  defines "img1 \<equiv> img\<lparr>imem := st16 (imem img) (fat_base img + 2 * f) 0\<rparr>"
  shows "unlink_loop (Suc fuel) (get_fat img) (int f) img =
      (if fat_entry img f = 0xffff then Ok img1 else unlink_loop fuel (get_fat img) 0 img1)"
    and "img_wf img1" "get_fat img1 = get_fat img" "fat_entries img1 = fat_entries img" "fat_base img1 = fat_base img"
    and "fat_entry img1 j = (if j = f then 0 else fat_entry img j)"
    and "\<And>x. x < fat_base img \<Longrightarrow> imem img1 x = imem img x"
proof -
  note b = section_bounds(2) [OF wf f] section_bounds(4) [OF wf]
  have a: "img_ld16 img (int (fat_base img + 2 * f)) = Ok (fat_entry img f)"
    unfolding fat_entry_def by (rule img_access(2)) (use b in linarith)
  have st: "img_st16 img (int (fat_base img + 2 * f)) 0 = Ok img1"
    unfolding img1_def by (rule img_access(5)) (use b in linarith)
  have out: "imem img1 x = imem img x" if "x < fat_base img + 2 * f \<or> fat_base img + 2 * f + 2 \<le> x" for x
    unfolding img1_def using that by (simp add: cell16.st_frame)
  show "imem img1 x = imem img x" if "x < fat_base img" for x using out that by simp
  have "64 \<le> fat_base img" using section_bounds(5) [OF wf] by (simp add: fat_base_def)
  then have low: "\<forall>x < 64. imem img1 x = imem img x" using out by simp
  have len: "ilen img1 = ilen img" by (simp add: img1_def)
  note h = header_kept [OF wf len low]
  show "img_wf img1" "get_fat img1 = get_fat img" "fat_entries img1 = fat_entries img" "fat_base img1 = fat_base img"
    by (fact h(7), fact h(8), fact h(4), fact h(2))
  have z: "ld16 (imem img1) (fat_base img + 2 * f) = 0" by (simp add: img1_def cell16.ld_st)
  show "fat_entry img1 j = (if j = f then 0 else fat_entry img j)"
  proof (cases "j = f")
    case True
    then show ?thesis using z by (simp add: fat_entry_def h(2))
  next
    case False
    have "fat_entry img1 j = fat_entry img j"
      by (rule fat_entry_cong [OF h(2)], rule out) (use False in linarith)
    with False show ?thesis by simp
  qed
  have ld: "img_ld16 img1 (int (fat_base img + 2 * f)) = Ok 0"
    using img_access(2) [of "fat_base img + 2 * f" img1] b len z by simp
  show "unlink_loop (Suc fuel) (get_fat img) (int f) img =
      (if fat_entry img f = 0xffff then Ok img1 else unlink_loop fuel (get_fat img) 0 img1)"
    unfolding unlink_loop.simps meta_addr(4) [OF wf] a st obind.simps ld by simp
qed

lemma unlink_loop_stuck:
  "img_wf img \<Longrightarrow> 0 < fat_entries img \<Longrightarrow> fat_entry img 0 \<noteq> 0xffff \<Longrightarrow>
   unlink_loop fuel (get_fat img) 0 img = Diverged"
proof (induction fuel arbitrary: img)
  case (Suc fuel)
  define i where "i = img\<lparr>imem := st16 (imem img) (fat_base img + 2 * 0) 0\<rparr>"
  note u = unlink_loop_step [OF Suc.prems(1,2), folded i_def]
  have "unlink_loop fuel (get_fat i) 0 i = Diverged"
    by (rule Suc.IH [OF u(2)]) (use u(4,6) Suc.prems(2) in simp_all)
  then show ?case using u(1) [of fuel] Suc.prems(3) by (simp add: u(3))
qed simp

text \<open>
  (C31) Removing a file of one sector. For a file found under its name whose sector ends its chain,
  \<open>tagfs_unlink\<close> returns 0; the entry is free, its FAT entry is free, and all other FAT entries and
  all bytes of the other entries are unchanged.
\<close>

theorem unlink_one_sector:
  assumes "file_at img name k" and "entry_first img k = of_nat f" and "f < fat_entries img"
    and "fat_entry img f = 0xffff" and "0 < fuel"
  shows "\<exists>img'. tagfs_unlink fuel (47 # name) img = Ok (0, img') \<and> entry_free img' k
    \<and> (\<forall>j < fat_entries img. fat_entry img' j = (if j = f then 0 else fat_entry img j))
    \<and> (\<forall>x. x < fat_base img \<and> x \<noteq> meta_base img k + 8 \<longrightarrow> imem img' x = imem img x)"
proof -
  have wf: "img_wf img" and k: "k < meta_entries img" using assms(1) by (simp_all add: file_at_def)
  note b = meta_in_image [OF wf k] section_bounds(1) [OF wf k]
  obtain img1 where i1: "ilen img1 = ilen img" "imem img1 = (imem img)(meta_base img k + 8 := 0)"
    "tagfs_unlink fuel (47 # name) img
      = obind (unlink_loop fuel (get_fat img) (int f) img1) (\<lambda>img. Ok (0, img))"
    by (rule unlink_enters [OF assms(1-3)])
  have low: "\<forall>x < 64. imem img1 x = imem img x" using b by (simp add: i1(2))
  note h = header_kept [OF wf i1(1) low]
  have fe: "fat_entry img1 j = fat_entry img j" for j
    by (rule fat_entry_cong [OF h(2)]) (use b in \<open>simp add: i1(2)\<close>)
  define i2 where "i2 = img1\<lparr>imem := st16 (imem img1) (fat_base img1 + 2 * f) 0\<rparr>"
  have f1: "f < fat_entries img1" using assms(3) by (simp add: h)
  note u = unlink_loop_step [OF h(7) f1, folded i2_def]
  obtain n where n: "fuel = Suc n" using assms(5) by (cases fuel) auto
  have "unlink_loop fuel (get_fat img) (int f) img1 = Ok i2"
    using u(1) [of n] fe assms(4) by (simp add: n h)
  then have r: "tagfs_unlink fuel (47 # name) img = Ok (0, i2)" using i1(3) by simp
  have mb: "meta_base i2 = meta_base img"
  proof -
    have "\<forall>x < 64. imem i2 x = imem img1 x" using u(7) b by (simp add: h)
    then show ?thesis using header_kept(6) [OF h(7), of i2] h(6) by (simp add: i2_def)
  qed
  have "entry_free i2 k" using u(7) [of "meta_base img k + 8"] b by (simp add: entry_free_def mb h i1(2))
  moreover have "\<forall>j < fat_entries img. fat_entry i2 j = (if j = f then 0 else fat_entry img j)"
    using u(6) fe by simp
  moreover have "\<forall>x. x < fat_base img \<and> x \<noteq> meta_base img k + 8 \<longrightarrow> imem i2 x = imem img x"
    using u(7) by (simp add: h i1(2))
  ultimately show ?thesis using r by blast
qed


lemma example_started:
  "file_at (started example_file 0 0) [97] 0" "entry_first (started example_file 0 0) 0 = of_nat 0"
  "fat_entries (started example_file 0 0) = 32" "sector (started example_file 0 0) = 64"
  "fat_entry (started example_file 0 0) j = 0" "entry_size (started example_file 0 0) 0 = 0"
proof -
  note s = started_simps [OF example_file(1,2)]
  have wf: "img_wf example_file" using example_file(1) by (simp add: file_at_def)
  note b = meta_in_image [OF wf, of 0] section_bounds(1) [OF wf, of 0]
  have k: "0 < meta_entries example_file" using example_file(1) by (simp add: file_at_def)
  have low: "\<forall>x < 64. imem (started example_file 0 0) x = imem example_file x" using s(2) b k by auto
  note h = header_kept [OF wf s(1) low]
  show "fat_entries (started example_file 0 0) = 32" "sector (started example_file 0 0) = 64"
    by (simp_all add: h example_file)
  have "fat_entry (started example_file 0 0) j = fat_entry example_file j"
    by (rule fat_entry_cong [OF h(2)]) (use s(2) b k in auto)
  then show "fat_entry (started example_file 0 0) j = 0" by (simp add: example_file)
  show "file_at (started example_file 0 0) [97] 0" "entry_first (started example_file 0 0) 0 = of_nat 0"
    "entry_size (started example_file 0 0) 0 = 0"
    using s(3,4,5) example_file(3) by simp_all
qed

theorem unlink_one_sector_witness:
  "\<exists>img. \<exists>img'. tagfs_unlink 1 (47 # [97]) img = Ok (0, img') \<and> entry_free img' 0
    \<and> (\<forall>j < fat_entries img. fat_entry img' j = (if j = 0 then 0 else fat_entry img j))
    \<and> (\<forall>x. x < fat_base img \<and> x \<noteq> meta_base img 0 + 8 \<longrightarrow> imem img' x = imem img x)"
proof -
  have one: "length [1 :: u8] \<le> sector (started example_file 0 0) - 0" "0 < sector (started example_file 0 0)"
    "0 < fat_entries (started example_file 0 0)"
    by (simp_all add: example_started)
  note w = written_facts [OF example_started(1) one(3,1,2)]
  show ?thesis
    by (rule exI [of _ "written (started example_file 0 0) 0 0 0 [1]"], rule unlink_one_sector [OF w(3)])
       (simp_all add: w(4,6,10) example_started)
qed


end
