(* ===== verification/Boot.thy ===== *)
theory Boot
  imports PageFrame CMem
begin

text \<open>
  The boot code: the segment descriptors of \<open>src/src/arch/x86/boot/gdt.c\<close> and the page tables that
  \<open>bootstrap\<close> (\<open>src/src/arch/x86/boot/bootstrap.c\<close>) fills before it turns paging on, and the copy it makes
  of the multiboot information. The addresses of the three page tables and the end of the kernel are the
  record \<open>boot_link\<close>, known to the linker only.
\<close>

section \<open>The global descriptor table\<close>

record Segment_Descriptor =
  limit_low :: u16
  base_low :: u16
  base_mid :: u8
  access_byte :: u8
  limit_high_and_flags :: u8
  base_high :: u8

definition gdt_create_descriptor :: "u32 \<Rightarrow> u32 \<Rightarrow> u8 \<Rightarrow> u8 \<Rightarrow> Segment_Descriptor" where
  "gdt_create_descriptor base limit access flags =
     \<lparr>limit_low = ucast (limit AND 0xffff), base_low = ucast (base AND 0xffff),
      base_mid = ucast (drop_bit 16 base AND 0xff), access_byte = access,
      limit_high_and_flags = ucast (drop_bit 16 limit AND 0xf) OR push_bit 4 flags,
      base_high = ucast (drop_bit 24 base AND 0xff)\<rparr>"

definition GDT_AB_ACCESSED :: u8 where "GDT_AB_ACCESSED = 1"
definition GDT_AB_RW :: u8 where "GDT_AB_RW = push_bit 1 1"
definition GDT_AB_DIR_CONFORM :: u8 where "GDT_AB_DIR_CONFORM = push_bit 2 1"
definition GDT_AB_EXEC :: u8 where "GDT_AB_EXEC = push_bit 3 1"
definition GDT_AB_DATACODE :: u8 where "GDT_AB_DATACODE = push_bit 4 1"
definition GDT_AB_PRIV_3 :: u8 where "GDT_AB_PRIV_3 = push_bit 5 3"
definition GDT_AB_PRESENT :: u8 where "GDT_AB_PRESENT = push_bit 7 1"
definition GDT_FLAGS_SIZE32 :: u8 where "GDT_FLAGS_SIZE32 = push_bit 2 1"
definition GDT_FLAGS_GRAN4K :: u8 where "GDT_FLAGS_GRAN4K = push_bit 3 1"

record gdt_state =
  gdt :: "nat \<Rightarrow> Segment_Descriptor"
  gdtr_size :: u16
  gdtr_offset :: u32

definition gdt_init :: "u32 \<Rightarrow> gdt_state \<Rightarrow> gdt_state" where
  "gdt_init gdt_addr st =
     (let t = (gdt st)(0 := \<lparr>limit_low = 0, base_low = 0, base_mid = 0, access_byte = 0,
                limit_high_and_flags = 0, base_high = 0\<rparr>);
          t = t(1 := gdt_create_descriptor 0 0xfffff
                (GDT_AB_ACCESSED OR GDT_AB_RW OR GDT_AB_DIR_CONFORM OR GDT_AB_EXEC
                   OR GDT_AB_DATACODE OR GDT_AB_PRESENT)
                (GDT_FLAGS_GRAN4K OR GDT_FLAGS_SIZE32));
          t = t(2 := gdt_create_descriptor 0 0xfffff
                (GDT_AB_ACCESSED OR GDT_AB_RW OR GDT_AB_DATACODE OR GDT_AB_PRESENT)
                (GDT_FLAGS_GRAN4K OR GDT_FLAGS_SIZE32));
          t = t(3 := gdt_create_descriptor 0 0xfffff
                (GDT_AB_ACCESSED OR GDT_AB_RW OR GDT_AB_DIR_CONFORM OR GDT_AB_EXEC
                   OR GDT_AB_PRIV_3 OR GDT_AB_DATACODE OR GDT_AB_PRESENT)
                (GDT_FLAGS_GRAN4K OR GDT_FLAGS_SIZE32));
          t = t(4 := gdt_create_descriptor 0 0xfffff
                (GDT_AB_ACCESSED OR GDT_AB_RW OR GDT_AB_PRIV_3 OR GDT_AB_DATACODE OR GDT_AB_PRESENT)
                (GDT_FLAGS_GRAN4K OR GDT_FLAGS_SIZE32))
      in st\<lparr>gdt := t, gdtr_size := 5 * 8 - 1, gdtr_offset := gdt_addr\<rparr>)"

text \<open>What the processor reads out of a descriptor.\<close>

definition segment_base :: "Segment_Descriptor \<Rightarrow> u32" where
  "segment_base d = ucast (base_low d) OR push_bit 16 (ucast (base_mid d)) OR push_bit 24 (ucast (base_high d))"

definition segment_limit :: "Segment_Descriptor \<Rightarrow> u32" where
  "segment_limit d = ucast (limit_low d) OR push_bit 16 (ucast (limit_high_and_flags d AND 0xf))"

definition segment_flags :: "Segment_Descriptor \<Rightarrow> u8" where
  "segment_flags d = drop_bit 4 (limit_high_and_flags d)"

section \<open>The first page tables\<close>

record boot_link =
  low_table_addr :: u32
  kernel_table1_addr :: u32
  kernel_table2_addr :: u32
  kernel_phys_end :: u32

record boot_tables =
  boot_directory :: "nat \<Rightarrow> u32"
  low_page_table :: "nat \<Rightarrow> u32"
  kernel_page_table1 :: "nat \<Rightarrow> u32"
  kernel_page_table2 :: "nat \<Rightarrow> u32"

text \<open>
  One mapping loop. The physical address is compared with the limit before each round; past the last
  page of memory it would wrap and the loop would not end.
\<close>

function map_range :: "u32 \<Rightarrow> u32 \<Rightarrow> u32 \<Rightarrow> (nat \<Rightarrow> u32) \<Rightarrow> (nat \<Rightarrow> u32) outcome" where
  "map_range virt_addr phys_addr limit table =
     (if phys_addr < limit then
        if unat phys_addr + 4096 < 2 ^ 32 then
          map_range (virt_addr + PAGE_SIZE) (phys_addr + PAGE_SIZE) limit
            (table(unat (drop_bit 12 virt_addr AND 0x3FF) := phys_addr OR PAGE_FLAGS))
        else Diverged
      else Ok table)"
  by pat_completeness auto
termination
  by (relation "measure (\<lambda>(v, p, l, t). 2 ^ 32 - unat p)") (auto simp: PAGE_SIZE_def unat_word_ariths)

declare map_range.simps [simp del]

definition bootstrap_paging :: "boot_link \<Rightarrow> boot_tables \<Rightarrow> boot_tables outcome" where
  "bootstrap_paging L st =
     (let dir = (boot_directory st)(unat (drop_bit 22 (0 :: u32)) := low_table_addr L OR PAGE_FLAGS) in
      obind (map_range 0 0 0x200000 (low_page_table st)) (\<lambda>low.
      let kernel_phys_mid = kernel_phys_start + 4 * 1024 * 1024;
          dir = dir(unat (drop_bit 22 (0xC0000000 :: u32)) := kernel_table1_addr L OR PAGE_FLAGS) in
      obind (map_range 0xC0000000 kernel_phys_start kernel_phys_mid (kernel_page_table1 st)) (\<lambda>k1.
      let dir = dir(unat (drop_bit 22 (0xC0400000 :: u32)) := kernel_table2_addr L OR PAGE_FLAGS) in
      obind (map_range 0xC0400000 kernel_phys_mid (kernel_phys_end L) (kernel_page_table2 st)) (\<lambda>k2.
      Ok \<lparr>boot_directory = dir, low_page_table = low, kernel_page_table1 = k1, kernel_page_table2 = k2\<rparr>))))"

text \<open>What the linker gives: three page-aligned tables at different addresses, a kernel below 8 MiB.\<close>

definition boot_link_ok :: "boot_link \<Rightarrow> bool" where
  "boot_link_ok L \<longleftrightarrow> low_table_addr L AND 0xfff = 0 \<and> kernel_table1_addr L AND 0xfff = 0
     \<and> kernel_table2_addr L AND 0xfff = 0 \<and> distinct [low_table_addr L, kernel_table1_addr L, kernel_table2_addr L]
     \<and> unat (kernel_phys_end L) \<le> 0xA00000"

text \<open>The processor's translation through these tables.\<close>

definition boot_walk :: "boot_link \<Rightarrow> boot_tables \<Rightarrow> u32 \<Rightarrow> u32 option" where
  "boot_walk L st v =
     (let pde = boot_directory st (unat (drop_bit 22 v)); t = pde AND NOT 0xfff;
          slot = unat (drop_bit 12 v AND 0x3ff);
          pte = (if t = low_table_addr L then low_page_table st slot
                 else if t = kernel_table1_addr L then kernel_page_table1 st slot
                 else if t = kernel_table2_addr L then kernel_page_table2 st slot else 0)
      in if bit pde 0 \<and> bit pte 0 then Some ((pte AND NOT 0xfff) OR (v AND 0xfff)) else None)"

section \<open>Descriptors\<close>

lemma masks:
  "(0xffff :: u32) = mask 16" "(0xff :: u32) = mask 8" "(0xf :: u32) = mask 4" "(0xf :: u8) = mask 4"
  by (simp_all add: mask_eq_exp_minus_1)

lemma descriptor_fields:
  assumes "limit < 0x100000"
  shows "segment_base (gdt_create_descriptor base limit access flags) = base"
    and "segment_limit (gdt_create_descriptor base limit access flags) = limit"
    and "segment_flags (gdt_create_descriptor base limit access flags) = flags AND 0xf"
proof -
  have l: "n < 20" if "bit limit n" for n
  proof -
    have "limit = take_bit 20 limit"
      using assms by (simp add: word_unat_eq_iff unat_take_bit word_less_nat_alt)
    then show ?thesis using that by (metis bit_take_bit_iff not_le)
  qed
  show "segment_base (gdt_create_descriptor base limit access flags) = base"
  proof -
    have e: "24 + (n - 24) = (if 24 \<le> n then n else 24)" for n :: nat by simp
    show ?thesis
      unfolding segment_base_def gdt_create_descriptor_def masks
      by (rule bit_word_eqI) (auto simp: bit_simps e)
  qed
  show "segment_limit (gdt_create_descriptor base limit access flags) = limit"
    unfolding segment_limit_def gdt_create_descriptor_def masks
    by (rule bit_word_eqI) (auto simp: bit_simps dest: l)
  show "segment_flags (gdt_create_descriptor base limit access flags) = flags AND 0xf"
    unfolding segment_flags_def gdt_create_descriptor_def masks
    by (rule bit_word_eqI) (auto simp: bit_simps)
qed

text \<open>
  The descriptor table. After \<open>gdt_init\<close> the first descriptor has access byte 0, descriptors 1 to 4 are the
  flat 4 GiB segments (base 0, limit 0xfffff in 4 KiB units, 32-bit) with the access bytes of kernel code, kernel data,
  user code and user data, and the table register covers exactly five descriptors.
\<close>

theorem gdt_init_flat:
  "let st' = gdt_init addr st; d = gdt st' in
     map (\<lambda>i. (segment_base (d i), segment_limit (d i), segment_flags (d i))) [1, 2, 3, 4]
       = replicate 4 (0, 0xfffff, 0xC)
   \<and> map (\<lambda>i. access_byte (d i)) [0, 1, 2, 3, 4] = [0, 0x9F, 0x93, 0xFF, 0xF3]
   \<and> unat (gdtr_size st') + 1 = 5 * 8 \<and> gdtr_offset st' = addr
   \<and> (\<lambda>i. d (i + 5)) = (\<lambda>i. gdt st (i + 5))"
proof -
  have acc: "access_byte (gdt_create_descriptor b l a f) = a" for b l a f
    by (simp add: gdt_create_descriptor_def)
  have lim: "(0xfffff :: u32) < 0x100000" by simp
  have fl: "(GDT_FLAGS_GRAN4K OR GDT_FLAGS_SIZE32) AND 0xf = 0xC"
    by (simp add: GDT_FLAGS_GRAN4K_def GDT_FLAGS_SIZE32_def)
  have four: "replicate 4 x = [x, x, x, x]" for x :: "u32 \<times> u32 \<times> u8"
    by (simp add: numeral_eq_Suc)
  show ?thesis
    using descriptor_fields [OF lim] fl
    by (simp add: four gdt_init_def Let_def acc GDT_AB_ACCESSED_def GDT_AB_RW_def GDT_AB_DIR_CONFORM_def
        GDT_AB_EXEC_def GDT_AB_DATACODE_def GDT_AB_PRIV_3_def GDT_AB_PRESENT_def)
qed

section \<open>The mapping loops\<close>

lemma slot_of_aligned:
  fixes v :: u32
  assumes "unat v = 4096 * q"
  shows "unat (drop_bit 12 v AND 0x3FF) = q mod 1024"
proof -
  have "(0x3FF :: u32) = mask 10" by (simp add: mask_eq_exp_minus_1)
  then show ?thesis using assms by (simp only: unat_and_mask unat_drop_bit) simp
qed

lemma map_range_spec:
  assumes "unat virt = 4096 * (1024 * d + i)" and "unat phys = 4096 * p" and "i + c \<le> 1024"
    and "unat limit \<le> 4096 * (p + c)" and "c \<noteq> 0 \<Longrightarrow> 4096 * (p + c - 1) < unat limit"
    and "4096 * (p + c) < 4294967296" and "4096 * (1024 * d + i + c) < 4294967296"
  shows "\<exists>t'. map_range virt phys limit table = Ok t'
    \<and> (\<forall>j. t' j = (if i \<le> j \<and> j < i + c then of_nat (4096 * (p + j - i)) OR PAGE_FLAGS else table j))"
  using assms
proof (induction c arbitrary: virt phys table i p)
  case 0
  then have "\<not> phys < limit" by (simp add: word_less_nat_alt)
  then show ?case by (subst map_range.simps) auto
next
  case (Suc c)
  have lt: "phys < limit" using Suc.prems(2,5) by (simp add: word_less_nat_alt)
  have small: "unat phys + 4096 < 2 ^ 32" using Suc.prems(2,6) by simp
  have nv: "unat (virt + PAGE_SIZE) = 4096 * (1024 * d + (i + 1))"
    using Suc.prems(1,7) by (simp add: PAGE_SIZE_def unat_add_no_wrap)
  have np: "unat (phys + PAGE_SIZE) = 4096 * (p + 1)"
    using Suc.prems(2) small by (simp add: PAGE_SIZE_def unat_add_no_wrap)
  have slot: "unat (drop_bit 12 virt AND 0x3FF) = i"
    using slot_of_aligned [OF Suc.prems(1)] Suc.prems(3) by simp
  have ph: "phys = of_nat (4096 * p)" using Suc.prems(2) by (metis of_nat_unat ucast_id)
  let ?t = "table(i := of_nat (4096 * p) OR PAGE_FLAGS)"
  have step: "map_range virt phys limit table = map_range (virt + PAGE_SIZE) (phys + PAGE_SIZE) limit ?t"
    using lt small by (subst map_range.simps) (simp only: if_True slot ph [symmetric])
  have "\<exists>t'. map_range (virt + PAGE_SIZE) (phys + PAGE_SIZE) limit ?t = Ok t'
    \<and> (\<forall>j. t' j = (if i + 1 \<le> j \<and> j < i + 1 + c then of_nat (4096 * (p + 1 + j - (i + 1))) OR PAGE_FLAGS else ?t j))"
    by (rule Suc.IH [OF nv np]) (use Suc.prems in auto)
  then obtain t' where t': "map_range (virt + PAGE_SIZE) (phys + PAGE_SIZE) limit ?t = Ok t'"
    "\<And>j. t' j = (if i + 1 \<le> j \<and> j < i + 1 + c then of_nat (4096 * (p + 1 + j - (i + 1))) OR PAGE_FLAGS else ?t j)"
    by blast
  have "t' j = (if i \<le> j \<and> j < i + Suc c then of_nat (4096 * (p + j - i)) OR PAGE_FLAGS else table j)" for j
    unfolding t'(2) by (cases "j = i") auto
  then show ?case using step t'(1) by auto
qed

section \<open>What the first tables translate\<close>

lemma frame_aligned: "(of_nat (4096 * m) :: u32) AND 0xfff = 0"
proof -
  have "unat (of_nat (4096 * m) :: u32) = (4096 * m) mod 4294967296"
    by (simp only: unat_of_nat) simp
  then have "unat (of_nat (4096 * m) :: u32) mod 4096 = 4096 * m mod 4096"
    by (simp only:) (rule mod_mod_cancel, simp)
  then show ?thesis by (simp add: aligned_iff)
qed

lemma page_plus_offset:
  assumes "m < 1048576"
  shows "unat ((of_nat (4096 * m) :: u32) OR (v AND 0xfff)) = 4096 * m + unat v mod 4096"
proof -
  have "(of_nat (4096 * m) :: u32) OR (v AND 0xfff) = of_nat (4096 * m) + (v AND 0xfff)"
    by (rule disjunctive_add [symmetric])
       (use bit_aligned [OF frame_aligned [of m]] in \<open>auto simp: mask12_u32 bit_simps\<close>)
  moreover have "unat (v AND 0xfff) = unat v mod 4096"
    unfolding mask12_u32 by (simp only: unat_and_mask) simp
  moreover have "unat (of_nat (4096 * m) :: u32) = 4096 * m"
    using assms by (simp only: unat_of_nat) simp
  moreover have "4096 * m + unat v mod 4096 < 4294967296"
    using assms mod_less_divisor [of 4096 "unat v"] by linarith
  ultimately show ?thesis by (simp add: unat_add_no_wrap)
qed

lemma directory_slot:
  fixes v :: u32
  shows "unat (drop_bit 22 v) = unat v div 4194304"
    and "unat (drop_bit 12 v AND 0x3ff) = unat v div 4096 mod 1024"
proof -
  show "unat (drop_bit 22 v) = unat v div 4194304" by (simp add: unat_drop_bit)
  have "(0x3FF :: u32) = mask 10" by (simp add: mask_eq_exp_minus_1)
  then show "unat (drop_bit 12 v AND 0x3ff) = unat v div 4096 mod 1024"
    by (simp only: unat_and_mask unat_drop_bit) simp
qed

lemma high_parts:
  assumes "x < 4194304"
  shows "(4194304 * k + x) div 4194304 = (k :: nat)" and "(4194304 * k + x) div 4096 mod 1024 = x div 4096"
    and "x div 4096 < 1024"
proof -
  show "(4194304 * k + x) div 4194304 = k" using assms by simp
  show b: "x div 4096 < 1024" using assms by (simp add: div_less_iff_less_mult)
  have "(4194304 * k + x) div 4096 = 1024 * k + x div 4096"
    using div_mult_self2 [of 4096 x "1024 * k"] by (simp add: algebra_simps)
  then show "(4194304 * k + x) div 4096 mod 1024 = x div 4096" using b by simp
qed

lemma walk_through_table:
  assumes "boot_link_ok L" and "unat v div 4194304 = d"
    and "boot_directory st d = a OR PAGE_FLAGS"
    and "(a, t) \<in> {(low_table_addr L, low_page_table st), (kernel_table1_addr L, kernel_page_table1 st),
      (kernel_table2_addr L, kernel_page_table2 st)}"
    and "t (unat v div 4096 mod 1024) = of_nat (4096 * m) OR PAGE_FLAGS" and "m < 1048576"
  shows "\<exists>r. boot_walk L st v = Some r \<and> unat r = 4096 * m + unat v mod 4096"
proof -
  have a: "a AND 0xfff = 0" using assms(1,4) by (auto simp: boot_link_ok_def)
  note e = entry_addr [OF a] entry_addr [OF frame_aligned [of m]]
  have "boot_walk L st v = Some (of_nat (4096 * m) OR (v AND 0xfff))"
    unfolding boot_walk_def Let_def directory_slot assms(2,3) e(1)
    using assms(1,4,5) e(2) by (auto simp: boot_link_ok_def simp del: of_nat_mult)
  then show ?thesis using page_plus_offset [OF assms(6), of v] by blast
qed

lemma bootstrap_tables:
  assumes "boot_link_ok L"
  defines "c \<equiv> (unat (kernel_phys_end L) - 6291456 + 4095) div 4096"
  obtains st' where "bootstrap_paging L st = Ok st'"
    and "boot_directory st' = (boot_directory st)(0 := low_table_addr L OR PAGE_FLAGS,
      768 := kernel_table1_addr L OR PAGE_FLAGS, 769 := kernel_table2_addr L OR PAGE_FLAGS)"
    and "\<forall>j < 512. low_page_table st' j = of_nat (4096 * j) OR PAGE_FLAGS"
    and "\<forall>j < 1024. kernel_page_table1 st' j = of_nat (4096 * (512 + j)) OR PAGE_FLAGS"
    and "\<forall>j < c. kernel_page_table2 st' j = of_nat (4096 * (1536 + j)) OR PAGE_FLAGS"
proof -
  have e: "unat (kernel_phys_end L) \<le> 10485760" using assms(1) by (simp add: boot_link_ok_def)
  have c: "c \<le> 1024" "unat (kernel_phys_end L) \<le> 4096 * (1536 + c)"
    "c \<noteq> 0 \<Longrightarrow> 4096 * (1536 + c - 1) < unat (kernel_phys_end L)"
    using e unfolding c_def by (simp_all add: div_le_mono)
  obtain low where low: "map_range 0 0 0x200000 (low_page_table st) = Ok low"
    "\<forall>j. low j = (if 0 \<le> j \<and> j < 0 + 512 then of_nat (4096 * (0 + j - 0)) OR PAGE_FLAGS else low_page_table st j)"
    using map_range_spec [of 0 0 0 0 0 512 "0x200000" "low_page_table st"] by auto
  obtain k1 where k1: "map_range 0xC0000000 0x200000 0x600000 (kernel_page_table1 st) = Ok k1"
    "\<forall>j. k1 j = (if 0 \<le> j \<and> j < 0 + 1024 then of_nat (4096 * (512 + j - 0)) OR PAGE_FLAGS else kernel_page_table1 st j)"
    using map_range_spec [of "0xC0000000" 768 0 "0x200000" 512 1024 "0x600000" "kernel_page_table1 st"] by auto
  obtain k2 where k2: "map_range 0xC0400000 0x600000 (kernel_phys_end L) (kernel_page_table2 st) = Ok k2"
    "\<forall>j. k2 j = (if 0 \<le> j \<and> j < 0 + c then of_nat (4096 * (1536 + j - 0)) OR PAGE_FLAGS else kernel_page_table2 st j)"
    using map_range_spec [of "0xC0400000" 769 0 "0x600000" 1536 c "kernel_phys_end L" "kernel_page_table2 st"] c
    by auto
  have i: "unat (drop_bit 22 (0xC0000000 :: u32)) = 768" "unat (drop_bit 22 (0xC0400000 :: u32)) = 769"
    by (simp_all add: unat_drop_bit)
  show ?thesis
    by (rule that [of "\<lparr>boot_directory = (boot_directory st)(0 := low_table_addr L OR PAGE_FLAGS,
        768 := kernel_table1_addr L OR PAGE_FLAGS, 769 := kernel_table2_addr L OR PAGE_FLAGS),
        low_page_table = low, kernel_page_table1 = k1, kernel_page_table2 = k2\<rparr>"])
       (use low k1 k2 i in \<open>simp_all add: bootstrap_paging_def Let_def kernel_phys_start_def\<close>)
qed

lemma boot_walk_low:
  assumes "boot_link_ok L" and "boot_directory st' 0 = low_table_addr L OR PAGE_FLAGS"
    and "\<forall>j < 512. low_page_table st' j = of_nat (4096 * j) OR PAGE_FLAGS" and "v < 0x200000"
  shows "boot_walk L st' v = Some v"
proof -
  have u: "unat v < 2097152" using assms(4) by (simp add: word_less_nat_alt)
  then have j: "unat v div 4096 mod 1024 = unat v div 4096" "unat v div 4096 < 512" "unat v div 4194304 = 0"
    by (simp_all add: div_less_iff_less_mult)
  obtain r where "boot_walk L st' v = Some r" "unat r = 4096 * (unat v div 4096) + unat v mod 4096"
    using walk_through_table [OF assms(1) j(3), of st' "low_table_addr L" "low_page_table st'" "unat v div 4096"]
      assms(2,3) j by auto
  then show ?thesis by (simp add: word_unat_eq_iff)
qed

lemma boot_walk_kernel:
  assumes "boot_link_ok L" and "boot_directory st' 768 = kernel_table1_addr L OR PAGE_FLAGS"
    and "boot_directory st' 769 = kernel_table2_addr L OR PAGE_FLAGS"
    and "\<forall>j < 1024. kernel_page_table1 st' j = of_nat (4096 * (512 + j)) OR PAGE_FLAGS"
    and "\<forall>j < (unat (kernel_phys_end L) - 6291456 + 4095) div 4096.
      kernel_page_table2 st' j = of_nat (4096 * (1536 + j)) OR PAGE_FLAGS"
    and v: "kernel_start \<le> v" "unat v - 0xC0000000 + 0x200000 < unat (kernel_phys_end L)"
  shows "boot_walk L st' v = Some (v - (kernel_start - kernel_phys_start))"
proof -
  have u: "3221225472 \<le> unat v" using v(1) by (simp add: word_le_nat_alt kernel_start_def)
  have e: "unat (kernel_phys_end L) \<le> 10485760" using assms(1) by (simp add: boot_link_ok_def)
  define ofs where "ofs = unat v - 3221225472"
  have ofs: "unat v = 4194304 * 768 + ofs" "ofs + 2097152 < unat (kernel_phys_end L)" "ofs < 8388608"
    unfolding ofs_def using u v(2) e by linarith+
  have sub: "unat (v - (kernel_start - kernel_phys_start)) = ofs + 2097152"
    using u by (simp add: kernel_start_def kernel_phys_start_def unat_sub word_le_nat_alt ofs_def)
  have "\<exists>r. boot_walk L st' v = Some r \<and> unat r = 4096 * (512 + ofs div 4096) + unat v mod 4096"
  proof (cases "ofs < 4194304")
    case True
    then have "unat v div 4194304 = 768" "unat v div 4096 mod 1024 = ofs div 4096" "ofs div 4096 < 1024"
      unfolding ofs(1) using high_parts(1,2) [of ofs 768] high_parts(3) [of ofs] by simp_all
    then show ?thesis
      using walk_through_table [OF assms(1), of v 768 st' "kernel_table1_addr L" "kernel_page_table1 st'"
          "512 + ofs div 4096"] assms(2,4) by simp
  next
    case False
    define q where "q = ofs - 4194304"
    have q: "ofs = 4194304 + q" "q < 4194304" using False ofs(3) by (simp_all add: q_def)
    have "unat v div 4194304 = 769" "unat v div 4096 mod 1024 = q div 4096" "q div 4096 < 1024"
      "ofs div 4096 = 1024 + q div 4096"
      using high_parts(1,2) [of q 769] high_parts(3) [of q] q unfolding ofs(1) by simp_all
    moreover have "q div 4096 < (unat (kernel_phys_end L) - 6291456 + 4095) div 4096"
      using ofs(2) q(1) by (simp add: div_less_iff_less_mult less_eq_div_iff_mult_less_eq)
    ultimately show ?thesis
      using walk_through_table [OF assms(1), of v 769 st' "kernel_table2_addr L" "kernel_page_table2 st'"
          "1536 + q div 4096"] assms(3,5) by simp
  qed
  moreover have "unat v mod 4096 = ofs mod 4096"
    using mod_mult_self4 [of 4096 786432 ofs] unfolding ofs(1) by simp
  ultimately show ?thesis using sub by (auto simp: word_unat_eq_iff algebra_simps)
qed

text \<open>
  (C23) The translation the kernel starts with. \<open>bootstrap\<close>'s page tables map the first 2 MiB to themselves
  and every address of the kernel image to its place in physical memory, and they leave every directory
  entry above the kernel as it was.
\<close>

theorem bootstrap_paging_translates:
  assumes "boot_link_ok L"
  shows "\<exists>st'. bootstrap_paging L st = Ok st'
    \<and> (\<forall>v. v < 0x200000 \<longrightarrow> boot_walk L st' v = Some v)
    \<and> (\<forall>v. kernel_start \<le> v \<and> unat v - 0xC0000000 + 0x200000 < unat (kernel_phys_end L)
         \<longrightarrow> boot_walk L st' v = Some (v - (kernel_start - kernel_phys_start)))
    \<and> (\<forall>i. 770 \<le> i \<longrightarrow> boot_directory st' i = boot_directory st i)"
proof -
  obtain st' where st': "bootstrap_paging L st = Ok st'"
    "boot_directory st' = (boot_directory st)(0 := low_table_addr L OR PAGE_FLAGS,
      768 := kernel_table1_addr L OR PAGE_FLAGS, 769 := kernel_table2_addr L OR PAGE_FLAGS)"
    "\<forall>j < 512. low_page_table st' j = of_nat (4096 * j) OR PAGE_FLAGS"
    "\<forall>j < 1024. kernel_page_table1 st' j = of_nat (4096 * (512 + j)) OR PAGE_FLAGS"
    "\<forall>j < (unat (kernel_phys_end L) - 6291456 + 4095) div 4096.
      kernel_page_table2 st' j = of_nat (4096 * (1536 + j)) OR PAGE_FLAGS"
    by (rule bootstrap_tables [OF assms])
  have "boot_walk L st' v = Some v" if "v < 0x200000" for v
    by (rule boot_walk_low [OF assms _ st'(3) that]) (simp add: st'(2))
  moreover have "boot_walk L st' v = Some (v - (kernel_start - kernel_phys_start))"
    if "kernel_start \<le> v" "unat v - 0xC0000000 + 0x200000 < unat (kernel_phys_end L)" for v
    by (rule boot_walk_kernel [OF assms _ _ st'(4,5) that]) (simp_all add: st'(2))
  ultimately show ?thesis using st'(1,2) by (intro exI [of _ st']) simp
qed

definition example_boot_link :: boot_link where
  "example_boot_link = \<lparr>low_table_addr = 0x102000, kernel_table1_addr = 0x103000,
     kernel_table2_addr = 0x104000, kernel_phys_end = 0x700000\<rparr>"

theorem bootstrap_paging_translates_witness:
  "\<exists>st'. bootstrap_paging example_boot_link \<lparr>boot_directory = (\<lambda>i. 0), low_page_table = (\<lambda>i. 0),
        kernel_page_table1 = (\<lambda>i. 0), kernel_page_table2 = (\<lambda>i. 0)\<rparr> = Ok st'
    \<and> (\<forall>v. v < 0x200000 \<longrightarrow> boot_walk example_boot_link st' v = Some v)
    \<and> (\<forall>v. kernel_start \<le> v \<and> unat v - 0xC0000000 + 0x200000 < unat (kernel_phys_end example_boot_link)
         \<longrightarrow> boot_walk example_boot_link st' v = Some (v - (kernel_start - kernel_phys_start)))
    \<and> (\<forall>i. 770 \<le> i \<longrightarrow> boot_directory st' i = boot_directory \<lparr>boot_directory = (\<lambda>i. 0),
        low_page_table = (\<lambda>i. 0), kernel_page_table1 = (\<lambda>i. 0), kernel_page_table2 = (\<lambda>i. 0)\<rparr> i)"
  by (rule bootstrap_paging_translates) (simp add: boot_link_ok_def example_boot_link_def)

section \<open>The multiboot information\<close>

text \<open>
  The entries of the memory map at \<open>addr\<close>, as the loops over it read them. An entry advances by its size and
  4, so \<open>mmap_length\<close> rounds are enough unless the sum wraps to zero.
\<close>

definition ld64 :: "memory \<Rightarrow> nat \<Rightarrow> u64" where
  "ld64 m a = ucast (ld32 m a) OR push_bit 32 (ucast (ld32 m (a + 4)))"

definition segment_at :: "memory \<Rightarrow> nat \<Rightarrow> MMap_Segment" where
  "segment_at m a =
     \<lparr>seg_size = ld32 m a, base_addr = ld64 m (a + 4), seg_length = ld64 m (a + 12), seg_type = ld32 m (a + 20)\<rparr>"

fun segments_at :: "nat \<Rightarrow> memory \<Rightarrow> u32 \<Rightarrow> u32 \<Rightarrow> u32 \<Rightarrow> MMap_Segment list" where
  "segments_at 0 m addr mmap_length bytes_traversed = []"
| "segments_at (Suc n) m addr mmap_length bytes_traversed =
     (if bytes_traversed < mmap_length then
        (let segment = segment_at m (unat addr) in
         segment # segments_at n m (addr + (seg_size segment + 4)) mmap_length (bytes_traversed + (seg_size segment + 4)))
      else [])"

definition boot_mmap_length :: "memory \<Rightarrow> u32 \<Rightarrow> u32" where "boot_mmap_length m info = ld32 m (unat info + 44)"
definition boot_mmap_addr :: "memory \<Rightarrow> u32 \<Rightarrow> u32" where "boot_mmap_addr m info = ld32 m (unat info + 48)"

definition memory_map :: "memory \<Rightarrow> u32 \<Rightarrow> MMap_Segment list" where
  "memory_map m info = segments_at (unat (boot_mmap_length m info)) m (boot_mmap_addr m info) (boot_mmap_length m info) 0"

text \<open>\<open>bootstrap\<close> copies the record of 116 bytes and the memory map behind it to the end of the boot section.\<close>

definition bootstrap_info :: "u32 \<Rightarrow> u32 \<Rightarrow> memory \<Rightarrow> memory" where
  "bootstrap_info boot_end boot_info m =
     (let m = boot_memory_copy m (unat boot_end) (unat boot_info) 116;
          new_mmap_addr = boot_end + 116;
          m = boot_memory_copy m (unat new_mmap_addr) (unat (boot_mmap_addr m boot_end)) (unat (boot_mmap_length m boot_end))
      in st32 m (unat boot_end + 48) new_mmap_addr)"

lemma loads_cong:
  "\<forall>j < 4. m' (a' + j) = m (a + j) \<Longrightarrow> ld32 m' a' = ld32 m a"
  "\<forall>j < 24. m' (a' + j) = m (a + j) \<Longrightarrow> segment_at m' a' = segment_at m a"
proof -
  show c: "ld32 m' a' = ld32 m a" if "\<forall>j < 4. m' (a' + j) = m (a + j)" for m' a' m a
    using that [rule_format, of 0] that [rule_format, of 1] that [rule_format, of 2] that [rule_format, of 3]
    by (simp add: ld32_def)
  assume *: "\<forall>j < 24. m' (a' + j) = m (a + j)"
  have "ld32 m' (a' + k) = ld32 m (a + k)" if "k \<le> 20" for k
    by (rule c) (use that * in \<open>auto simp: add.assoc\<close>)
  from this [of 0] this [of 4] this [of 8] this [of 12] this [of 16] this [of 20]
  show "segment_at m' a' = segment_at m a" by (simp add: segment_at_def ld64_def add.assoc add.commute [of 8] add.commute [of 16])
qed

lemma segments_copied:
  assumes "\<forall>i < unat len. m' (unat a' + i) = m (unat a + i)"
    and "unat a + unat len < 4294967296" and "unat a' + unat len < 4294967296"
    and "\<forall>s \<in> set (segments_at n m (a + t) len t). 20 \<le> seg_size s"
    and "unat t + map_bytes (segments_at n m (a + t) len t) = unat len"
  shows "segments_at n m' (a' + t) len t = segments_at n m (a + t) len t"
  using assms(4,5)
proof (induction n arbitrary: t)
  case 0
  then show ?case by simp
next
  case (Suc n)
  show ?case
  proof (cases "t < len")
    case False
    then show ?thesis by simp
  next
    case True
    let ?s = "segment_at m (unat (a + t))"
    let ?k = "seg_size ?s + 4"
    have rest: "segments_at (Suc n) m (a + t) len t = ?s # segments_at n m (a + (t + ?k)) len (t + ?k)"
      using True by (simp add: Let_def add.assoc)
    have sizes: "20 \<le> seg_size ?s" "\<forall>s \<in> set (segments_at n m (a + (t + ?k)) len (t + ?k)). 20 \<le> seg_size s"
      using Suc.prems(1) unfolding rest by simp_all
    then have k: "24 \<le> unat (seg_size ?s) + 4"
      by (simp add: word_le_nat_alt)
    have tot: "unat t + (unat (seg_size ?s) + 4) + map_bytes (segments_at n m (a + (t + ?k)) len (t + ?k)) = unat len"
      using Suc.prems(2) unfolding rest by (simp add: map_bytes_def)
    have u: "unat ?k = unat (seg_size ?s) + 4" "unat (t + ?k) = unat t + (unat (seg_size ?s) + 4)"
      "unat (a + t) = unat a + unat t" "unat (a' + t) = unat a' + unat t"
    proof -
      have l: "unat len < 4294967296" by simp
      show 1: "unat ?k = unat (seg_size ?s) + 4" 
      proof -
        have "unat (seg_size ?s) < 4294967292" using tot l by linarith
        then show ?thesis by (subst unat_add_no_wrap) simp_all
      qed
      show "unat (t + ?k) = unat t + (unat (seg_size ?s) + 4)"
        
      proof -
        have "unat t + unat ?k < 4294967296" using tot l 1 by linarith
        then show ?thesis by (subst unat_add_no_wrap) (simp_all add: 1)
      qed
      show "unat (a + t) = unat a + unat t" "unat (a' + t) = unat a' + unat t"
        using tot assms(2,3) by (simp_all add: unat_add_no_wrap)
    qed
    have seg: "segment_at m' (unat (a' + t)) = ?s"
    proof (rule loads_cong(2), intro allI impI)
      fix j :: nat
      assume "j < 24"
      then have "unat t + j < unat len" using tot k by linarith
      then show "m' (unat (a' + t) + j) = m (unat (a + t) + j)"
        using assms(1) by (simp add: u(3,4) add.assoc)
    qed
    have "segments_at n m' (a' + (t + ?k)) len (t + ?k) = segments_at n m (a + (t + ?k)) len (t + ?k)"
      by (rule Suc.IH [OF sizes(2)]) (use tot u(2) in simp)
    then show ?thesis using True seg by (simp add: Let_def add.assoc)
  qed
qed

text \<open>
  What the loader gives: a record and a map that do not lie across the place \<open>e\<close> they are copied to, and a map
  whose entries hold a segment each and fill its length.
\<close>

definition info_ok :: "u32 \<Rightarrow> u32 \<Rightarrow> memory \<Rightarrow> bool" where
  "info_ok e info m \<longleftrightarrow>
     (unat e \<le> unat info \<or> unat info + 116 \<le> unat e)
   \<and> (unat e + 116 \<le> unat (boot_mmap_addr m info)
      \<or> unat (boot_mmap_addr m info) + unat (boot_mmap_length m info) \<le> unat e)
   \<and> unat (boot_mmap_addr m info) + unat (boot_mmap_length m info) < 4294967296
   \<and> unat e + 116 + unat (boot_mmap_length m info) < 4294967296
   \<and> (\<forall>s \<in> set (memory_map m info). 20 \<le> seg_size s)
   \<and> map_bytes (memory_map m info) = unat (boot_mmap_length m info)"

lemma info_copied:
  assumes "info_ok e info m"
  shows "boot_mmap_length (bootstrap_info e info m) e = boot_mmap_length m info
    \<and> boot_mmap_addr (bootstrap_info e info m) e = e + 116
    \<and> memory_map (bootstrap_info e info m) e = memory_map m info
    \<and> (\<forall>x. x < unat e \<or> unat e + 116 + unat (boot_mmap_length m info) \<le> x \<longrightarrow> bootstrap_info e info m x = m x)"
proof -
  have a: "unat e \<le> unat info \<or> unat info + 116 \<le> unat e"
    "unat e + 116 \<le> unat (boot_mmap_addr m info)
      \<or> unat (boot_mmap_addr m info) + unat (boot_mmap_length m info) \<le> unat e"
    "unat (boot_mmap_addr m info) + unat (boot_mmap_length m info) < 4294967296"
    "unat e + 116 + unat (boot_mmap_length m info) < 4294967296"
    "\<forall>s \<in> set (memory_map m info). 20 \<le> seg_size s"
    "map_bytes (memory_map m info) = unat (boot_mmap_length m info)"
    using assms by (simp_all add: info_ok_def)
  let ?l = "boot_mmap_length m info" and ?a = "boot_mmap_addr m info"
  have copy: "boot_memory_copy = memory_copy" by (simp add: fun_eq_iff boot_memory_copy_def memory_copy_def)
  define m1 where "m1 = boot_memory_copy m (unat e) (unat info) 116"
  have m1: "m1 x = (if unat e \<le> x \<and> x < unat e + 116 then m (unat info + (x - unat e)) else m x)" for x
    unfolding m1_def copy by (rule memory_copy_apply) (use a(1) in auto)
  have la: "boot_mmap_length m1 e = ?l" "boot_mmap_addr m1 e = ?a"
    unfolding boot_mmap_length_def boot_mmap_addr_def by (rule loads_cong(1); simp add: m1 add.assoc)+
  have e: "unat (e + 116) = unat e + 116" using a(4) by (simp add: unat_add_no_wrap)
  define m2 where "m2 = boot_memory_copy m1 (unat (e + 116)) (unat ?a) (unat ?l)"
  have m2: "m2 x = (if unat e + 116 \<le> x \<and> x < unat e + 116 + unat ?l then m (unat ?a + (x - (unat e + 116))) else m1 x)" for x
  proof -
    have "m2 x = (if unat e + 116 \<le> x \<and> x < unat e + 116 + unat ?l then m1 (unat ?a + (x - (unat e + 116))) else m1 x)"
      unfolding m2_def copy e by (rule memory_copy_apply) (use a(2) in auto)
    then show ?thesis using a(2) by (auto simp: m1)
  qed
  let ?m = "bootstrap_info e info m"
  have m: "?m = st32 m2 (unat e + 48) (e + 116)"
    by (simp add: bootstrap_info_def Let_def la m2_def m1_def [symmetric])
  have out: "?m x = m2 x" if "x < unat e + 48 \<or> unat e + 52 \<le> x" for x
    unfolding m using that by (intro cell32.st_frame) auto
  have len: "boot_mmap_length ?m e = ?l"
    unfolding boot_mmap_length_def by (rule loads_cong(1)) (simp add: out m2 m1 add.assoc)
  have addr: "boot_mmap_addr ?m e = e + 116" by (simp add: boot_mmap_addr_def m cell32.ld_st)
  have bytes: "?m (unat (e + 116) + i) = m (unat ?a + i)" if "i < unat ?l" for i
    using that by (simp add: out e m2)
  have "segments_at (unat ?l) ?m (e + 116 + 0) ?l 0 = segments_at (unat ?l) m (?a + 0) ?l 0"
    by (rule segments_copied) (use bytes a(3-6) in \<open>simp_all add: e memory_map_def\<close>)
  then have "memory_map ?m e = memory_map m info" by (simp add: memory_map_def len addr)
  moreover have "?m x = m x" if "x < unat e \<or> unat e + 116 + unat ?l \<le> x" for x
  proof -
    have "?m x = m2 x" by (rule out) (use that in auto)
    then show ?thesis using that by (auto simp: m2 m1)
  qed
  ultimately show ?thesis using len addr by blast
qed

text \<open>The whole of \<open>bootstrap\<close>, up to the jump into the kernel.\<close>

record boot_state =
  boot_gdt :: gdt_state
  boot_memory :: memory
  boot_paging :: boot_tables

definition bootstrap :: "boot_link \<Rightarrow> u32 \<Rightarrow> u32 \<Rightarrow> u32 \<Rightarrow> boot_state \<Rightarrow> boot_state outcome" where
  "bootstrap L gdt_addr boot_end boot_info st =
     (let g = gdt_init gdt_addr (boot_gdt st);
          m = bootstrap_info boot_end boot_info (boot_memory st) in
      obind (bootstrap_paging L (boot_paging st)) (\<lambda>t.
      Ok \<lparr>boot_gdt = g, boot_memory = m, boot_paging = t\<rparr>))"

text \<open>
  \<open>bootstrap\<close> hands the kernel the memory map it was given. When neither the multiboot record nor the
  memory map lies across the place they are copied to, the copy describes the same segments, its map pointer
  leads to the copied map, and nothing outside the copy changes.
\<close>

theorem bootstrap_info_copies:
  assumes "info_ok e info m"
  shows "boot_mmap_length (bootstrap_info e info m) e = boot_mmap_length m info
    \<and> boot_mmap_addr (bootstrap_info e info m) e = e + 116
    \<and> memory_map (bootstrap_info e info m) e = memory_map m info
    \<and> (\<forall>x. x < unat e \<or> unat e + 116 + unat (boot_mmap_length m info) \<le> x \<longrightarrow> bootstrap_info e info m x = m x)"
  by (rule info_copied [OF assms])

definition example_info :: memory where
  "example_info = st32 (st32 (st32 (\<lambda>x. 0) 0x902C 24) 0x9030 0xA000) 0xA000 20"

lemma example_info_ok:
  "info_ok 0x101000 0x9000 example_info"
  "\<forall>s \<in> set (memory_map example_info 0x9000). segment_end s + 4096 \<le> 4294967296"
  "length (memory_map example_info 0x9000) = 1"
proof -
  have l: "boot_mmap_length example_info 0x9000 = 24" "boot_mmap_addr example_info 0x9000 = 0xA000"
    "ld32 example_info 0xA000 = 20"
    by (simp_all add: boot_mmap_length_def boot_mmap_addr_def example_info_def cell32.ld_st cell32.ld_st_disjoint)
  have z: "example_info x = 0" if "0xA004 \<le> x" for x
    using that by (simp add: example_info_def cell32.st_frame)
  have z32: "ld32 example_info x = 0" if "0xA004 \<le> x" for x
    using that by (simp add: ld32_def z)
  have "segments_at (Suc (Suc n)) example_info 0xA000 24 0 = [segment_at example_info 0xA000]" for n
    by (simp add: segment_at_def l)
  from this [of 22] have "memory_map example_info 0x9000 = [segment_at example_info 0xA000]"
    by (simp add: memory_map_def l)
  then show "info_ok 0x101000 0x9000 example_info"
    "\<forall>s \<in> set (memory_map example_info 0x9000). segment_end s + 4096 \<le> 4294967296"
    "length (memory_map example_info 0x9000) = 1"
    using z32 by (simp_all add: info_ok_def l segment_at_def map_bytes_def segment_end_def ld64_def)
qed

theorem bootstrap_info_copies_witness:
  "memory_map (bootstrap_info 0x101000 0x9000 example_info) 0x101000 = memory_map example_info 0x9000
    \<and> length (memory_map example_info 0x9000) = 1"
  using bootstrap_info_copies [OF example_info_ok(1)] example_info_ok(3) by blast

end
