(* ===== verification/Kernel.thy ===== *)
theory Kernel
  imports Boot Interrupts Tfs
begin

text \<open>
  How the kernel starts: \<open>kernel_init\<close> (\<open>src/src/kernel/kernel.c\<close>), from what \<open>bootstrap\<close> leaves, over the
  terminal, the serial line, the interrupt table, the page frame allocator, the heap and the IDE driver, to
  TagFS. The theory interprets the locale \<open>page_provider\<close> a second time, with the promise that a set of frames
  is never handed out, and so carries what \<open>pfa_init\<close> marks through every allocation.
\<close>

section \<open>Bringing up the memory components\<close>

text \<open>What the loader and \<open>bootstrap\<close> leave: zeroed arrays and globals, the boot page directory.\<close>

definition memory_at_boot :: "boot_tables \<Rightarrow> memory \<Rightarrow> pfa_state heap_state" where
  "memory_at_boot bt m =
     \<lparr>hmem = m, free_segments_head = 0, next_page_virt_addr = 0,
      provider = \<lparr>page_directory = boot_directory bt, pfa_page_tables = (\<lambda>i j. 0), pfa_page_bitmap = (\<lambda>i. 0)\<rparr>\<rparr>"

definition kernel_init_memory ::
  "u32 \<Rightarrow> MMap_Segment list \<Rightarrow> pfa_state heap_state \<Rightarrow> pfa_state heap_state outcome" where
  "kernel_init_memory mmap_length segs st =
     obind (pfa_init mmap_length segs (provider st)) (\<lambda>(initted, p).
     obind (ASSERT initted ''Page frame allocation initialization failed.'') (\<lambda>_.
     let (initted, st) = memory_init (st\<lparr>provider := p\<rparr>) in
     obind (ASSERT initted ''Memory initialization failed.'') (\<lambda>_. Ok st)))"

definition zero_tables :: boot_tables where
  "zero_tables = \<lparr>boot_directory = (\<lambda>i. 0), low_page_table = (\<lambda>i. 0),
     kernel_page_table1 = (\<lambda>i. 0), kernel_page_table2 = (\<lambda>i. 0)\<rparr>"

section \<open>Frames that are never handed out\<close>

definition avoids :: "link_map \<Rightarrow> nat set \<Rightarrow> pfa_state \<Rightarrow> bool" where
  "avoids L R p \<longleftrightarrow> (\<forall>k \<in> R. frame_used (pfa_page_bitmap p) k)
     \<and> (\<forall>v q k. 0xC0800000 \<le> v \<and> mmu_walk L p v = Some q \<and> k \<in> R \<and> k < PFA_FRAMES
          \<longrightarrow> q AND NOT 0xfff \<noteq> frame_addr k)"

lemma avoids_commit:
  assumes "pfa_ok L p" and "avoids L R p" and "pfa_commit_page L v p = Ok (b, p')"
  shows "avoids L R p'"
proof -
  have L: "link_ok L" and inv: "pfa_inv L p" using assms(1) pfa_reachable_inv by (auto simp: pfa_ok_def)
  from L assms(3) show ?thesis
  proof (cases rule: commit_cases)
    case (mapped l)
    have l: "l \<notin> R" "l < PFA_FRAMES" using mapped(4) assms(2) by (auto simp: least_free_def avoids_def)
    have "q AND NOT 0xfff \<noteq> frame_addr k"
      if "0xC0800000 \<le> w" "mmu_walk L p' w = Some q" "k \<in> R" "k < PFA_FRAMES" for w q k
      using that assms(2) l frame_addr_inj [of l k] page_of_physical [of l w]
      unfolding mapped(5) walk_committed [OF L inv mapped(3) that(1) mapped(4)] avoids_def
      by (auto split: if_splits)
    moreover have "\<forall>k \<in> R. frame_used (pfa_page_bitmap p') k"
      using assms(2) by (auto simp: avoids_def mapped(5) frame_used_mark_k)
    ultimately show ?thesis unfolding avoids_def by blast
  qed (use assms(2) in simp)
qed

interpretation reserving: page_provider "pfa_commit_page L" "\<lambda>p. pfa_ok L p \<and> avoids L R p" "pfa_backed L" for L R
proof (unfold_locales, goal_cases)
  case 1
  then show ?case using pfa.commit_returns [of L] by simp
next
  case 2
  then show ?case using pfa.commit_keeps [of L] avoids_commit [of L] by metis
next
  case 3
  then show ?case using pfa.commit_backs [of L] by simp
next
  case 4
  then show ?case using pfa.commit_refuses [of L] by simp
qed

lemma avoids_start:
  assumes "\<And>i. i < 254 \<Longrightarrow> page_directory p (770 + i) = 0" and "\<forall>k \<in> R. frame_used (pfa_page_bitmap p) k"
  shows "avoids L R p"
proof -
  have "mmu_walk L p v = None" if "0xC0800000 \<le> v" for v
  proof -
    have "page_directory p (unat (drop_bit 22 v)) = 0"
      using directory_index [OF that] tables_index(2) [OF that] assms(1)
      by (simp add: mapped_virt_to_page_directory_entry_def)
    then show ?thesis by (simp add: mmu_walk_def Let_def)
  qed
  then show ?thesis using assms(2) by (auto simp: avoids_def)
qed

lemma mapped_frame:
  assumes "pfa_ok L p" and "avoids L R p" and "0xC0800000 \<le> v" and "pfa_backed L p (unat v)"
  shows "\<exists>q k. mmu_walk L p v = Some q \<and> k < PFA_FRAMES \<and> k \<notin> R
    \<and> q = frame_addr k OR (v AND 0xfff) \<and> frame_used (pfa_page_bitmap p) k"
proof -
  have L: "link_ok L" and inv: "pfa_inv L p" using assms(1) pfa_reachable_inv by (auto simp: pfa_ok_def)
  obtain q where q: "mmu_walk L p v = Some q" using assms(4) by (auto simp: pfa_backed_def)
  then obtain k where k: "k < PFA_FRAMES" "q = frame_addr k OR (v AND 0xfff)" "frame_used (pfa_page_bitmap p) k"
    unfolding walk_frame [OF L inv assms(3)] by blast
  then have "k \<notin> R" using assms(2,3) q page_of_physical [of k v] unfolding avoids_def by blast
  with q k show ?thesis by blast
qed

section \<open>From the loader to the first allocation\<close>

lemma kernel_memory_starts:
  assumes "link_ok L" and "boot_link_ok B"
    and "\<forall>s \<in> set segs. segment_end s + 4096 \<le> 4294967296" and "map_bytes segs = unat mmap_length"
  obtains bt st where "bootstrap_paging B zero_tables = Ok bt"
    and "kernel_init_memory mmap_length segs (memory_at_boot bt m) = Ok st"
    and "heap_ok st []" and "next_page_virt_addr st = 0xC0800000"
    and "pfa_ok L (provider st)" and "avoids L {k. reserved_by 0 segs k} (provider st)" and "hmem st = m"
proof -
  obtain bt where bt: "bootstrap_paging B zero_tables = Ok bt"
    "boot_directory bt = (boot_directory zero_tables)(0 := low_table_addr B OR PAGE_FLAGS,
      768 := kernel_table1_addr B OR PAGE_FLAGS, 769 := kernel_table2_addr B OR PAGE_FLAGS)"
    by (rule bootstrap_tables [OF assms(2), of zero_tables])
  let ?p = "provider (memory_at_boot bt m)"
  obtain bm where bm: "pfa_init_loop mmap_length segs 0 0 (pfa_page_bitmap ?p) = Ok bm"
    "\<forall>k. frame_used bm k \<longleftrightarrow> frame_used (pfa_page_bitmap ?p) k \<or> reserved_by 0 segs k"
    using pfa_init_loop_spec [OF assms(3), of 0 mmap_length 0 "pfa_page_bitmap ?p"] assms(4) by auto
  let ?q = "?p\<lparr>pfa_page_bitmap := bm\<rparr>"
  have z: "page_directory ?q (770 + i) = 0" for i
    by (simp add: memory_at_boot_def bt(2) zero_tables_def)
  have "pfa_reachable L ?q"
    by (rule reach_start) (use z in \<open>simp_all add: memory_at_boot_def\<close>)
  then have "pfa_ok L ?q" using assms(1) by (simp add: pfa_ok_def)
  moreover have "avoids L {k. reserved_by 0 segs k} ?q"
    by (rule avoids_start) (use z bm(2) in auto)
  ultimately show ?thesis
    using bt(1) bm(1)
    by (intro that [of bt "(memory_at_boot bt m)\<lparr>provider := ?q, next_page_virt_addr := 0xC0800000\<rparr>"])
       (simp_all add: kernel_init_memory_def pfa_init_def memory_init_def heap_ok_def memory_at_boot_def
          kernel_start_def MAX_KERNEL_SIZE_def)
qed

text \<open>
  From power-on to the first allocation. With the page directory that \<open>bootstrap\<close> leaves and a memory
  map whose segments end a page below 4 GiB, \<open>kernel_init\<close> brings up the page frame allocator and the heap
  without a failed assertion, and an allocation then returns a sound result: every address of the new heap
  translates into a physical frame that is marked used and that no gap and no reserved segment of the memory
  map touches.
\<close>

theorem first_allocation_avoids_reserved:
  assumes "link_ok L" and "boot_link_ok B"
    and "\<forall>s \<in> set segs. segment_end s + 4096 \<le> 4294967296" and "map_bytes segs = unat mmap_length"
    and "size_ok sz" and "0xC0800000 + unat (block_size sz) + 8192 < 4294967296"
    and "unat (block_size sz) div 4096 + 3 < fuel"
  shows "\<exists>bt st r st' ys. bootstrap_paging B zero_tables = Ok bt
    \<and> kernel_init_memory mmap_length segs (memory_at_boot bt m) = Ok st
    \<and> memory_allocate (pfa_commit_page L) fuel sz st = Ok (r, st') \<and> alloc_post sz [] st r st' ys
    \<and> (\<forall>v. 0xC0800000 \<le> v \<and> v < next_page_virt_addr st' \<longrightarrow>
         (\<exists>q k. mmu_walk L (provider st') v = Some q \<and> q = frame_addr k OR (v AND 0xfff)
            \<and> k < PFA_FRAMES \<and> frame_used (pfa_page_bitmap (provider st')) k \<and> \<not> reserved_by 0 segs k))"
proof -
  let ?R = "{k. reserved_by 0 segs k}"
  obtain bt st where st: "bootstrap_paging B zero_tables = Ok bt"
    "kernel_init_memory mmap_length segs (memory_at_boot bt m) = Ok st"
    "heap_ok st []" "next_page_virt_addr st = 0xC0800000"
    "pfa_ok L (provider st)" "avoids L ?R (provider st)"
    by (rule kernel_memory_starts [OF assms(1-4), of m])
  let ?ok = "\<lambda>p. pfa_ok L p \<and> avoids L ?R p"
  have b: "backed_below ?ok (pfa_backed L) (provider st) (unat (next_page_virt_addr st))"
    using st(4-6) by (auto simp: backed_below_def)
  obtain r st' ys where a: "memory_allocate (pfa_commit_page L) fuel sz st = Ok (r, st')"
    "alloc_post sz [] st r st' ys" "backed_below ?ok (pfa_backed L) (provider st') (unat (next_page_virt_addr st'))"
    using reserving.alloc_sound [OF st(3) assms(5) _ b, of fuel] st(4) assms(6,7)
    by (auto simp: tail_adjacent_def)
  have frames: "\<exists>q k. mmu_walk L (provider st') v = Some q \<and> q = frame_addr k OR (v AND 0xfff)
      \<and> k < PFA_FRAMES \<and> frame_used (pfa_page_bitmap (provider st')) k \<and> \<not> reserved_by 0 segs k"
    if v: "0xC0800000 \<le> v" "v < next_page_virt_addr st'" for v
  proof -
    have ok: "?ok (provider st')" and bk: "pfa_backed L (provider st') (unat v)"
      using a(3) v by (simp_all add: backed_below_def word_le_nat_alt word_less_nat_alt)
    then show ?thesis using mapped_frame [of L "provider st'" ?R v] v(1) by blast
  qed
  show ?thesis
    by (rule exI [of _ bt], rule exI [of _ st], rule exI [of _ r], rule exI [of _ st'], rule exI [of _ ys])
       (intro conjI st(1,2) a(1,2) allI impI frames; simp)
qed

theorem first_allocation_avoids_reserved_witness:
  "\<exists>bt st r st' ys. bootstrap_paging example_boot_link zero_tables = Ok bt
    \<and> kernel_init_memory 48 example_map (memory_at_boot bt (\<lambda>x. 0)) = Ok st
    \<and> memory_allocate (pfa_commit_page example_link) 4 100 st = Ok (r, st') \<and> alloc_post 100 [] st r st' ys
    \<and> (\<forall>v. 0xC0800000 \<le> v \<and> v < next_page_virt_addr st' \<longrightarrow>
         (\<exists>q k. mmu_walk example_link (provider st') v = Some q \<and> q = frame_addr k OR (v AND 0xfff)
            \<and> k < PFA_FRAMES \<and> frame_used (pfa_page_bitmap (provider st')) k \<and> \<not> reserved_by 0 example_map k))"
  by (rule first_allocation_avoids_reserved [OF example_link_ok])
     (simp_all add: boot_link_ok_def example_boot_link_def example_map_def segment_end_def map_bytes_def
        size_ok_def block_size_100)

section \<open>The whole of \<open>kernel_init\<close>\<close>

record kernel_state =
  k_interrupts :: interrupts
  k_ide_channels :: channels
  k_ide_drives :: "nat \<Rightarrow> nat \<Rightarrow> IDE_Drive_Info"
  k_tfs :: "(pfa_state, hw) tfs_state"

text \<open>The addresses that the linker gives to the interrupt stubs and the descriptor table.\<close>

record interrupt_link =
  exc_stubs :: "nat \<Rightarrow> u32"
  int_stubs :: "nat \<Rightarrow> u32"
  idt_addr :: u32

definition kernel_init ::
  "device \<Rightarrow> link_map \<Rightarrow> interrupt_link \<Rightarrow> nat \<Rightarrow> u32 \<Rightarrow> kernel_state \<Rightarrow> kernel_state outcome" where
  "kernel_init dev L I fuel boot_info st =
     (let t = k_tfs st; s = tfs_disk t; m = tfs_mem t;
          s = s\<lparr>hw_term := terminal_init (hw_term s)\<rparr>;
          (initted, s) = serial_init dev s in
      obind (ASSERT initted ''Serial initialization failed.'') (\<lambda>_.
      obind (serial_write dev fuel 0x0A s) (\<lambda>s.
      let (i, s) = interrupts_init (exc_stubs I) (int_stubs I) (idt_addr I) (k_interrupts st) s in
      obind (kernel_init_memory (boot_mmap_length m boot_info) (memory_map m boot_info) (tfs_heap t)) (\<lambda>heap.
      obind (pci_init dev fuel m
              \<lparr>ide_hw = s, ide_channels = k_ide_channels st, ide_drives = k_ide_drives st\<rparr>) (\<lambda>(initted, ide).
      obind (ASSERT initted ''PCI initialization failed.'') (\<lambda>_.
      obind (tfs_init (pfa_commit_page L) (ata_read_sector dev (ide_channels ide) fuel IDE_BUS_PRIM 0) fuel
              (t\<lparr>tfs_heap := heap, tfs_disk := ide_hw ide\<rparr>)) (\<lambda>(initted, t).
      obind (ASSERT initted ''TagFS initialization failed.'') (\<lambda>_.
      Ok \<lparr>k_interrupts = i, k_ide_channels = ide_channels ide, k_ide_drives = ide_drives ide, k_tfs = t\<rparr>))))))))"

text \<open>
  The machine it runs on: a serial line that answers the loop-back test and is ready, and a legacy IDE
  controller at 0:1.1 with two drives on the primary channel and none on the secondary one.
\<close>

definition serial_answers :: "device \<Rightarrow> bool" where
  "serial_answers dev \<longleftrightarrow> line_ready dev \<and> (\<forall>h. (ucast (dev (Out8 0x3F8 0xAE # h) 0x3F8) :: u8) = 0xAE)"

definition legacy_controller :: "device \<Rightarrow> bool" where
  "legacy_controller dev \<longleftrightarrow>
     (\<forall>h. dev (Out32 0xCF8 0x80000908 # h) 0xCFC AND 0xFFFF0F00 = 0x01010000
        \<and> dev (Out32 0xCF8 0x8000090C # h) 0xCFC AND 0xFF000000 = 0)"

definition machine_ok :: "device \<Rightarrow> nat \<Rightarrow> nat \<Rightarrow> drive \<Rightarrow> bool" where
  "machine_ok dev delay flush d0 \<longleftrightarrow> serial_answers dev \<and> legacy_controller dev
     \<and> ata_channel dev legacy_channels 0 delay flush d0 \<and> answers_identify dev legacy_channels 0
     \<and> floating dev 0x177 \<and> (\<forall>u. best_udma_active (identity d0 u)) \<and> flush \<le> 4"

text \<open>The bytes of sector 0 as a record.\<close>

definition volume_metadata :: "(nat \<Rightarrow> u8) \<Rightarrow> TagFS_FS_Metadata" where
  "volume_metadata D = fs_metadata_at D 0"

lemma fs_metadata_cong:
  assumes "\<forall>j < 36. m (a + j) = D j"
  shows "fs_metadata_at m a = volume_metadata D"
proof -
  have "ld32 m (a + k) = ld32 D k" if "k \<le> 32" for k
    using loads_cong(1) [of m "a + k" D k] that assms by (simp add: add.assoc)
  moreover have "ld16 m (a + k) = ld16 D k" if "k \<le> 34" for k
    using that assms [rule_format, of k] assms [rule_format, of "k + 1"] by (simp add: ld16_def add.assoc)
  ultimately show ?thesis
    using loads_cong(1) [of m a D 0] assms by (simp add: fs_metadata_at_def volume_metadata_def)
qed

lemma legacy_steps [simp]:
  "drive_at C bus delay flush d0 (out_32 p v s) = drive_at C bus delay flush d0 s"
  "drive_at C bus delay flush d0 (snd (in_32 dev p s)) = drive_at C bus delay flush d0 s"
  "drive_at C bus delay flush d0 (s\<lparr>hw_term := t\<rparr>) = drive_at C bus delay flush d0 s"
  by (simp_all add: drive_at_def drive_after_def out_32_def in_32_def Let_def)

abbreviation (input) drives_seen :: "nat \<Rightarrow> nat \<Rightarrow> drive \<Rightarrow> hw \<Rightarrow> drive" where
  "drives_seen delay flush d0 \<equiv> drive_at legacy_channels 0 delay flush d0"

lemma other_ports:
  "p \<notin> {0x1F3, 0x1F4, 0x1F5, 0x1F6, 0x1F7} \<Longrightarrow>
     drives_seen delay flush d0 (out_8 p v s) = drives_seen delay flush d0 s"
  "p \<noteq> 0x1F7 \<Longrightarrow> drives_seen delay flush d0 (snd (in_8 dev p s)) = drives_seen delay flush d0 s"
  by (simp_all add: legacy_channels_def)

lemma serial_starts:
  assumes "serial_answers dev"
  obtains s' where "serial_init dev s = (True, s')" and "drives_seen delay flush d0 s' = drives_seen delay flush d0 s"
proof
  have "(ucast (dev (Out8 0x3F8 0xAE # h) 0x3F8) :: u8) = 0xAE" for h
    using assms by (simp add: serial_answers_def)
  then show "serial_init dev s = (True, snd (serial_init dev s))"
    by (simp add: serial_init_def Let_def case_prod_unfold in_8_def out_8_def)
  show "drives_seen delay flush d0 (snd (serial_init dev s)) = drives_seen delay flush d0 s"
    by (simp add: serial_init_def Let_def case_prod_unfold other_ports del: drive_at_access)
qed

lemma serial_writes:
  assumes "line_ready dev" and "0 < fuel"
  obtains s' where "serial_write dev fuel c s = Ok s'" and "drives_seen delay flush d0 s' = drives_seen delay flush d0 s"
proof -
  obtain n where n: "fuel = Suc n" using assms(2) by (cases fuel) auto
  have r: "(ucast (dev h 0x3FD) :: u8) AND 0x20 \<noteq> 0" for h using assms(1) by (simp add: line_ready_def)
  show ?thesis
  proof (rule that)
    show "serial_write dev fuel c s = Ok (out_8 0x3F8 c (snd (in_8 dev 0x3FD s)))"
      by (simp add: serial_write_def serial_is_transmit_empty_def n in_8_def r Let_def)
    show "drives_seen delay flush d0 (out_8 0x3F8 c (snd (in_8 dev 0x3FD s))) = drives_seen delay flush d0 s"
      by (simp add: other_ports del: drive_at_access)
  qed
qed

lemma pic_keeps_drives:
  "drives_seen delay flush d0 (snd (interrupts_init e i a t s)) = drives_seen delay flush d0 s"
  by (simp add: interrupts_init_def pic_init_def Let_def other_ports del: drive_at_access)

lemma masked_field:
  fixes w :: u32
  assumes "w AND k = c" and "drop_bit n k AND f = f"
  shows "drop_bit n w AND f = drop_bit n c AND f"
proof -
  have "drop_bit n c AND f = drop_bit n w AND (drop_bit n k AND f)"
    unfolding assms(1) [symmetric] by (simp add: drop_bit_and and.assoc)
  then show ?thesis by (simp add: assms(2))
qed

lemma legacy_fields:
  assumes "w AND 0xFFFF0F00 = (0x01010000 :: u32)"
  shows "ucast (drop_bit 24 w AND 0xFF) = (1 :: u8)" and "ucast (drop_bit 16 w AND 0xFF) = (1 :: u8)"
    and "pci_native_fields w = (ucast (drop_bit 8 w AND 0xFF), w, False)"
    and "ucast (drop_bit 8 w AND 0xFF) AND (1 :: u8) = 0" and "ucast (drop_bit 8 w AND 0xFF) AND (4 :: u8) = 0"
proof -
  show "ucast (drop_bit 24 w AND 0xFF) = (1 :: u8)" "ucast (drop_bit 16 w AND 0xFF) = (1 :: u8)"
    using masked_field [OF assms, of 24 "0xFF"] masked_field [OF assms, of 16 "0xFF"] by simp_all
  have z: "ucast (drop_bit 8 w AND 0xFF) AND (k :: u8) = 0" if "k \<in> {1, 2, 4, 8}" for k
  proof -
    have k: "drop_bit 8 w AND ucast k = 0"
      using masked_field [OF assms, of 8 "ucast k"] that by auto
    have "ucast (drop_bit 8 w AND 0xFF) AND k = ucast (drop_bit 8 w AND 0xFF AND ucast k)"
      by (rule bit_word_eqI) (auto simp: bit_simps)
    also have "drop_bit 8 w AND 0xFF AND ucast k = (drop_bit 8 w AND ucast k) AND 0xFF"
      by (simp add: ac_simps)
    finally show ?thesis by (simp add: k)
  qed
  show "pci_native_fields w = (ucast (drop_bit 8 w AND 0xFF), w, False)"
    using z [of 2] z [of 8] by (simp add: pci_native_fields_def Let_def)
  show "ucast (drop_bit 8 w AND 0xFF) AND (1 :: u8) = 0" "ucast (drop_bit 8 w AND 0xFF) AND (4 :: u8) = 0"
    using z [of 1] z [of 4] by simp_all
qed

lemma pci_legacy:
  assumes "legacy_controller dev"
  obtains b0 b1 b2 b3 b4 s' where "pci_init dev fuel m st =
      ide_init dev fuel m False False b0 b1 b2 b3 b4 (st\<lparr>ide_hw := s'\<rparr>)"
    and "drives_seen delay flush d0 s' = drives_seen delay flush d0 (ide_hw st)"
proof -
  have reg: "map (pci_get_register_address 0 1 1) [8, 12, 16, 20, 24, 28, 32] =
      map Ok [0x80000908, 0x8000090C, 0x80000910, 0x80000914, 0x80000918, 0x8000091C, 0x80000920]"
    by (simp add: pci_get_register_address_def)
  let ?r = "\<lambda>a s. in_32 dev 0xCFC (out_32 0xCF8 a s)"
  define s1 where "s1 = snd (?r 0x80000908 (ide_hw st))"
  define w where "w = fst (?r 0x80000908 (ide_hw st))"
  have w: "w AND 0xFFFF0F00 = 0x01010000" and w2: "fst (?r 0x8000090C s1) AND 0xFF000000 = 0"
    using assms by (simp_all add: legacy_controller_def w_def in_32_def out_32_def Let_def)
  have h: "ucast (drop_bit 24 (fst (?r 0x8000090C s1)) AND 0xFF) = (0 :: u8)"
    using masked_field [OF w2, of 24 "0xFF"] by simp
  define s2 where "s2 = snd (?r 0x8000090C s1)"
  define s3 where "s3 = snd (?r 0x80000910 s2)"
  define s4 where "s4 = snd (?r 0x80000914 s3)"
  define s5 where "s5 = snd (?r 0x80000918 s4)"
  define s6 where "s6 = snd (?r 0x8000091C s5)"
  define s7 where "s7 = snd (?r 0x80000920 s6)"
  show ?thesis
  proof (rule that)
    show "pci_init dev fuel m st = ide_init dev fuel m False False (ucast (fst (?r 0x80000910 s2)))
      (ucast (fst (?r 0x80000914 s3))) (ucast (fst (?r 0x80000918 s4))) (ucast (fst (?r 0x8000091C s5)))
      (ucast (fst (?r 0x80000920 s6))) (st\<lparr>ide_hw := s7\<rparr>)"
      using reg legacy_fields [OF w] h
      by (simp add: pci_init_def pci_read_register_def Let_def case_prod_unfold w_def [symmetric]
          s1_def [symmetric] s2_def [symmetric] s3_def [symmetric] s4_def [symmetric] s5_def [symmetric]
          s6_def [symmetric] s7_def [symmetric])
    show "drives_seen delay flush d0 s7 = drives_seen delay flush d0 (ide_hw st)"
      by (simp add: s7_def s6_def s5_def s4_def s3_def s2_def s1_def)
  qed
qed

lemma heap_ok_overwrite:
  assumes "heap_ok st ys" and "\<And>x. x \<in> free_bytes ys \<Longrightarrow> m x = hmem st x"
  shows "heap_ok (st\<lparr>hmem := m\<rparr>) ys"
  using assms lseg_unaffected [of "0xC0800000" ys "unat (next_page_virt_addr st)" m "hmem st" "free_segments_head st" 0]
  by (simp add: heap_ok_def)

lemma tfs_init_reads:
  assumes "memory_allocate commit fuel 512 (tfs_heap t) = Ok (r, heap)"
    and "ata_ready dev C fuel IDE_BUS_PRIM 0 delay flush d0 (tfs_disk t)"
  obtains m h where "tfs_init commit (ata_read_sector dev C fuel IDE_BUS_PRIM 0) fuel t =
      Ok (True, t\<lparr>tfs_heap := heap\<lparr>hmem := m\<rparr>, tfs_disk := h, tfs_sector_buffer := r,
        tfs_fs_meta := volume_metadata (tfs_sectors C delay flush d0 t 0)\<rparr>)"
    and "\<forall>x. m x = (if unat r \<le> x \<and> x < unat r + 512
           then tfs_sectors C delay flush d0 t 0 (x - unat r) else hmem heap x)"
    and "ata_ready dev C fuel IDE_BUS_PRIM 0 delay flush d0 h"
    and "sector_of C IDE_BUS_PRIM delay flush d0 0 h = tfs_sectors C delay flush d0 t"
proof -
  let ?t = "t\<lparr>tfs_heap := heap, tfs_sector_buffer := r\<rparr>"
  obtain m h where l: "load_sector (ata_read_sector dev C fuel IDE_BUS_PRIM 0) 0 r ?t
        = Ok ((set_mem m ?t)\<lparr>tfs_disk := h\<rparr>)"
    "ata_ready dev C fuel IDE_BUS_PRIM 0 delay flush d0 h"
    "sector_of C IDE_BUS_PRIM delay flush d0 0 h = tfs_sectors C delay flush d0 ?t"
    "\<forall>x. m x = (if unat r \<le> x \<and> x < unat r + 512
       then tfs_sectors C delay flush d0 ?t 0 (x - unat r) else tfs_mem ?t x)"
    by (rule ata.load_sector_ok [of dev C fuel IDE_BUS_PRIM 0 delay flush d0 ?t 0 r]) (use assms(2) in simp_all)
  have "fs_metadata_at m (unat r) = volume_metadata (tfs_sectors C delay flush d0 t 0)"
    by (rule fs_metadata_cong) (simp add: l(4))
  then show ?thesis
    using l assms(1) by (intro that [of h m]) (simp_all add: tfs_init_def allocate_def Let_def set_mem_def)
qed

text \<open>Power on: nothing has happened on the ports, the globals are zero, the boot page directory is in place.\<close>

definition kernel_at_boot :: "boot_tables \<Rightarrow> memory \<Rightarrow> interrupts \<Rightarrow> terminal \<Rightarrow> kernel_state" where
  "kernel_at_boot bt m i t =
     \<lparr>k_interrupts = i, k_ide_channels = ide_channels ide_at_boot, k_ide_drives = ide_drives ide_at_boot,
      k_tfs = \<lparr>tfs_heap = memory_at_boot bt m, tfs_disk = \<lparr>hw_term = t, hw_ports = []\<rparr>,
        tfs_fs_meta = volume_metadata (\<lambda>i. 0), tfs_sector_buffer = 0\<rparr>\<rparr>"

lemma devices_start:
  assumes "machine_ok dev delay flush d0" and "busy_polls d0 = 0" and "transfer d0 = Idle" and "delay + 1 < fuel"
  obtains s1 s2 i' s3 ide where
    "serial_init dev \<lparr>hw_term = t, hw_ports = []\<rparr> = (True, s1)" and "serial_write dev fuel 0x0A s1 = Ok s2"
    and "interrupts_init e j a i s2 = (i', s3)"
    and "pci_init dev fuel m \<lparr>ide_hw = s3, ide_channels = ide_channels ide_at_boot, ide_drives = ide_drives ide_at_boot\<rparr>
       = Ok (True, ide)"
    and "\<forall>k < 2. ide_drives ide 0 k = drive_record (identity d0 (k = 1)) (ide_drives ide_at_boot 0 k)"
    and "io_base (ide_channels ide 0) = io_base (legacy_channels 0)"
    and "busy_polls (drives_seen delay flush d0 (ide_hw ide)) = 0"
    and "sectors (drives_seen delay flush d0 (ide_hw ide)) = sectors d0"
proof -
  note M = assms(1) [unfolded machine_ok_def]
  let ?s0 = "\<lparr>hw_term = t, hw_ports = []\<rparr>" and ?d = "drives_seen delay flush d0"
  have d0: "?d ?s0 = d0" by (simp add: drive_at_def drive_after_def)
  obtain s1 where s1: "serial_init dev ?s0 = (True, s1)" "?d s1 = d0"
    using serial_starts [where dev = dev and s = ?s0 and delay = delay and flush = flush and ?d0.0 = d0] M d0 by auto
  obtain s2 where s2: "serial_write dev fuel 0x0A s1 = Ok s2" "?d s2 = d0"
    using serial_writes [where dev = dev and fuel = fuel and c = "0x0A" and s = s1 and delay = delay and flush = flush and ?d0.0 = d0] M assms(4) s1(2) by (auto simp: serial_answers_def)
  define s3 where "s3 = snd (interrupts_init e j a i s2)"
  have s3: "?d s3 = d0" using s2(2) by (simp add: s3_def pic_keeps_drives)
  let ?st = "\<lparr>ide_hw = s3, ide_channels = ide_channels ide_at_boot, ide_drives = ide_drives ide_at_boot\<rparr>"
  obtain b0 b1 b2 b3 b4 s4 where p: "pci_init dev fuel m ?st = ide_init dev fuel m False False b0 b1 b2 b3 b4 (?st\<lparr>ide_hw := s4\<rparr>)"
    "?d s4 = ?d (ide_hw ?st)"
    using pci_legacy [where dev = dev and fuel = fuel and m = m and st = ?st and delay = delay and flush = flush and ?d0.0 = d0] M by blast
  have nm: "\<forall>k < 2. \<not> missing (ide_drives (?st\<lparr>ide_hw := s4\<rparr>) 0 k)" by (simp add: ide_at_boot_def)
  have d4: "?d (ide_hw (?st\<lparr>ide_hw := s4\<rparr>)) = d0" using p(2) s3 by simp
  obtain ide where ide: "ide_init dev fuel m False False b0 b1 b2 b3 b4 (?st\<lparr>ide_hw := s4\<rparr>) = Ok (True, ide)"
    "ide_channels ide = set_channels False False b0 b1 b2 b3 (ide_channels ide_at_boot)"
    "\<forall>k < 2. ide_drives ide 0 k = drive_record (identity d0 (k = 1)) (ide_drives ide_at_boot 0 k)"
    "busy_polls (?d (ide_hw ide)) = 0" "sectors (?d (ide_hw ide)) = sectors d0"
    using ide_init_finds [OF _ _ _ d4 assms(2,3,4) _ nm, of dev m b0 b1 b2 b3 b4] M by auto
  show ?thesis
  proof (rule that)
    show "interrupts_init e j a i s2 = (fst (interrupts_init e j a i s2), s3)" by (simp add: s3_def)
    show "io_base (ide_channels ide 0) = io_base (legacy_channels 0)"
      by (simp add: ide(2) set_channels_def legacy_channels_def)
  qed (use s1 s2 p(1) ide in simp_all)
qed

lemma heap_avoids:
  assumes "backed_below (\<lambda>p. pfa_ok L p \<and> avoids L R p) (pfa_backed L) p (unat n)"
    and "0xC0800000 \<le> v" and "v < n"
  shows "\<exists>q k. mmu_walk L p v = Some q \<and> q = frame_addr k OR (v AND 0xfff)
    \<and> k < PFA_FRAMES \<and> frame_used (pfa_page_bitmap p) k \<and> k \<notin> R"
proof -
  have "pfa_ok L p \<and> avoids L R p" "pfa_backed L p (unat v)"
    using assms by (simp_all add: backed_below_def word_le_nat_alt word_less_nat_alt)
  then show ?thesis using mapped_frame [of L p R v] assms(2) by blast
qed

lemma tagfs_starts:
  assumes "heap_ok (tfs_heap t) []" and "next_page_virt_addr (tfs_heap t) = 0xC0800000"
    and "pfa_ok L (provider (tfs_heap t))" and "avoids L R (provider (tfs_heap t))" and "3 < fuel"
    and "ata_ready dev C fuel IDE_BUS_PRIM 0 delay flush d0 (tfs_disk t)"
  obtains t' where "tfs_init (pfa_commit_page L) (ata_read_sector dev C fuel IDE_BUS_PRIM 0) fuel t = Ok (True, t')"
    and "tfs_fs_meta t' = volume_metadata (tfs_sectors C delay flush d0 t 0)"
    and "ata_ready dev C fuel IDE_BUS_PRIM 0 delay flush d0 (tfs_disk t')"
    and "tfs_sectors C delay flush d0 t' = tfs_sectors C delay flush d0 t"
    and "\<forall>x. 512 \<le> x \<and> x < 0xC0800000 \<longrightarrow> tfs_mem t' x = tfs_mem t x"
    and "tfs_sector_buffer t' \<noteq> 0 \<Longrightarrow> \<exists>ys. heap_ok (tfs_heap t') ys
      \<and> {unat (tfs_sector_buffer t') ..< unat (tfs_sector_buffer t') + 512} \<inter> free_bytes ys = {}"
    and "backed_below (\<lambda>p. pfa_ok L p \<and> avoids L R p) (pfa_backed L) (provider (tfs_heap t'))
      (unat (next_page_virt_addr (tfs_heap t')))"
proof -
  let ?ok = "\<lambda>p. pfa_ok L p \<and> avoids L R p" and ?h = "tfs_heap t"
  have b: "backed_below ?ok (pfa_backed L) (provider ?h) (unat (next_page_virt_addr ?h))"
    using assms(2-4) by (auto simp: backed_below_def)
  have sz: "size_ok 512" "unat (block_size 512) = 516"
    using unat_block_size(1) [of 512] by (simp_all add: size_ok_def)
  obtain r h' ys where a: "memory_allocate (pfa_commit_page L) fuel 512 ?h = Ok (r, h')" "alloc_post 512 [] ?h r h' ys"
    "backed_below ?ok (pfa_backed L) (provider h') (unat (next_page_virt_addr h'))"
    using reserving.alloc_sound [OF assms(1) sz(1) _ b, of fuel] assms(2,5) sz(2)
    by (auto simp: tail_adjacent_def)
  obtain m h where t: "tfs_init (pfa_commit_page L) (ata_read_sector dev C fuel IDE_BUS_PRIM 0) fuel t =
      Ok (True, t\<lparr>tfs_heap := h'\<lparr>hmem := m\<rparr>, tfs_disk := h, tfs_sector_buffer := r,
        tfs_fs_meta := volume_metadata (tfs_sectors C delay flush d0 t 0)\<rparr>)"
    "\<forall>x. m x = (if unat r \<le> x \<and> x < unat r + 512
           then tfs_sectors C delay flush d0 t 0 (x - unat r) else hmem h' x)"
    "ata_ready dev C fuel IDE_BUS_PRIM 0 delay flush d0 h"
    "sector_of C IDE_BUS_PRIM delay flush d0 0 h = tfs_sectors C delay flush d0 t"
    by (rule tfs_init_reads [OF a(1) assms(6)])
  have place: "\<exists>x. r = x + 4 \<and> unat r = unat x + 4 \<and> 0xC0800000 \<le> unat x
      \<and> {unat x ..< unat x + 516} \<inter> free_bytes ys = {}" if r0: "r \<noteq> 0"
  proof -
    obtain x where x: "r = x + 4" "{unat x ..< unat x + 516} \<inter> free_bytes ys = {}"
      "{unat x ..< unat x + 516} \<subseteq> {unat (next_page_virt_addr ?h) ..< unat (next_page_virt_addr h')}"
      using a(2) r0 sz(2) by (auto simp: alloc_post_def)
    have "unat x + 515 < unat (next_page_virt_addr h')" using x(3) by (auto dest!: subsetD [of _ _ "unat x + 515"])
    then have "unat x < 4294967292" using unat_lt_pow2 [of "next_page_virt_addr h'"] by linarith
    then have "unat r = unat x + 4" using unat_add_no_wrap [of x 4] by (simp add: x(1))
    moreover have "unat (next_page_virt_addr ?h) \<le> unat x" using x(3) by auto
    ultimately show ?thesis using x(1,2) assms(2) by auto
  qed
  have buffer: "\<exists>ys. heap_ok (h'\<lparr>hmem := m\<rparr>) ys \<and> {unat r ..< unat r + 512} \<inter> free_bytes ys = {}" if r0: "r \<noteq> 0"
  proof -
    have d: "{unat r ..< unat r + 512} \<inter> free_bytes ys = {}" using place [OF r0] by (force simp: disjoint_iff)
    have "heap_ok (h'\<lparr>hmem := m\<rparr>) ys"
      by (rule heap_ok_overwrite) (use a(2) t(2) d in \<open>auto simp: alloc_post_def\<close>)
    with d show ?thesis by blast
  qed
  have low: "m x = hmem ?h x" if "512 \<le> x" "x < 0xC0800000" for x
  proof -
    have "hmem h' x = hmem ?h x" using a(2) that(2) assms(2) by (simp add: alloc_post_def)
    moreover have "\<not> (unat r \<le> x \<and> x < unat r + 512)" using place that by (cases "r = 0") auto
    ultimately show ?thesis unfolding t(2) [rule_format] by (simp only: if_False)
  qed
  show ?thesis by (rule that, rule t(1)) (use t(3,4) buffer a(3) low in simp_all)
qed

lemma kernel_boots:
  assumes "machine_ok dev delay flush d0" and "busy_polls d0 = 0" and "transfer d0 = Idle"
    and "delay + 1 < fuel" and "3 < fuel" and "link_ok L" and "boot_link_ok B" and "info_ok e info m"
    and "\<forall>s \<in> set (memory_map m info). segment_end s + 4096 \<le> 4294967296"
  shows "\<exists>b st. bootstrap B gdt_addr e info \<lparr>boot_gdt = g, boot_memory = m, boot_paging = zero_tables\<rparr> = Ok b
    \<and> kernel_init dev L I fuel e (kernel_at_boot (boot_paging b) (boot_memory b) i t) = Ok st
    \<and> (\<forall>v < 256. gate_target (idt (k_interrupts st) v) = stub_address (exc_stubs I) (int_stubs I) v)
    \<and> interrupts_enabled (k_interrupts st)
    \<and> (\<forall>k < 2. k_ide_drives st 0 k = drive_record (identity d0 (k = 1)) (ide_drives ide_at_boot 0 k))
    \<and> tfs_fs_meta (k_tfs st) = volume_metadata (sector_byte (sectors d0 False 0))
    \<and> ata_ready dev (k_ide_channels st) fuel IDE_BUS_PRIM 0 delay flush d0 (tfs_disk (k_tfs st))
    \<and> tfs_sectors (k_ide_channels st) delay flush d0 (k_tfs st) = (\<lambda>l. sector_byte (sectors d0 False l))
    \<and> (\<forall>x. 512 \<le> x \<and> x < 0xC0800000 \<longrightarrow> tfs_mem (k_tfs st) x = bootstrap_info e info m x)
    \<and> (tfs_sector_buffer (k_tfs st) \<noteq> 0 \<longrightarrow> (\<exists>ys. heap_ok (tfs_heap (k_tfs st)) ys
         \<and> {unat (tfs_sector_buffer (k_tfs st)) ..< unat (tfs_sector_buffer (k_tfs st)) + 512} \<inter> free_bytes ys = {}))
    \<and> (\<forall>v. 0xC0800000 \<le> v \<and> v < next_page_virt_addr (tfs_heap (k_tfs st)) \<longrightarrow>
         (\<exists>q k. mmu_walk L (provider (tfs_heap (k_tfs st))) v = Some q \<and> q = frame_addr k OR (v AND 0xfff)
            \<and> k < PFA_FRAMES \<and> \<not> reserved_by 0 (memory_map m info) k))"
proof -
  let ?m = "bootstrap_info e info m" and ?segs = "memory_map m info" and ?R = "{k. reserved_by 0 (memory_map m info) k}"
  have info: "boot_mmap_length ?m e = boot_mmap_length m info" "memory_map ?m e = ?segs"
    using info_copied [OF assms(8)] by simp_all
  have len: "map_bytes ?segs = unat (boot_mmap_length m info)" using assms(8) by (simp add: info_ok_def)
  obtain bt heap where heap: "bootstrap_paging B zero_tables = Ok bt"
    "kernel_init_memory (boot_mmap_length m info) ?segs (memory_at_boot bt ?m) = Ok heap"
    "heap_ok heap []" "next_page_virt_addr heap = 0xC0800000" "pfa_ok L (provider heap)" "avoids L ?R (provider heap)" "hmem heap = ?m"
    by (rule kernel_memory_starts [OF assms(6,7,9) len, of ?m])
  obtain s1 s2 i' s3 ide where dev: "serial_init dev \<lparr>hw_term = terminal_init t, hw_ports = []\<rparr> = (True, s1)"
    "serial_write dev fuel 0x0A s1 = Ok s2"
    "interrupts_init (exc_stubs I) (int_stubs I) (idt_addr I) i s2 = (i', s3)"
    "pci_init dev fuel ?m \<lparr>ide_hw = s3, ide_channels = ide_channels ide_at_boot, ide_drives = ide_drives ide_at_boot\<rparr>
       = Ok (True, ide)"
    "\<forall>k < 2. ide_drives ide 0 k = drive_record (identity d0 (k = 1)) (ide_drives ide_at_boot 0 k)"
    "io_base (ide_channels ide 0) = io_base (legacy_channels 0)"
    "busy_polls (drives_seen delay flush d0 (ide_hw ide)) = 0"
    "sectors (drives_seen delay flush d0 (ide_hw ide)) = sectors d0"
    by (rule devices_start [OF assms(1-4)])
  let ?C = "ide_channels ide"
  have ready: "ata_ready dev ?C fuel IDE_BUS_PRIM 0 delay flush d0 (ide_hw ide)"
    using assms(1,4) dev(7) by (simp add: channel_cong(4) [of ?C 0 legacy_channels, OF dev(6)] ata_ready_def machine_ok_def)
  have sec: "sector_of ?C IDE_BUS_PRIM delay flush d0 0 (ide_hw ide) = (\<lambda>l. sector_byte (sectors d0 False l))"
    by (rule ext) (simp add: channel_cong(3) [of ?C 0 legacy_channels, OF dev(6)] sector_of_def dev(8))
  let ?t = "(k_tfs (kernel_at_boot bt ?m i t))\<lparr>tfs_heap := heap, tfs_disk := ide_hw ide\<rparr>"
  obtain t' where t: "tfs_init (pfa_commit_page L) (ata_read_sector dev ?C fuel IDE_BUS_PRIM 0) fuel ?t = Ok (True, t')"
    "tfs_fs_meta t' = volume_metadata (tfs_sectors ?C delay flush d0 ?t 0)"
    "ata_ready dev ?C fuel IDE_BUS_PRIM 0 delay flush d0 (tfs_disk t')"
    "tfs_sectors ?C delay flush d0 t' = tfs_sectors ?C delay flush d0 ?t"
    "\<forall>x. 512 \<le> x \<and> x < 0xC0800000 \<longrightarrow> tfs_mem t' x = tfs_mem ?t x"
    "tfs_sector_buffer t' \<noteq> 0 \<Longrightarrow> \<exists>ys. heap_ok (tfs_heap t') ys
      \<and> {unat (tfs_sector_buffer t') ..< unat (tfs_sector_buffer t') + 512} \<inter> free_bytes ys = {}"
    "backed_below (\<lambda>p. pfa_ok L p \<and> avoids L ?R p) (pfa_backed L) (provider (tfs_heap t'))
      (unat (next_page_virt_addr (tfs_heap t')))"
    by (rule tagfs_starts [of ?t L ?R fuel dev ?C delay flush d0]) (use heap(3-6) assms(5) ready in simp_all)
  let ?b = "\<lparr>boot_gdt = gdt_init gdt_addr g, boot_memory = ?m, boot_paging = bt\<rparr>"
  have boot: "bootstrap B gdt_addr e info \<lparr>boot_gdt = g, boot_memory = m, boot_paging = zero_tables\<rparr> = Ok ?b"
    using heap(1) by (simp add: bootstrap_def Let_def)
  have run: "kernel_init dev L I fuel e (kernel_at_boot (boot_paging ?b) (boot_memory ?b) i t) = Ok \<lparr>k_interrupts = i',
      k_ide_channels = ?C, k_ide_drives = ide_drives ide, k_tfs = t'\<rparr>"
    using dev(1-4) heap(2) t(1) info
    by (simp add: kernel_init_def Let_def kernel_at_boot_def memory_at_boot_def)
  have gates: "gate_target (idt i' v) = stub_address (exc_stubs I) (int_stubs I) v" "interrupts_enabled i'" if "v < 256" for v
    using gates_installed [OF that _ dev(3), of 0] by simp_all
  have frames: "\<exists>q k. mmu_walk L (provider (tfs_heap t')) v = Some q \<and> q = frame_addr k OR (v AND 0xfff)
      \<and> k < PFA_FRAMES \<and> \<not> reserved_by 0 ?segs k" if "0xC0800000 \<le> v" "v < next_page_virt_addr (tfs_heap t')" for v
    using heap_avoids [OF t(7) that] by auto
  show ?thesis
    by (rule exI [of _ ?b], rule exI, intro conjI boot, rule run)
       (use gates gates(2) [of 0] dev(5) sec t(2-6) heap(7) frames in simp_all)
qed


lemma machine_is_ok:
  assumes "identity d0 = identity example_drives"
  shows "machine_ok (machine 3 2 d0) 3 2 d0"
proof -
  have s: "serial_answers (machine 3 2 d0)"
    using machine_channel(1) [of 3 2 d0]
    by (simp add: serial_answers_def ata_channel_def) (simp add: machine_def)
  have "legacy_controller (machine 3 2 d0)"
    by (simp add: legacy_controller_def machine_def)
  then show ?thesis
    using s machine_channel [of 3 2 d0] example_best_udma assms
    by (simp add: machine_ok_def) (simp add: example_drives_def)
qed

definition interrupts_at_boot :: interrupts where
  "interrupts_at_boot = \<lparr>idt = (\<lambda>v. interrupts_create_descriptor 0 0 0), idtr_size = 0, idtr_offset = 0,
     registered_handlers = (\<lambda>k. default_registered_handler), idt_loaded = False, interrupts_enabled = False\<rparr>"

definition gdt_at_boot :: gdt_state where
  "gdt_at_boot = \<lparr>gdt = (\<lambda>k. gdt_create_descriptor 0 0 0 0), gdtr_size = 0, gdtr_offset = 0\<rparr>"


end
