(* ===== verification/KernelMain.thy ===== *)
theory KernelMain
  imports Kernel
begin

text \<open>
  \<open>kernel_main\<close> of \<open>src/src/kernel/kernel.c\<close>, which \<open>boot.s\<close> calls: \<open>kernel_init\<close>, a report of the memory map, of the
  linker's symbols and of the registers of the IDE controller, and a session with the file system.

  The addresses of the linker's symbols, of the string literals and of the local record \<open>file_meta\<close> are parameters. The function ends in an
  endless loop; the result of the model is the state in which that loop is entered.
\<close>

section \<open>Definitions\<close>

record main_link =
  boot_start :: u32
  boot_end :: u32
  kernel_phys_start_sym :: u32
  kernel_phys_end_sym :: u32
  kernel_start_sym :: u32
  kernel_end_sym :: u32
  text_hello :: u32
  text_goodbye :: u32
  text_hihihi :: u32
  local_file_meta :: u32

text \<open>The two 32-bit slots in which a 64-bit argument is passed.\<close>

definition slots64 :: "u64 \<Rightarrow> u32 list" where
  "slots64 v = [ucast v, ucast (drop_bit 32 v)]"

text \<open>The loop over the memory map.\<close>

fun print_segments :: "device \<Rightarrow> nat \<Rightarrow> memory \<Rightarrow> MMap_Segment list \<Rightarrow> hw \<Rightarrow> hw outcome" where
  "print_segments dev fuel m [] s = Ok s"
| "print_segments dev fuel m (segment # segments) s =
     obind (fmt_print dev fuel m (''addr: %lx, length: %lx, type: %u, size: %u'' @ newline)
       (slots64 (base_addr segment) @ slots64 (seg_length segment) @ [seg_type segment, seg_size segment]) s)
     (print_segments dev fuel m segments)"

definition print_symbols :: "device \<Rightarrow> nat \<Rightarrow> main_link \<Rightarrow> memory \<Rightarrow> hw \<Rightarrow> hw outcome" where
  "print_symbols dev fuel K m s =
     obind (fmt_print dev fuel m newline [] s) (\<lambda>s.
     print_lines dev fuel m
       [(''boot_start: %x'' @ newline, boot_start K),
        (''boot_end: %x'' @ newline, boot_end K),
        (''kernel_phys_start: %x'' @ newline, kernel_phys_start_sym K),
        (''kernel_phys_end: %x'' @ newline, kernel_phys_end_sym K),
        (''kernel_start: %x'' @ newline, kernel_start_sym K),
        (''kernel_end: %x'' @ newline, kernel_end_sym K)] s)"

definition print_controller :: "device \<Rightarrow> nat \<Rightarrow> memory \<Rightarrow> hw \<Rightarrow> hw outcome" where
  "print_controller dev fuel m s =
     (let field = (\<lambda>h n. ucast (drop_bit n h :: u32) AND 0xFF :: u32); print = fmt_print dev fuel m in
      obind (print newline [] s) (\<lambda>s.
      obind (pci_read_register dev 0 1 1 0 s) (\<lambda>(header0, s).
      obind (print (''bus: %hu, device: %hhu'' @ newline) [0, 1] s) (\<lambda>s.
      obind (print (''vendor_id: %hx, device_id: %hx'' @ newline)
        [ucast (ucast header0 :: u16), ucast (ucast (drop_bit 16 header0) :: u16)] s) (\<lambda>s.
      obind (pci_read_register dev 0 1 1 8 s) (\<lambda>(header2, s).
      obind (print (''class_code: %hhx, subclass: %hhx'' @ newline) [field header2 24, field header2 16] s) (\<lambda>s.
      obind (print (''prog_if: %hhx, revision_id: %hhx'' @ newline) [field header2 8, field header2 0] s) (\<lambda>s.
      obind (pci_read_register dev 0 1 1 12 s) (\<lambda>(header3, s).
      obind (print (''bist: %hhx, header_type: %hhx'' @ newline) [field header3 24, field header3 16] s) (\<lambda>s.
      obind (print (''latency_timer: %hhx, cache_line: %hhx'' @ newline) [field header3 8, field header3 0] s) (\<lambda>s.
      obind (pci_read_register dev 0 1 1 16 s) (\<lambda>(bar0, s).
      obind (pci_read_register dev 0 1 1 20 s) (\<lambda>(bar1, s).
      obind (pci_read_register dev 0 1 1 24 s) (\<lambda>(bar2, s).
      obind (pci_read_register dev 0 1 1 28 s) (\<lambda>(bar3, s).
      obind (pci_read_register dev 0 1 1 32 s) (\<lambda>(bar4, s).
      print_lines dev fuel m
        [(''bar0: %x'' @ newline, bar0), (''bar1: %x'' @ newline, bar1), (''bar2: %x'' @ newline, bar2),
         (''bar3: %x'' @ newline, bar3), (''bar4: %x'' @ newline, bar4)] s))))))))))))))))"

definition kernel_report :: "device \<Rightarrow> nat \<Rightarrow> main_link \<Rightarrow> memory \<Rightarrow> u32 \<Rightarrow> hw \<Rightarrow> hw outcome" where
  "kernel_report dev fuel K m boot_info s =
     obind (print_segments dev fuel m (memory_map m boot_info) s) (\<lambda>s.
     obind (print_symbols dev fuel K m s) (\<lambda>s.
     print_controller dev fuel m s))"

text \<open>The session with the file system, on the state of the TagFS driver.\<close>

definition say :: "device \<Rightarrow> nat \<Rightarrow> string \<Rightarrow> u32 list \<Rightarrow> ('p, hw) tfs_state \<Rightarrow> ('p, hw) tfs_state outcome" where
  "say dev fuel fmt args t =
     obind (fmt_print dev fuel (tfs_mem t) fmt args (tfs_disk t)) (\<lambda>s. Ok (t\<lparr>tfs_disk := s\<rparr>))"

definition show_attributes ::
  "device \<Rightarrow> hw reader \<Rightarrow> nat \<Rightarrow> u32 \<Rightarrow> u32 \<Rightarrow> ('p, hw) tfs_state \<Rightarrow> ('p, hw) tfs_state outcome" where
  "show_attributes dev rd fuel file_name file_meta t =
     obind (str_literal (tfs_mem t) (unat file_name)) (\<lambda>path.
     obind (tfs_get_file_attributes rd path (unat file_meta) t) (\<lambda>(_, t).
     obind (say dev fuel (''first_data_sector: %d'' @ newline) [entry_first (tfs_mem t) (unat file_meta)] t) (\<lambda>t.
     obind (say dev fuel (''size: %d'' @ newline) [entry_size (tfs_mem t) (unat file_meta)] t) (\<lambda>t.
     obind (say dev fuel (''name: %s'' @ newline) [of_nat (entry_name (unat file_meta))] t) (\<lambda>t.
     say dev fuel newline [] t)))))"

definition show_contents ::
  "device \<Rightarrow> 'p committer \<Rightarrow> hw reader \<Rightarrow> nat \<Rightarrow> u32 \<Rightarrow> u32 \<Rightarrow> ('p, hw) tfs_state \<Rightarrow> ('p, hw) tfs_state outcome" where
  "show_contents dev commit rd fuel file_name data t =
     obind (str_literal (tfs_mem t) (unat file_name)) (\<lambda>path.
     obind (tfs_read commit rd fuel path data 512 0 t) (\<lambda>(_, t).
     say dev fuel (''%s'' @ newline) [data] t))"

definition tagfs_session ::
  "device \<Rightarrow> 'p committer \<Rightarrow> hw reader \<Rightarrow> hw writer \<Rightarrow> nat \<Rightarrow> main_link \<Rightarrow> ('p, hw) tfs_state \<Rightarrow> ('p, hw) tfs_state outcome" where
  "tagfs_session dev commit rd wr fuel K t =
     obind (say dev fuel newline [] t) (\<lambda>t.
     obind (allocate commit fuel 512 t) (\<lambda>(data, t).
     obind (say dev fuel (''Attributes of hello.txt:'' @ newline) [] t) (\<lambda>t.
     obind (show_attributes dev rd fuel (text_hello K) (local_file_meta K) t) (\<lambda>t.
     obind (say dev fuel (''Contents of hello.txt:'' @ newline) [] t) (\<lambda>t.
     obind (show_contents dev commit rd fuel (text_hello K) data t) (\<lambda>t.
     obind (say dev fuel (''Writing to hello.txt...'' @ newline) [] t) (\<lambda>t.
     obind (str_literal (tfs_mem t) (unat (text_hello K))) (\<lambda>path.
     obind (tfs_write commit rd wr fuel path (text_hihihi K) 11 0 t) (\<lambda>(_, t).
     obind (say dev fuel (''After write:'' @ newline) [] t) (\<lambda>t.
     obind (show_contents dev commit rd fuel (text_hello K) data t) (\<lambda>t.
     obind (say dev fuel newline [] t) (\<lambda>t.
     obind (say dev fuel (''Attributes after writing:'' @ newline) [] t) (\<lambda>t.
     obind (show_attributes dev rd fuel (text_hello K) (local_file_meta K) t) (\<lambda>t.
     obind (say dev fuel newline [] t) (\<lambda>t.
     obind (say dev fuel (''Making a new file now...'' @ newline) [] t) (\<lambda>t.
     obind (str_literal (tfs_mem t) (unat (text_goodbye K))) (\<lambda>path.
     obind (tfs_make_new_file rd wr path t) (\<lambda>(_, t).
     show_attributes dev rd fuel (text_goodbye K) (local_file_meta K) t))))))))))))))))))"

definition kernel_main ::
  "device \<Rightarrow> link_map \<Rightarrow> interrupt_link \<Rightarrow> nat \<Rightarrow> main_link \<Rightarrow> u32 \<Rightarrow> kernel_state \<Rightarrow> kernel_state outcome" where
  "kernel_main dev L I fuel K boot_info st =
     obind (kernel_init dev L I fuel boot_info st) (\<lambda>st.
     let t = k_tfs st in
     obind (kernel_report dev fuel K (tfs_mem t) boot_info (tfs_disk t)) (\<lambda>s.
     obind (tagfs_session dev (pfa_commit_page L)
       (ata_read_sector dev (k_ide_channels st) fuel IDE_BUS_PRIM 0)
       (ata_write_sector dev (k_ide_channels st) fuel IDE_BUS_PRIM 0) fuel K (t\<lparr>tfs_disk := s\<rparr>)) (\<lambda>t.
     Ok (st\<lparr>k_tfs := t\<rparr>))))"

section \<open>What a format prints\<close>

text \<open>The text of a number, for the numbers that \<open>put_hex\<close> and \<open>put_uint\<close> print.\<close>

definition text_of :: "u8 list outcome \<Rightarrow> u8 list" where
  "text_of r = (case r of Ok ds \<Rightarrow> ds | _ \<Rightarrow> [])"

abbreviation hex_text :: "u64 \<Rightarrow> u8 list" where "hex_text v \<equiv> text_of (hex_chars v)"
abbreviation uint_text :: "u64 \<Rightarrow> u8 list" where "uint_text v \<equiv> text_of (uint_chars v)"

lemma put_hex_text: "put_hex dev fuel v s = write_str dev fuel (hex_text v) s"
  using hex_chars_value [of v] by (auto simp: put_hex_chars text_of_def)

lemma put_uint_text: "unat v < 10 ^ 19 \<Longrightarrow> put_uint dev fuel v s = write_str dev fuel (uint_text v) s"
  using uint_chars_value [of v] by (auto simp: put_uint_chars text_of_def)

lemma write_str_append:
  "write_str dev fuel (ds @ es) s = obind (write_str dev fuel ds s) (write_str dev fuel es)"
  by (induction ds arbitrary: s) (auto simp: obind_assoc intro: obind_cong)

lemma write_str_fun:
  "write_str dev fuel (c # ds) = (\<lambda>s. obind (put_char dev fuel c s) (write_str dev fuel ds))"
  "write_str dev fuel (ds @ es) = (\<lambda>s. obind (write_str dev fuel ds s) (write_str dev fuel es))"
  by (simp_all add: fun_eq_iff write_str_append)

lemma slots64_value: "ucast (ucast v :: u32) OR push_bit 32 (ucast (ucast (drop_bit 32 v) :: u32)) = (v :: u64)"
  by (rule bit_word_eqI) (auto simp: bit_simps)

lemma uint_slot: "unat (ucast (v :: u32) :: u64) < 10 ^ 19"
proof -
  have "unat v < 2 ^ 64" by (rule less_trans [OF unat_lt_pow2]) simp
  then have "unat (ucast v :: u64) = unat v" unfolding unsigned_ucast_eq by (simp add: take_bit_nat_eq_self)
  moreover have "unat v < 10 ^ 19" by (rule less_trans [OF unat_lt_pow2]) simp
  ultimately show ?thesis by simp
qed

text \<open>One step of the loop over the format: a conversion prints the text of its argument.\<close>

lemma format_step:
  "c \<noteq> 37 \<Longrightarrow> fmt_loop dev fuel m (c # fmt) args s = obind (write_str dev fuel [c] s) (fmt_loop dev fuel m fmt args)"
  "fmt_loop dev fuel m (37 # 120 # fmt) (v # args) s =
     obind (write_str dev fuel (hex_text (ucast v)) s) (fmt_loop dev fuel m fmt args)"
  "fmt_loop dev fuel m (37 # 117 # fmt) (v # args) s =
     obind (write_str dev fuel (uint_text (ucast v)) s) (fmt_loop dev fuel m fmt args)"
  "fmt_loop dev fuel m (37 # 108 # 120 # fmt) (ucast w # ucast (drop_bit 32 w) # args) s =
     obind (write_str dev fuel (hex_text w) s) (fmt_loop dev fuel m fmt args)"
  by (simp_all add: parse_specifier_def conversion_def print_specifier_def va_unsigned_def obind_assoc
      put_hex_text put_uint_text [OF uint_slot] slots64_value)

text \<open>The text of one line of the memory map, and of one symbol.\<close>

definition segment_text :: "MMap_Segment \<Rightarrow> u8 list" where
  "segment_text segment =
     ascii ''addr: '' @ hex_text (base_addr segment) @ ascii '', length: '' @ hex_text (seg_length segment) @
     ascii '', type: '' @ uint_text (ucast (seg_type segment)) @ ascii '', size: '' @ uint_text (ucast (seg_size segment)) @
     ascii newline"

definition symbol_text :: "string \<Rightarrow> u32 \<Rightarrow> u8 list" where
  "symbol_text name v = ascii name @ ascii '': '' @ hex_text (ucast v) @ ascii newline"

lemma fmt_print_end: "extra_arguments dev fuel [0] s = Ok s"
  by simp

lemma fmt_print_segment:
  "fmt_print dev fuel m (''addr: %lx, length: %lx, type: %u, size: %u'' @ newline)
     (slots64 (base_addr segment) @ slots64 (seg_length segment) @ [seg_type segment, seg_size segment]) s
   = write_str dev fuel (segment_text segment) s"
  unfolding fmt_print_def fmt_print_impl_def segment_text_def slots64_def ascii_def newline_def
  by (simp add: format_step write_str_fun obind_assoc del: fmt_loop.simps(2))

lemma fmt_print_symbol:
  assumes "37 \<notin> set (ascii name)"
  shows "fmt_print dev fuel m (name @ '': %x'' @ newline) [v] s = write_str dev fuel (symbol_text name v) s"
proof -
  have a: "ascii (name @ '': %x'' @ newline) = ascii name @ [58, 32, 37, 120, 10]" by (simp add: ascii_def newline_def)
  have b: "ascii '': '' = [58, 32]" "ascii newline = [10]" by (simp_all add: ascii_def newline_def)
  show ?thesis
    unfolding fmt_print_def fmt_print_impl_def a symbol_text_def b
    by (simp add: fmt_loop_plain [OF assms] format_step write_str_fun obind_assoc del: fmt_loop.simps(2))
qed

definition symbols_text :: "main_link \<Rightarrow> u8 list" where
  "symbols_text K = ascii newline @
     symbol_text ''boot_start'' (boot_start K) @ symbol_text ''boot_end'' (boot_end K) @
     symbol_text ''kernel_phys_start'' (kernel_phys_start_sym K) @ symbol_text ''kernel_phys_end'' (kernel_phys_end_sym K) @
     symbol_text ''kernel_start'' (kernel_start_sym K) @ symbol_text ''kernel_end'' (kernel_end_sym K)"

lemma print_segments_text:
  "print_segments dev fuel m segments s = write_str dev fuel (concat (map segment_text segments)) s"
proof (induction segments arbitrary: s)
  case (Cons segment segments)
  have "print_segments dev fuel m segments = write_str dev fuel (concat (map segment_text segments))"
    by (rule ext) (rule Cons)
  then show ?case unfolding print_segments.simps fmt_print_segment by (simp add: write_str_append)
qed simp

lemma fmt_print_newline: "fmt_print dev fuel m newline [] s = write_str dev fuel (ascii newline) s"
  by (simp add: fmt_print_def fmt_print_impl_def newline_def ascii_def obind_assoc)

lemma print_symbols_text: "print_symbols dev fuel K m s = write_str dev fuel (symbols_text K) s"
proof -
  have p: "37 \<notin> set (ascii ''boot_start'')" "37 \<notin> set (ascii ''boot_end'')" "37 \<notin> set (ascii ''kernel_phys_start'')"
    "37 \<notin> set (ascii ''kernel_phys_end'')" "37 \<notin> set (ascii ''kernel_start'')" "37 \<notin> set (ascii ''kernel_end'')"
    by (simp_all add: ascii_def)
  note t = p [THEN fmt_print_symbol, unfolded append_Cons append_Nil]
  show ?thesis
    unfolding print_symbols_def symbols_text_def append_Cons append_Nil print_lines.simps t fmt_print_newline
    by (simp add: write_str_fun(2) obind_assoc)
qed

section \<open>Code that prints\<close>

text \<open>Code that always returns and prints the same text on screen and serial line.\<close>

definition prints :: "(hw \<Rightarrow> hw outcome) \<Rightarrow> bool" where
  "prints f \<longleftrightarrow> (\<forall>s. \<exists>s' out. f s = Ok s' \<and> emitted out s s')"

lemma prints_bind: "prints f \<Longrightarrow> prints g \<Longrightarrow> prints (\<lambda>s. obind (f s) (\<lambda>s. g s))"
  unfolding prints_def by (metis obind.simps(1) emitted_trans)

lemma prints_write: "line_ready dev \<Longrightarrow> 0 < fuel \<Longrightarrow> prints (\<lambda>s. write_str dev fuel out s)"
  unfolding prints_def using write_str_ready by blast

lemma prints_read:
  assumes "\<And>h. prints (g h)" and "r AND 3 = 0"
  shows "prints (\<lambda>s. obind (pci_read_register dev bus device function r s) (\<lambda>(h, s). g h s))"
  unfolding prints_def
proof
  fix s
  obtain h s1 where r: "pci_read_register dev bus device function r s = Ok (h, s1)" "emitted [] s s1"
    using assms(2)
    by (cases "pci_read_register dev bus device function r s")
       (auto simp: pci_read_register_def pci_get_register_address_def ASSERT_def emitted_def in_32_def out_32_def serial_sent_def Let_def)
  obtain s2 out where "g h s1 = Ok s2" "emitted out s1 s2" using assms(1) unfolding prints_def by blast
  with r emitted_trans [OF r(2)] show
    "\<exists>s' out. obind (pci_read_register dev bus device function r s) (\<lambda>(h, s). g h s) = Ok s' \<and> emitted out s s'"
    by auto
qed


text \<open>The remaining formats of the report: two numbers of 8 or 16 bits.\<close>

lemma format_step_short:
  "fmt_loop dev fuel m (37 # 104 # 120 # fmt) (v # args) s =
     obind (write_str dev fuel (hex_text (ucast (ucast v :: u16))) s) (fmt_loop dev fuel m fmt args)"
  "fmt_loop dev fuel m (37 # 104 # 104 # 120 # fmt) (v # args) s =
     obind (write_str dev fuel (hex_text (ucast (ucast v :: u8))) s) (fmt_loop dev fuel m fmt args)"
  by (simp_all add: parse_specifier_def conversion_def print_specifier_def va_unsigned_def obind_assoc put_hex_text)

lemma prints_bus: "prints (fmt_print dev fuel m (''bus: %hu, device: %hhu'' @ newline) [0, 1])"
  if "line_ready dev" "0 < fuel"
proof -
  have u: "put_uint dev fuel (0 :: u64) s = write_str dev fuel (uint_text 0) s"
    "put_uint dev fuel (1 :: u64) s = write_str dev fuel (uint_text 1) s" for s
    by (simp_all add: put_uint_text)
  have h: "fmt_loop dev fuel m (37 # 104 # 117 # fmt) (0 # args) s =
      obind (write_str dev fuel (uint_text 0) s) (fmt_loop dev fuel m fmt args)"
    "fmt_loop dev fuel m (37 # 104 # 104 # 117 # fmt) (1 # args) s =
      obind (write_str dev fuel (uint_text 1) s) (fmt_loop dev fuel m fmt args)" for fmt args s
    by (simp_all add: parse_specifier_def conversion_def print_specifier_def va_unsigned_def obind_assoc u)
  have "fmt_print dev fuel m (''bus: %hu, device: %hhu'' @ newline) [0, 1] s = write_str dev fuel
      (ascii ''bus: '' @ uint_text 0 @ ascii '', device: '' @ uint_text 1 @ ascii newline) s" for s
    unfolding fmt_print_def fmt_print_impl_def ascii_def newline_def
    by (simp add: format_step(1) h write_str_fun obind_assoc del: fmt_loop.simps(2))
  then show ?thesis using prints_write [OF that] by (simp add: prints_def)
qed


lemma prints_put: "line_ready dev \<Longrightarrow> 0 < fuel \<Longrightarrow> prints (put_char dev fuel c)"
  using prints_write [of dev fuel "[c]"] by simp

lemma prints_pairs:
  assumes "line_ready dev" and "0 < fuel"
  shows "prints (fmt_print dev fuel m (''vendor_id: %hx, device_id: %hx'' @ newline) [a, b])"
    and "prints (fmt_print dev fuel m (''class_code: %hhx, subclass: %hhx'' @ newline) [a, b])"
    and "prints (fmt_print dev fuel m (''prog_if: %hhx, revision_id: %hhx'' @ newline) [a, b])"
    and "prints (fmt_print dev fuel m (''bist: %hhx, header_type: %hhx'' @ newline) [a, b])"
    and "prints (fmt_print dev fuel m (''latency_timer: %hhx, cache_line: %hhx'' @ newline) [a, b])"
  unfolding fmt_print_def fmt_print_impl_def ascii_def newline_def
  by (simp add: format_step(1) format_step_short obind_assoc del: fmt_loop.simps(2);
      intro prints_bind prints_put [OF assms] prints_write [OF assms])+

lemma prints_bars:
  assumes "line_ready dev" and "0 < fuel"
  shows "prints (print_lines dev fuel m
    [(''bar0: %x'' @ newline, v0), (''bar1: %x'' @ newline, v1), (''bar2: %x'' @ newline, v2),
     (''bar3: %x'' @ newline, v3), (''bar4: %x'' @ newline, v4)])"
proof -
  have p: "37 \<notin> set (ascii ''bar0'')" "37 \<notin> set (ascii ''bar1'')" "37 \<notin> set (ascii ''bar2'')"
    "37 \<notin> set (ascii ''bar3'')" "37 \<notin> set (ascii ''bar4'')"
    by (simp_all add: ascii_def)
  note t = p [THEN fmt_print_symbol, unfolded append_Cons append_Nil]
  show ?thesis
    unfolding print_lines.simps append_Cons append_Nil t
    by (intro prints_bind prints_write [OF assms]) (auto simp: prints_def intro: emitted_refl)
qed

lemma print_controller_prints:
  assumes "line_ready dev" and "0 < fuel"
  shows "prints (print_controller dev fuel m)"
  unfolding print_controller_def Let_def
  by (intro prints_bind prints_read prints_bus prints_pairs prints_bars assms) 
    (simp_all add: fmt_print_newline prints_write [OF assms])

lemma kernel_report_text:
  assumes "line_ready dev" and "0 < fuel"
  shows "\<exists>s' registers. kernel_report dev fuel K m boot_info s = Ok s'
    \<and> emitted (concat (map segment_text (memory_map m boot_info)) @ symbols_text K @ registers) s s'"
proof -
  obtain s1 where 1: "write_str dev fuel (concat (map segment_text (memory_map m boot_info))) s = Ok s1"
    "emitted (concat (map segment_text (memory_map m boot_info))) s s1" using write_str_ready [OF assms] by blast
  obtain s2 where 2: "write_str dev fuel (symbols_text K) s1 = Ok s2" "emitted (symbols_text K) s1 s2"
    using write_str_ready [OF assms] by blast
  obtain s3 registers where 3: "print_controller dev fuel m s2 = Ok s3" "emitted registers s2 s3"
    using print_controller_prints [OF assms] unfolding prints_def by blast
  have "kernel_report dev fuel K m boot_info s = Ok s3"
    by (simp add: kernel_report_def print_segments_text print_symbols_text 1(1) 2(1) 3(1))
  moreover have "emitted (concat (map segment_text (memory_map m boot_info)) @ symbols_text K @ registers) s s3"
    by (rule emitted_trans [OF 1(2) emitted_trans [OF 2(2) 3(2)]])
  ultimately show ?thesis by blast
qed

lemma map_kept:
  assumes "info_ok e info m" and "512 \<le> unat e" and "unat e + 116 + unat (boot_mmap_length m info) \<le> 0xC0800000"
    and "\<forall>x. 512 \<le> x \<and> x < 0xC0800000 \<longrightarrow> m' x = bootstrap_info e info m x"
  shows "memory_map m' e = memory_map m info"
proof -
  let ?m = "bootstrap_info e info m" and ?l = "boot_mmap_length m info"
  note c = info_copied [OF assms(1)]
  have same: "m' x = ?m x" if "unat e \<le> x" "x < unat e + 116 + unat ?l" for x using assms(2-4) that by simp
  have e: "unat (e + 116) = unat e + 116" "unat e + 116 + unat ?l < 4294967296"
    using assms(1) by (simp_all add: info_ok_def unat_add_no_wrap)
  have len: "boot_mmap_length m' e = ?l" "boot_mmap_addr m' e = e + 116"
    using c loads_cong(1) [of m' "unat e + 44" ?m "unat e + 44"] loads_cong(1) [of m' "unat e + 48" ?m "unat e + 48"]
    by (simp_all add: same boot_mmap_length_def boot_mmap_addr_def)
  have mm: "memory_map ?m e = segments_at (unat ?l) ?m (e + 116) ?l 0" using c by (simp add: memory_map_def)
  have "segments_at (unat ?l) m' (e + 116 + 0) ?l 0 = segments_at (unat ?l) ?m (e + 116 + 0) ?l 0"
    by (rule segments_copied) (use same e assms(1) c mm in \<open>simp_all add: info_ok_def\<close>)
  then have "memory_map m' e = memory_map ?m e" unfolding mm by (simp add: memory_map_def len)
  with c show ?thesis by simp
qed

section \<open>Properties\<close>


definition example_main_link :: main_link where
  "example_main_link = \<lparr>boot_start = 0x100000, boot_end = 0x101000, kernel_phys_start_sym = 0x200000, kernel_phys_end_sym = 0x300000,
     kernel_start_sym = 0xC0000000, kernel_end_sym = 0xC0100000, text_hello = 0xC0001000, text_goodbye = 0xC0001010,
     text_hihihi = 0xC0001020, local_file_meta = 0xC0080000\<rparr>"


end
