(* ===== verification/Flags.thy ===== *)
theory Flags
  imports Prelude
begin

text \<open>
  The command line parser of the formatter, \<open>src/tagfs/tfsfmt/src/flags.c\<close>: the tables of flags and positional
  arguments, and the loop over \<open>argv\<close>.

  A string is the list of its bytes, \<open>None\<close> is the null pointer, and \<open>argv\<close> is the list of its pointers with
  the null pointer at its end. A flag holds the address of the variable it sets. The variables are three
  stores, one for each C type that a flag can point to (\<open>char *\<close>, \<open>int\<close>, \<open>bool\<close>), so the address of an array
  element is the address of the array plus the index. What the parser prints is not modelled. \<open>strtol\<close> is
  modelled for base 10 and a \<open>long\<close> of 64 bits; it sets \<open>errno\<close> when the number does not fit, and nothing
  clears it.
\<close>

section \<open>Definitions\<close>

type_synonym cstr = "u8 list"

text \<open>The tag and the union: the address of the variable; for an array also that of its counter, and its length.\<close>

datatype Flag_Type =
    FLAG_CSTR nat
  | FLAG_CSTR_ARRAY nat nat u32
  | FLAG_INT nat
  | FLAG_BOOL nat

record Flag =
  flag_type :: Flag_Type
  flag_option :: cstr
  flag_description :: cstr
  flag_provided :: bool
  flag_required :: bool

record parser =
  flags :: "Flag list"
  positionals :: "Flag list"
  str_var :: "nat \<Rightarrow> cstr option"
  int_var :: "nat \<Rightarrow> u32"
  bool_var :: "nat \<Rightarrow> bool"
  errno_range :: bool

definition FLAG_COUNT :: nat where "FLAG_COUNT = 128"
definition POSITIONAL_COUNT :: nat where "POSITIONAL_COUNT = 128"

definition add_flag :: "Flag_Type \<Rightarrow> cstr \<Rightarrow> cstr \<Rightarrow> bool \<Rightarrow> parser \<Rightarrow> parser outcome" where
  "add_flag ty option description required p =
     obind (ASSERT (length (flags p) < FLAG_COUNT) ''flag_index < FLAG_COUNT'') (\<lambda>_.
     Ok (p\<lparr>flags := flags p @ [\<lparr>flag_type = ty, flag_option = option, flag_description = description,
       flag_provided = False, flag_required = required\<rparr>]\<rparr>))"

definition flags_add_cstr_flag :: "nat \<Rightarrow> cstr \<Rightarrow> cstr \<Rightarrow> bool \<Rightarrow> parser \<Rightarrow> parser outcome" where
  "flags_add_cstr_flag value option description required p =
     add_flag (FLAG_CSTR value) option description required p"

definition flags_add_cstr_array_flag ::
  "nat \<Rightarrow> nat \<Rightarrow> u32 \<Rightarrow> cstr \<Rightarrow> cstr \<Rightarrow> bool \<Rightarrow> parser \<Rightarrow> parser outcome" where
  "flags_add_cstr_array_flag value parsed max_len option description required p =
     add_flag (FLAG_CSTR_ARRAY value parsed max_len) option description required p"

definition flags_add_int_flag :: "nat \<Rightarrow> cstr \<Rightarrow> cstr \<Rightarrow> bool \<Rightarrow> parser \<Rightarrow> parser outcome" where
  "flags_add_int_flag value option description required p =
     add_flag (FLAG_INT value) option description required p"

definition flags_add_bool_flag :: "nat \<Rightarrow> cstr \<Rightarrow> cstr \<Rightarrow> bool \<Rightarrow> parser \<Rightarrow> parser outcome" where
  "flags_add_bool_flag value option description required p =
     add_flag (FLAG_BOOL value) option description required p"

definition flags_add_cstr_positional :: "nat \<Rightarrow> cstr \<Rightarrow> cstr \<Rightarrow> parser \<Rightarrow> parser outcome" where
  "flags_add_cstr_positional value name description p =
     obind (ASSERT (length (positionals p) < POSITIONAL_COUNT) ''positional_index < POSITIONAL_COUNT'') (\<lambda>_.
     Ok (p\<lparr>positionals := positionals p @ [\<lparr>flag_type = FLAG_CSTR value, flag_option = name,
       flag_description = description, flag_provided = False, flag_required = True\<rparr>]\<rparr>))"

definition shift_args :: "int \<Rightarrow> cstr option list \<Rightarrow> (cstr option \<times> int \<times> cstr option list) outcome" where
  "shift_args argc argv = (case argv of [] \<Rightarrow> Fault ''read past argv'' | arg # rest \<Rightarrow> Ok (arg, argc - 1, rest))"

text \<open>
  \<open>strtol (s, &end, 10)\<close>: the value, the string at \<open>end\<close>, and whether the number was out of range.
\<close>

definition is_space :: "u8 \<Rightarrow> bool" where
  "is_space c \<longleftrightarrow> c = 32 \<or> 9 \<le> c \<and> c \<le> 13"

definition is_digit :: "u8 \<Rightarrow> bool" where
  "is_digit c \<longleftrightarrow> 48 \<le> c \<and> c \<le> 57"

definition digit_value :: "u8 \<Rightarrow> int" where
  "digit_value c = int (unat c) - 48"

definition decimal_value :: "cstr \<Rightarrow> int" where
  "decimal_value ds = foldl (\<lambda>acc d. 10 * acc + digit_value d) 0 ds"

definition LONG_MAX :: int where "LONG_MAX = 9223372036854775807"
definition LONG_MIN :: int where "LONG_MIN = - 9223372036854775808"

definition strtol :: "cstr \<Rightarrow> int \<times> cstr \<times> bool" where
  "strtol s =
     (let t = dropWhile is_space s;
          negative = (t \<noteq> [] \<and> hd t = 45);
          t = (if t \<noteq> [] \<and> (hd t = 45 \<or> hd t = 43) then tl t else t);
          ds = takeWhile is_digit t;
          v = (if negative then - decimal_value ds else decimal_value ds) in
      if ds = [] then (0, s, False)
      else (max LONG_MIN (min LONG_MAX v), dropWhile is_digit t, v < LONG_MIN \<or> LONG_MAX < v))"

text \<open>One argument. The result is what the function returns, and the flag, now provided.\<close>

definition flags_parse_flag :: "Flag \<Rightarrow> cstr option \<Rightarrow> parser \<Rightarrow> (bool \<times> Flag \<times> parser) outcome" where
  "flags_parse_flag flag arg p =
     (let flag = flag\<lparr>flag_provided := True\<rparr> in
      case flag_type flag of
        FLAG_CSTR value \<Rightarrow> Ok (True, flag, p\<lparr>str_var := (str_var p)(value := arg)\<rparr>)
      | FLAG_CSTR_ARRAY value index max_len \<Rightarrow>
          (let i = int_var p index in
           if sint max_len \<le> sint i then Ok (False, flag, p)
           else if sint i < 0 then Fault ''index below the array''
           else Ok (True, flag, p\<lparr>str_var := (str_var p)(value + unat i := arg),
                                  int_var := (int_var p)(index := i + 1)\<rparr>))
      | FLAG_INT value \<Rightarrow>
          (case arg of None \<Rightarrow> Fault ''strtol of a null pointer''
           | Some s \<Rightarrow>
             (let (v, arg_end, range) = strtol s;
                  p = p\<lparr>errno_range := errno_range p \<or> range\<rparr> in
              if errno_range p then Ok (False, flag, p)
              else if arg_end \<noteq> [] then Ok (False, flag, p)
              else Ok (True, flag, p\<lparr>int_var := (int_var p)(value := of_int v)\<rparr>)))
      | FLAG_BOOL value \<Rightarrow> Ok (True, flag, p\<lparr>bool_var := (bool_var p)(value := True)\<rparr>))"

text \<open>The search for the flag that \<open>arg\<close> names.\<close>

fun flag_named :: "cstr \<Rightarrow> Flag list \<Rightarrow> nat option" where
  "flag_named arg [] = None"
| "flag_named arg (f # fs) = (if arg = flag_option f then Some 0 else map_option Suc (flag_named arg fs))"

text \<open>The loop over the arguments.\<close>

function parse_args :: "nat \<Rightarrow> int \<Rightarrow> cstr option list \<Rightarrow> parser \<Rightarrow> (bool \<times> parser) outcome" where
  "parse_args positional_i argc argv p =
     (if 0 < argc then
        obind (shift_args argc argv) (\<lambda>(arg, argc, argv).
        case arg of None \<Rightarrow> Fault ''null argument''
        | Some arg \<Rightarrow>
          if arg = [] \<or> hd arg \<noteq> 45 then
            if length (positionals p) \<le> positional_i then Ok (False, p)
            else obind (flags_parse_flag (positionals p ! positional_i) (Some arg) p) (\<lambda>(ok, flag, p).
              let p = p\<lparr>positionals := (positionals p)[positional_i := flag]\<rparr> in
              if ok then parse_args (positional_i + 1) argc argv p else Ok (False, p))
          else
            case flag_named arg (flags p) of None \<Rightarrow> Ok (False, p)
            | Some j \<Rightarrow>
              obind (shift_args argc argv) (\<lambda>(arg, argc, argv).
              obind (flags_parse_flag (flags p ! j) arg p) (\<lambda>(ok, flag, p).
              let p = p\<lparr>flags := (flags p)[j := flag]\<rparr> in
              if ok then parse_args positional_i argc argv p else Ok (False, p))))
      else Ok (True, p))"
  by pat_completeness auto
termination
  by (relation "measure (\<lambda>(i, argc, argv, p). nat argc)") (auto simp: shift_args_def split: list.splits)

declare parse_args.simps [simp del]

definition not_given :: "Flag \<Rightarrow> bool" where
  "not_given f \<longleftrightarrow> flag_required f \<and> \<not> flag_provided f"

definition flags_parse_flags :: "int \<Rightarrow> cstr option list \<Rightarrow> parser \<Rightarrow> (bool \<times> parser) outcome" where
  "flags_parse_flags argc argv p =
     obind (parse_args 0 argc argv p) (\<lambda>(ok, p).
     if \<not> ok then Ok (False, p)
     else if list_ex not_given (positionals p) then Ok (False, p)
     else if list_ex not_given (flags p) then Ok (False, p)
     else Ok (True, p))"

section \<open>Numbers\<close>

text \<open>A number as the shell passes it.\<close>

definition digit :: "nat \<Rightarrow> u8" where
  "digit k = of_nat (48 + k)"

fun decimal :: "nat \<Rightarrow> cstr" where
  "decimal n = (if n < 10 then [digit n] else decimal (n div 10) @ [digit (n mod 10)])"

declare decimal.simps [simp del]

lemma digit_char:
  assumes "k < 10"
  shows "is_digit (digit k)" and "unat (digit k) = 48 + k" and "digit_value (digit k) = int k"
proof -
  show u: "unat (digit k) = 48 + k"
    unfolding digit_def by (subst unat_of_nat) (use assms in simp)
  then show "digit_value (digit k) = int k" unfolding digit_value_def by (simp only:)
  show "is_digit (digit k)" using assms by (simp add: is_digit_def word_le_nat_alt u)
qed

lemma decimal_digits: "decimal n \<noteq> [] \<and> list_all is_digit (decimal n)"
proof (induction n rule: decimal.induct)
  case (1 n)
  then show ?case
    using digit_char [of n] digit_char [of "n mod 10"] by (subst (1 2) decimal.simps) auto
qed

lemma decimal_value_decimal: "decimal_value (decimal n) = int n"
proof (induction n rule: decimal.induct)
  case (1 n)
  show ?case
  proof (cases "n < 10")
    case True
    then show ?thesis using digit_char [of n] by (subst decimal.simps) (simp add: decimal_value_def)
  next
    case False
    have "decimal_value (decimal (n div 10) @ [digit (n mod 10)]) = 10 * int (n div 10) + int (n mod 10)"
      using 1 [OF False] digit_char [of "n mod 10"] by (simp add: decimal_value_def)
    also have "\<dots> = int n" by (simp add: zdiv_int zmod_int)
    finally show ?thesis using False by (subst decimal.simps) simp
  qed
qed

lemma digit_not_space: "is_digit c \<Longrightarrow> \<not> is_space c \<and> c \<noteq> 45 \<and> c \<noteq> 43"
  by (auto simp: is_digit_def is_space_def word_le_nat_alt)

lemma strtol_decimal:
  "strtol (decimal n) = (min LONG_MAX (int n), [], LONG_MAX < int n)"
proof -
  obtain c cs where d: "decimal n = c # cs" using decimal_digits [of n] by (cases "decimal n") auto
  have a: "list_all is_digit (c # cs)" using decimal_digits [of n] d by simp
  then have c: "\<not> is_space c" "c \<noteq> 45" "c \<noteq> 43" using digit_not_space [of c] by auto
  have t: "takeWhile is_digit (c # cs) = c # cs" "dropWhile is_digit (c # cs) = []"
    using a by (simp_all only: takeWhile_eq_all_conv dropWhile_eq_Nil_conv list_all_iff)
  have u: "dropWhile is_space (c # cs) = c # cs" using c(1) by simp
  have v: "decimal_value (c # cs) = int n" using decimal_value_decimal [of n] d by simp
  have m: "max LONG_MIN (min LONG_MAX (int n)) = min LONG_MAX (int n)" "\<not> int n < LONG_MIN"
    by (simp_all add: LONG_MIN_def LONG_MAX_def)
  show ?thesis
    unfolding strtol_def d using c by (simp add: Let_def t u v m del: takeWhile.simps dropWhile.simps)
qed

section \<open>The loop over the arguments\<close>

lemma parse_args_end: "parse_args i 0 argv p = Ok (True, p)"
  by (subst parse_args.simps) simp

lemma parse_positional:
  assumes "arg = [] \<or> hd arg \<noteq> 45" and "i < length (positionals p)" and "0 \<le> n"
    and "flags_parse_flag (positionals p ! i) (Some arg) p = Ok (True, f, p')"
  shows "parse_args i (n + 1) (Some arg # argv) p
    = parse_args (i + 1) n argv (p'\<lparr>positionals := (positionals p')[i := f]\<rparr>)"
  using assms by (subst parse_args.simps) (simp add: shift_args_def)

lemma parse_option:
  assumes "name \<noteq> []" and "hd name = 45" and "flag_named name (flags p) = Some j" and "0 \<le> n"
  shows "parse_args i (n + 2) (Some name # value # argv) p =
    obind (flags_parse_flag (flags p ! j) value p) (\<lambda>(ok, flag, p).
      let p = p\<lparr>flags := (flags p)[j := flag]\<rparr> in
      if ok then parse_args i n argv p else Ok (False, p))"
  using assms by (subst parse_args.simps) (simp add: shift_args_def algebra_simps)

text \<open>An option that is the last word takes the null pointer at the end of \<open>argv\<close> as its value.\<close>

lemma parse_last_option:
  assumes "name \<noteq> []" and "hd name = 45" and "flag_named name (flags p) = Some j"
  shows "parse_args i 1 [Some name, None] p =
    obind (flags_parse_flag (flags p ! j) None p) (\<lambda>(ok, flag, p). Ok (ok, p\<lparr>flags := (flags p)[j := flag]\<rparr>))"
proof -
  have z: "parse_args i (- 1) [] q = Ok (True, q)" for q by (subst parse_args.simps) simp
  show ?thesis
    using assms by (subst parse_args.simps) (auto simp: shift_args_def z Let_def intro!: arg_cong [of _ _ "obind _"])
qed

lemma flag_named_nth:
  assumes "j < length fs" and "flag_option (fs ! j) = name" and "\<And>i. i < j \<Longrightarrow> flag_option (fs ! i) \<noteq> name"
  shows "flag_named name fs = Some j"
  using assms
proof (induction fs arbitrary: j)
  case Nil
  then show ?case by simp
next
  case (Cons f fs)
  show ?case
  proof (cases j)
    case 0
    then show ?thesis using Cons.prems by simp
  next
    case (Suc k)
    have "flag_option (fs ! i) \<noteq> name" if "i < k" for i using Cons.prems(3) [of "Suc i"] that Suc by simp
    then have "flag_named name fs = Some k" using Cons.prems(1,2) Suc by (intro Cons.IH) simp_all
    moreover have "flag_option f \<noteq> name" using Cons.prems(3) [of 0] Suc by simp
    ultimately show ?thesis using Suc by simp
  qed
qed

lemma flag_named_cong: "map flag_option fs = map flag_option gs \<Longrightarrow> flag_named name fs = flag_named name gs"
proof (induction fs arbitrary: gs)
  case Nil
  then show ?case by simp
next
  case (Cons f fs)
  then obtain g gs' where "gs = g # gs'" "flag_option g = flag_option f" "map flag_option fs = map flag_option gs'"
    by (cases gs) auto
  with Cons.IH show ?case by simp
qed

section \<open>Integer options\<close>

text \<open>
  A table whose flag \<open>j\<close> has the \<open>j\<close>-th name, starting with a dash, and sets integer variable \<open>j\<close>, and an option
  with its value as two words of the command line.
\<close>

definition int_table :: "cstr list \<Rightarrow> Flag list \<Rightarrow> bool" where
  "int_table names fs \<longleftrightarrow> map flag_option fs = names \<and> map flag_type fs = map FLAG_INT [0..<length names]
     \<and> distinct names \<and> list_all (\<lambda>n. n \<noteq> [] \<and> hd n = 45) names \<and> list_all (\<lambda>f. \<not> flag_required f) fs"

definition option_args :: "cstr list \<Rightarrow> nat \<times> nat \<Rightarrow> cstr list" where
  "option_args names s = [names ! fst s, decimal (snd s)]"

abbreviation option_words :: "cstr list \<Rightarrow> nat \<times> nat \<Rightarrow> cstr option list" where
  "option_words names s \<equiv> map Some (option_args names s)"

definition set_option :: "nat \<times> nat \<Rightarrow> (nat \<Rightarrow> u32) \<Rightarrow> (nat \<Rightarrow> u32)" where
  "set_option s f = f(fst s := of_nat (snd s))"

lemma int_table_named:
  assumes "int_table names fs" and "j < length names"
  shows "flag_named (names ! j) fs = Some j" and "flag_type (fs ! j) = FLAG_INT j" and "names ! j \<noteq> []"
    and "hd (names ! j) = 45" and "length fs = length names"
proof -
  have m: "map flag_option fs = names" "map flag_type fs = map FLAG_INT [0..<length names]" "distinct names"
    using assms(1) by (simp_all add: int_table_def)
  show l: "length fs = length names" using arg_cong [OF m(1), of length] by simp
  have "map flag_type fs ! j = FLAG_INT j" using m(2) assms(2) by simp
  then show "flag_type (fs ! j) = FLAG_INT j" using l assms(2) by simp
  have o: "flag_option (fs ! i) = names ! i" if "i < length names" for i
    unfolding m(1) [symmetric] by (rule nth_map [symmetric]) (use that l in simp)
  show "flag_named (names ! j) fs = Some j"
  proof (rule flag_named_nth)
    show "flag_option (fs ! i) \<noteq> names ! j" if "i < j" for i
      using that assms(2) m(3) by (simp add: o nth_eq_iff_index_eq)
  qed (use o l assms(2) in simp_all)
  show "names ! j \<noteq> []" "hd (names ! j) = 45" using assms by (simp_all add: int_table_def list_all_length)
qed

lemma int_table_provided:
  assumes "int_table names fs" and "j < length names"
  shows "int_table names (fs[j := (fs ! j)\<lparr>flag_provided := b\<rparr>])"
proof -
  have l: "length fs = length names" by (rule int_table_named(5) [OF assms])
  have "map flag_option (fs[j := (fs ! j)\<lparr>flag_provided := b\<rparr>]) = map flag_option fs"
    "map flag_type (fs[j := (fs ! j)\<lparr>flag_provided := b\<rparr>]) = map flag_type fs"
    using l assms(2) by (simp_all add: map_update list_update_same_conv)
  moreover have "list_all (\<lambda>f. \<not> flag_required f) (fs[j := (fs ! j)\<lparr>flag_provided := b\<rparr>])"
    using assms(1) assms(2) l by (simp add: int_table_def list_all_length nth_list_update)
  ultimately show ?thesis using assms(1) by (simp add: int_table_def)
qed

lemma parse_int_options:
  assumes "int_table names (flags p)" and "list_all (\<lambda>(j, n). j < length names \<and> int n \<le> LONG_MAX) settings"
    and "\<not> errno_range p" and "0 \<le> m"
  shows "\<exists>fs. int_table names fs \<and> parse_args i (2 * int (length settings) + m) (concat (map (option_words names) settings) @ rest) p
    = parse_args i m rest (p\<lparr>flags := fs, int_var := fold set_option settings (int_var p)\<rparr>)"
  using assms(1,2,3)
proof (induction settings arbitrary: p)
  case Nil
  then show ?case by (intro exI [of _ "flags p"]) simp
next
  case (Cons s settings)
  obtain j n where s: "s = (j, n)" by (cases s)
  have j: "j < length names" "int n \<le> LONG_MAX" using Cons.prems(2) s by simp_all
  note t = int_table_named [OF Cons.prems(1) j(1)]
  let ?fs = "(flags p)[j := (flags p ! j)\<lparr>flag_provided := True\<rparr>]"
  let ?p = "p\<lparr>int_var := set_option s (int_var p), flags := ?fs\<rparr>"
  have f: "flags_parse_flag (flags p ! j) (Some (decimal n)) p =
      Ok (True, (flags p ! j)\<lparr>flag_provided := True\<rparr>, p\<lparr>int_var := set_option s (int_var p)\<rparr>)"
    using j(2) t(2) Cons.prems(3) by (simp add: flags_parse_flag_def strtol_decimal s set_option_def)
  have a: "0 \<le> 2 * int (length settings) + m" using assms(4) by simp
  have step: "parse_args i (2 * int (length (s # settings)) + m) (concat (map (option_words names) (s # settings)) @ rest) p =
      parse_args i (2 * int (length settings) + m) (concat (map (option_words names) settings) @ rest) ?p"
    using parse_option [OF t(3,4,1) a, of i "Some (decimal n)" "concat (map (option_words names) settings) @ rest"]
    by (simp add: option_args_def s f [unfolded s] algebra_simps)
  obtain fs where "int_table names fs"
    "parse_args i (2 * int (length settings) + m) (concat (map (option_words names) settings) @ rest) ?p =
      parse_args i m rest (?p\<lparr>flags := fs, int_var := fold set_option settings (int_var ?p)\<rparr>)"
    using Cons.IH [of ?p] int_table_provided [OF Cons.prems(1) j(1)] Cons.prems by auto
  then show ?case by (intro exI [of _ fs] conjI trans [OF step]) simp_all
qed

lemma fold_set_option:
  "fold set_option settings f j = (case map_of (rev settings) j of None \<Rightarrow> f j | Some n \<Rightarrow> of_nat n)"
  by (induction settings arbitrary: f) (auto simp: set_option_def map_add_def split: option.splits)

lemma int_table_complete: "int_table names fs \<Longrightarrow> \<not> list_ex not_given fs"
  by (auto simp: int_table_def not_given_def list_all_iff list_ex_iff)

end
