(* ===== verification/Tfsfmt.thy ===== *)
theory Tfsfmt
  imports Flags FuseDriver
begin

text \<open>
  The formatter, \<open>src/tagfs/tfsfmt/src/tfsfmt.c\<close>: the subcommands \<open>format\<close>, \<open>write-files\<close> and \<open>write-tag\<close> from
  the command line to the mapped image, and \<open>main\<close>.

  The host is a record: the image files and the source files by name, for which lengths \<open>mmap\<close> succeeds, and
  whether \<open>msync\<close> fails. A mapping is the part of the file that the requested length covers; pages are not
  modelled, so an access past either is a \<open>Fault\<close>. A source file is its bytes and is not the image itself; a
  null pointer given to a string function is a \<open>Fault\<close>, and so is an \<open>int\<close> product that overflows. A
  run returns the code given to \<open>exit\<close>, if \<open>exit\<close> is called, and the host. Messages are not modelled.
\<close>

section \<open>The host\<close>

datatype Failure = FAIL_PARSE_ARGS | FAIL_IMG_NOT_FOUND | FAIL_UNSPECIFIED | FAIL_GENERIC

record host =
  images :: "cstr \<Rightarrow> image option"
  sources :: "cstr \<Rightarrow> u8 list option"
  mmap_ok :: "nat \<Rightarrow> bool"
  msync_fails :: bool

type_synonym run = "(Failure option \<times> host) outcome"

text \<open>The status that the caller of the program sees; falling off the end of \<open>main\<close> is 0.\<close>

fun exit_status :: "Failure option \<Rightarrow> nat" where
  "exit_status None = 0"
| "exit_status (Some FAIL_PARSE_ARGS) = 0"
| "exit_status (Some FAIL_IMG_NOT_FOUND) = 1"
| "exit_status (Some FAIL_UNSPECIFIED) = 2"
| "exit_status (Some FAIL_GENERIC) = 3"

definition open_image :: "host \<Rightarrow> cstr option \<Rightarrow> image option" where
  "open_image h name = (case name of None \<Rightarrow> None | Some n \<Rightarrow> images h n)"

definition mmap_file :: "host \<Rightarrow> image \<Rightarrow> nat \<Rightarrow> image option" where
  "mmap_file h file n = (if n = 0 \<or> \<not> mmap_ok h n then None else Some (file\<lparr>ilen := min (ilen file) n\<rparr>))"

text \<open>The mapping is shared: what is written to it is in the file, whatever \<open>msync\<close> returns.\<close>

definition finish :: "cstr option \<Rightarrow> image \<Rightarrow> image \<Rightarrow> host \<Rightarrow> Failure option \<times> host" where
  "finish name file img h =
     (if msync_fails h then Some FAIL_GENERIC else None,
      case name of None \<Rightarrow> h | Some n \<Rightarrow> h\<lparr>images := (images h)(n := Some (img\<lparr>ilen := ilen file\<rparr>))\<rparr>)"

text \<open>A product of two \<open>int\<close>s that is converted to \<open>size_t\<close>.\<close>

definition int_product :: "u32 \<Rightarrow> u32 \<Rightarrow> nat outcome" where
  "int_product a b =
     (let v = sint a * sint b in
      if v < - (2 ^ 31) \<or> 2 ^ 31 \<le> v then Fault ''signed overflow'' else Ok (nat (v mod 2 ^ 64)))"

section \<open>Searches\<close>

text \<open>The first index from \<open>i\<close> up to \<open>n\<close> that passes the test, with an \<open>int\<close> counter.\<close>

function scan :: "(nat \<Rightarrow> bool outcome) \<Rightarrow> nat \<Rightarrow> nat \<Rightarrow> nat option outcome" where
  "scan test n i =
     (if i < n then obind (test i) (\<lambda>b. if b then Ok (Some i) else scan test n (i + 1)) else Ok None)"
  by pat_completeness auto
termination
  by (relation "measure (\<lambda>(test, n, i). n - i)") auto

text \<open>
  The same loop from 0 with a \<open>uint16_t\<close> counter. When the counter wraps, the search starts over on the
  same image, and never ends.
\<close>

definition scan16 :: "(nat \<Rightarrow> bool outcome) \<Rightarrow> nat \<Rightarrow> nat option outcome" where
  "scan16 test n =
     obind (scan test (min n 65536) 0) (\<lambda>r. if r = None \<and> 65536 \<le> n then Diverged else Ok r)"

declare scan.simps [simp del]

section \<open>Tags\<close>

fun filter_valid_tag_names :: "cstr option list \<Rightarrow> cstr list outcome" where
  "filter_valid_tag_names [] = Ok []"
| "filter_valid_tag_names (None # names) = Fault ''strlen of a null pointer''"
| "filter_valid_tag_names (Some name # names) =
     obind (filter_valid_tag_names names) (\<lambda>rest. Ok (if length name < 28 then name # rest else rest))"

definition tag_name_addr :: "int \<Rightarrow> nat \<Rightarrow> int" where
  "tag_name_addr tag_meta i = tag_meta + 32 * int i"

definition tag_meta_entry_count :: "image \<Rightarrow> nat" where
  "tag_meta_entry_count img = unat (m_tag_meta_sector_count img * m_sector_size img) div 32"

definition find_or_create_tag :: "int \<Rightarrow> cstr \<Rightarrow> image \<Rightarrow> (u16 \<times> image) outcome" where
  "find_or_create_tag tag_meta name img =
     obind (scan16 (\<lambda>i. img_strcmp img name (tag_name_addr tag_meta i)) (tag_meta_entry_count img)) (\<lambda>found.
     case found of Some i \<Rightarrow> Ok (of_nat (i + 1), img)
     | None \<Rightarrow>
       obind (scan16 (\<lambda>i. tag_metadata_entry_is_free img (tag_name_addr tag_meta i)) (tag_meta_entry_count img)) (\<lambda>free.
       case free of None \<Rightarrow> Ok (0, img)
       | Some i \<Rightarrow>
         obind (img_store img (tag_name_addr tag_meta i) (name @ [0])) (\<lambda>img. Ok (of_nat (i + 1), img))))"

definition link_addr :: "int \<Rightarrow> nat \<Rightarrow> int" where
  "link_addr tag_file i = tag_file + 4 * int i"

definition tag_file_entry_count :: "image \<Rightarrow> nat" where
  "tag_file_entry_count img = unat (m_tag_file_sector_count img * m_sector_size img) div 4"

definition is_linked :: "image \<Rightarrow> int \<Rightarrow> u16 \<Rightarrow> u16 \<Rightarrow> nat \<Rightarrow> bool outcome" where
  "is_linked img tag_file tag_id file_id i =
     obind (img_ld16 img (link_addr tag_file i)) (\<lambda>t.
     if t = tag_id then obind (img_ld16 img (link_addr tag_file i + 2)) (\<lambda>f. Ok (f = file_id)) else Ok False)"

definition link_tag_to_file :: "int \<Rightarrow> u16 \<Rightarrow> u16 \<Rightarrow> image \<Rightarrow> (bool \<times> image) outcome" where
  "link_tag_to_file tag_file tag_id file_id img =
     obind (scan (is_linked img tag_file tag_id file_id) (tag_file_entry_count img) 0) (\<lambda>linked.
     if linked \<noteq> None then Ok (True, img) else
     obind (scan (\<lambda>i. tag_file_entry_is_free img (link_addr tag_file i)) (tag_file_entry_count img) 0) (\<lambda>free.
     case free of None \<Rightarrow> Ok (False, img)
     | Some i \<Rightarrow>
       obind (img_st16 img (link_addr tag_file i) tag_id) (\<lambda>img.
       obind (img_st16 img (link_addr tag_file i + 2) file_id) (\<lambda>img. Ok (True, img)))))"

section \<open>The subcommand \<open>format\<close>\<close>

record Format_Options =
  fo_sector_count :: u32
  fo_sector_size :: u32
  fo_file_meta_sector_count :: u32
  fo_tag_meta_sector_count :: u32
  fo_tag_file_sector_count :: u32
  fo_fat_sector_count :: u32
  fo_image_name :: "cstr option"

text \<open>The parser's tables and variables when \<open>main\<close> starts.\<close>

definition no_flags :: parser where
  "no_flags = \<lparr>flags = [], positionals = [], str_var = (\<lambda>_. None), int_var = (\<lambda>_. 0), bool_var = (\<lambda>_. False),
     errno_range = False\<rparr>"

text \<open>Integer variables 0 to 5 are the fields of the options in their order; string variable 0 is the name.\<close>

definition format_options_of :: "parser \<Rightarrow> Format_Options" where
  "format_options_of p =
     \<lparr>fo_sector_count = int_var p 0, fo_sector_size = int_var p 1, fo_file_meta_sector_count = int_var p 2,
      fo_tag_meta_sector_count = int_var p 3, fo_tag_file_sector_count = int_var p 4,
      fo_fat_sector_count = int_var p 5, fo_image_name = str_var p 0\<rparr>"

definition format_flags :: "parser \<Rightarrow> parser outcome" where
  "format_flags p =
     (let p = p\<lparr>int_var := (int_var p)(0 := 1000, 1 := 512, 2 := 10, 3 := 10, 4 := 10, 5 := 2),
                str_var := (str_var p)(0 := None)\<rparr> in
      obind (flags_add_cstr_positional 0 (ascii ''image_name'') (ascii ''name of the image to format'') p) (\<lambda>p.
      obind (flags_add_int_flag 0 (ascii ''-sector-count'') (ascii ''number of sectors in the image'') False p) (\<lambda>p.
      obind (flags_add_int_flag 1 (ascii ''-sector-size'') (ascii ''size of a sector'') False p) (\<lambda>p.
      obind (flags_add_int_flag 2 (ascii ''-fm-sectors'')
        (ascii ''number of sectors in the file metadata section'') False p) (\<lambda>p.
      obind (flags_add_int_flag 3 (ascii ''-tm-sectors'')
        (ascii ''number of sectors in the tag metadata section'') False p) (\<lambda>p.
      obind (flags_add_int_flag 4 (ascii ''-tf-sectors'')
        (ascii ''number of sectors in the tag file map'') False p) (\<lambda>p.
      flags_add_int_flag 5 (ascii ''-fat-sectors'')
        (ascii ''number of sectors in the file allocation table (FAT)'') False p)))))))"

text \<open>The program name and the subcommand are shifted off; \<open>None\<close> is the call of \<open>exit\<close>.\<close>

definition parse_rest :: "int \<Rightarrow> cstr option list \<Rightarrow> parser \<Rightarrow> parser option outcome" where
  "parse_rest argc argv p =
     obind (shift_args argc argv) (\<lambda>(program_name, argc, argv).
     obind (shift_args argc argv) (\<lambda>(subcommand, argc, argv).
     obind (flags_parse_flags argc argv p) (\<lambda>(ok, p). Ok (if ok then Some p else None))))"

definition parse_format_options :: "int \<Rightarrow> cstr option list \<Rightarrow> parser \<Rightarrow> Format_Options option outcome" where
  "parse_format_options argc argv p =
     obind (format_flags p) (\<lambda>p. obind (parse_rest argc argv p) (\<lambda>r. Ok (map_option format_options_of r)))"

definition write_metadata :: "Format_Options \<Rightarrow> image \<Rightarrow> image outcome" where
  "write_metadata options img =
     obind (img_st32 img 4 1) (\<lambda>img.
     obind (img_st32 img 8 (fo_sector_count options)) (\<lambda>img.
     obind (img_st32 img 12 (fo_sector_size options)) (\<lambda>img.
     obind (img_st32 img 16 (fo_file_meta_sector_count options)) (\<lambda>img.
     obind (img_st32 img 20 (fo_tag_meta_sector_count options)) (\<lambda>img.
     obind (img_st32 img 24 (fo_tag_file_sector_count options)) (\<lambda>img.
     img_st32 img 28 (fo_fat_sector_count options)))))))"

definition format_image :: "int \<Rightarrow> cstr option list \<Rightarrow> host \<Rightarrow> run" where
  "format_image argc argv h =
     obind (parse_format_options argc argv no_flags) (\<lambda>parsed.
     case parsed of None \<Rightarrow> Ok (Some FAIL_PARSE_ARGS, h)
     | Some options \<Rightarrow>
       (case open_image h (fo_image_name options) of None \<Rightarrow> Ok (Some FAIL_IMG_NOT_FOUND, h)
        | Some file \<Rightarrow>
          obind (int_product (fo_sector_count options) (fo_sector_size options)) (\<lambda>n.
          case mmap_file h file n of None \<Rightarrow> Ok (Some FAIL_GENERIC, h)
          | Some img \<Rightarrow>
            obind (img_store img 0 (replicate n 0)) (\<lambda>img.
            obind (write_metadata options img) (\<lambda>img.
            Ok (finish (fo_image_name options) file img h))))))"

section \<open>The subcommand \<open>write-files\<close>\<close>

record Write_Files_Options =
  wo_file_specs :: "cstr option list"
  wo_tags :: "cstr option list"
  wo_image_name :: "cstr option"

text \<open>
  String variables 0 to 31 are the file specifications, 32 to 63 the tags, 64 the image name; integer
  variables 0 and 1 count the specifications and the tags.
\<close>

definition write_files_options_of :: "parser \<Rightarrow> Write_Files_Options" where
  "write_files_options_of p =
     \<lparr>wo_file_specs = map (str_var p) [0..<nat (sint (int_var p 0))],
      wo_tags = map (\<lambda>i. str_var p (32 + i)) [0..<nat (sint (int_var p 1))], wo_image_name = str_var p 64\<rparr>"

definition write_files_flags :: "parser \<Rightarrow> parser outcome" where
  "write_files_flags p =
     obind (flags_add_cstr_positional 64 (ascii ''image_name'') (ascii ''name of the image to format'') p) (\<lambda>p.
     obind (flags_add_cstr_array_flag 0 0 32 (ascii ''-file'')
       (ascii ''source path and destination name of the file in `<source path>:<destination name>` format'') True p) (\<lambda>p.
     flags_add_cstr_array_flag 32 1 32 (ascii ''-tag'') (ascii ''name of a tag to link to provided files'') False p))"

definition parse_write_files_options :: "int \<Rightarrow> cstr option list \<Rightarrow> parser \<Rightarrow> Write_Files_Options option outcome" where
  "parse_write_files_options argc argv p =
     obind (write_files_flags p) (\<lambda>p.
     obind (parse_rest argc argv p) (\<lambda>r. Ok (map_option write_files_options_of r)))"

text \<open>
  The two calls of \<open>strtok\<close>: the source path up to the first colon, and the rest, or else the part of the path
  after the last slash.
\<close>

definition after_last_slash :: "cstr \<Rightarrow> cstr" where
  "after_last_slash path = rev (takeWhile (\<lambda>c. c \<noteq> 47) (rev path))"

definition split_spec :: "cstr option \<Rightarrow> (cstr \<times> cstr) outcome" where
  "split_spec spec =
     (case spec of None \<Rightarrow> Fault ''strtok of a null pointer''
      | Some s \<Rightarrow>
        let t = dropWhile (\<lambda>c. c = 58) s;
            src_file_path = takeWhile (\<lambda>c. c \<noteq> 58) t;
            rest = drop (length src_file_path + 1) t in
        if t = [] then Fault ''strrchr of a null pointer''
        else Ok (src_file_path, if rest = [] then after_last_slash src_file_path else rest))"

definition is_tagfs_file :: "cstr \<Rightarrow> nat \<Rightarrow> bool" where
  "is_tagfs_file dst_file_name file_size \<longleftrightarrow> file_size \<le> 4294967295 \<and> length dst_file_name < 24"

text \<open>The sections of the mapped image, as computed before the first file.\<close>

record section_pointers =
  p_file_meta :: int
  p_tag_meta :: int
  p_tag_file :: int
  p_fat :: int
  p_data :: int

definition section_pointers_of :: "image \<Rightarrow> section_pointers" where
  "section_pointers_of img =
     \<lparr>p_file_meta = get_file_metadata img, p_tag_meta = get_tag_metadata img, p_tag_file = get_tag_file_array img,
      p_fat = get_fat img, p_data = get_data img\<rparr>"

definition fat_is_free :: "section_pointers \<Rightarrow> image \<Rightarrow> nat \<Rightarrow> bool outcome" where
  "fat_is_free P img i = obind (img_ld16 img (fat_at (p_fat P) (int i))) (\<lambda>e. Ok (e = 0))"

text \<open>\<open>fread\<close> stores the bytes that are left, at most a sector.\<close>

definition fread_store :: "image \<Rightarrow> int \<Rightarrow> u8 list \<Rightarrow> image outcome" where
  "fread_store img a bs = (if bs = [] then Ok img else img_store img a bs)"

lemma scan_Some:
  "scan test n i = Ok (Some j) \<Longrightarrow> i \<le> j \<and> j < n"
proof (induction "n - i" arbitrary: i)
  case 0
  then show ?case by (subst (asm) scan.simps) simp
next
  case (Suc k)
  from Suc.prems have lt: "i < n" by (subst (asm) scan.simps) (simp split: if_splits)
  with Suc.prems obtain b where b: "(if b then Ok (Some i) else scan test n (i + 1)) = Ok (Some j)"
    by (subst (asm) scan.simps) auto
  show ?case
  proof (cases b)
    case True
    with b lt show ?thesis by simp
  next
    case False
    with b have "scan test n (i + 1) = Ok (Some j)" by simp
    then have "i + 1 \<le> j \<and> j < n" using Suc.hyps by (intro Suc.hyps(1)) simp_all
    then show ?thesis by simp
  qed
qed

text \<open>
  The loop over the sectors of a file, from the FAT entry \<open>i\<close> that the caller found: the count of bytes copied
  and the image.
\<close>

function copy_sectors ::
  "section_pointers \<Rightarrow> nat \<Rightarrow> u8 list \<Rightarrow> nat \<Rightarrow> nat \<Rightarrow> image \<Rightarrow> (nat \<times> image) outcome" where
  "copy_sectors P num_fat_entries src fat_index bytes_copied img =
     (let bs = take (sector img) (drop bytes_copied src) in
      obind (fread_store img (sector_at img (p_data P) (int fat_index)) bs) (\<lambda>img.
      let bytes_copied = bytes_copied + length bs in
      if bytes_copied = length src then
        obind (img_st16 img (fat_at (p_fat P) (int fat_index)) 0xffff) (\<lambda>img. Ok (bytes_copied, img))
      else
        obind (scan (fat_is_free P img) num_fat_entries (fat_index + 1)) (\<lambda>free.
        case free of None \<Rightarrow>
          obind (img_st16 img (fat_at (p_fat P) (int fat_index)) 0xffff) (\<lambda>img. Ok (bytes_copied, img))
        | Some new_fat_index \<Rightarrow>
          obind (img_st16 img (fat_at (p_fat P) (int fat_index)) (of_nat new_fat_index)) (\<lambda>img.
          copy_sectors P num_fat_entries src new_fat_index bytes_copied img))))"
  by pat_completeness auto
termination
  by (relation "measure (\<lambda>(P, n, src, i, c, img). n - i)") (auto dest!: scan_Some)

declare copy_sectors.simps [simp del]

fun link_tags :: "section_pointers \<Rightarrow> u16 \<Rightarrow> cstr list \<Rightarrow> image \<Rightarrow> image outcome" where
  "link_tags P file_id [] img = Ok img"
| "link_tags P file_id (name # names) img =
     obind (find_or_create_tag (p_tag_meta P) name img) (\<lambda>(tag_id, img).
     obind (if 0 < tag_id then link_tag_to_file (p_tag_file P) tag_id file_id img else Ok (False, img)) (\<lambda>(_, img).
     link_tags P file_id names img))"

text \<open>One round of the loop over the file specifications.\<close>

definition write_one_file :: "host \<Rightarrow> section_pointers \<Rightarrow> cstr list \<Rightarrow> cstr option \<Rightarrow> image \<Rightarrow> image outcome" where
  "write_one_file h P tags spec img =
     obind (split_spec spec) (\<lambda>(src_file_path, dst_file_name).
     case sources h src_file_path of None \<Rightarrow> Ok img
     | Some src \<Rightarrow>
       if \<not> is_tagfs_file dst_file_name (length src) then Ok img else
       obind (scan16 (\<lambda>i. file_metadata_entry_is_free img (meta_first (p_file_meta P) (int i)))
               (count_file_meta_entries img)) (\<lambda>slot.
       case slot of None \<Rightarrow> Ok img
       | Some entry \<Rightarrow>
         let file_id = of_nat (entry + 1) :: u16; num_fat_entries = fat_count img in
         obind (scan (fat_is_free P img) num_fat_entries 0) (\<lambda>free.
         case free of None \<Rightarrow> Ok img
         | Some fat_index \<Rightarrow>
           obind (img_st32 img (meta_first (p_file_meta P) (int (unat file_id) - 1)) (of_nat fat_index)) (\<lambda>img.
           obind (copy_sectors P num_fat_entries src fat_index 0 img) (\<lambda>(bytes_copied, img).
           obind (img_st32 img (meta_size (p_file_meta P) (int (unat file_id) - 1)) (of_nat bytes_copied)) (\<lambda>img.
           obind (img_store img (meta_name (p_file_meta P) (int (unat file_id) - 1)) (dst_file_name @ [0])) (\<lambda>img.
           link_tags P file_id tags img)))))))"

fun write_each_file :: "host \<Rightarrow> section_pointers \<Rightarrow> cstr list \<Rightarrow> cstr option list \<Rightarrow> image \<Rightarrow> image outcome" where
  "write_each_file h P tags [] img = Ok img"
| "write_each_file h P tags (spec # specs) img =
     obind (write_one_file h P tags spec img) (write_each_file h P tags specs)"

text \<open>\<open>read_fs_metadata\<close> of the whole record, and the length that is mapped.\<close>

definition read_fs_metadata :: "image \<Rightarrow> nat outcome" where
  "read_fs_metadata file =
     (if ilen file < 36 then Fault ''FS_Metadata not filled''
      else Ok (unat (m_sector_count file * m_sector_size file)))"

definition write_files :: "int \<Rightarrow> cstr option list \<Rightarrow> host \<Rightarrow> run" where
  "write_files argc argv h =
     obind (parse_write_files_options argc argv no_flags) (\<lambda>parsed.
     case parsed of None \<Rightarrow> Ok (Some FAIL_PARSE_ARGS, h)
     | Some options \<Rightarrow>
       obind (filter_valid_tag_names (wo_tags options)) (\<lambda>tags.
       case open_image h (wo_image_name options) of None \<Rightarrow> Ok (Some FAIL_IMG_NOT_FOUND, h)
       | Some file \<Rightarrow>
         obind (read_fs_metadata file) (\<lambda>n.
         case mmap_file h file n of None \<Rightarrow> Ok (Some FAIL_GENERIC, h)
         | Some img \<Rightarrow>
           obind (write_each_file h (section_pointers_of img) tags (wo_file_specs options) img) (\<lambda>img.
           Ok (finish (wo_image_name options) file img h)))))"

section \<open>The subcommand \<open>write-tag\<close> and \<open>main\<close>\<close>

text \<open>String variable 0 is the image name, 1 the tag name.\<close>

definition write_tag_flags :: "parser \<Rightarrow> parser outcome" where
  "write_tag_flags p =
     obind (flags_add_cstr_positional 0 (ascii ''image_name'') (ascii ''name of the image to format'') p) (\<lambda>p.
     flags_add_cstr_flag 1 (ascii ''-tag'') (ascii ''name of the tag to write'') True p)"

definition parse_write_tag_options ::
  "int \<Rightarrow> cstr option list \<Rightarrow> parser \<Rightarrow> (cstr option \<times> cstr option) option outcome" where
  "parse_write_tag_options argc argv p =
     obind (write_tag_flags p) (\<lambda>p.
     obind (parse_rest argc argv p) (\<lambda>r. Ok (map_option (\<lambda>p. (str_var p 0, str_var p 1)) r)))"

text \<open>The loop that steps over the entries that are free.\<close>

function skip_free_tags :: "image \<Rightarrow> int \<Rightarrow> int outcome" where
  "skip_free_tags img tag_meta =
     obind (tag_metadata_entry_is_free img tag_meta) (\<lambda>free.
     if free then skip_free_tags img (tag_meta + 32) else Ok tag_meta)"
  by pat_completeness auto
termination
  by (relation "measure (\<lambda>(img, a). nat (int (ilen img) - a))")
     (auto simp: tag_metadata_entry_is_free_def img_ld8_def img_at_def split: if_splits)

declare skip_free_tags.simps [simp del]

definition write_tag :: "int \<Rightarrow> cstr option list \<Rightarrow> host \<Rightarrow> run" where
  "write_tag argc argv h =
     obind (parse_write_tag_options argc argv no_flags) (\<lambda>parsed.
     case parsed of None \<Rightarrow> Ok (Some FAIL_PARSE_ARGS, h)
     | Some (image_name, tag_name) \<Rightarrow>
       (case open_image h image_name of None \<Rightarrow> Ok (Some FAIL_IMG_NOT_FOUND, h)
        | Some file \<Rightarrow>
          obind (read_fs_metadata file) (\<lambda>n.
          case mmap_file h file n of None \<Rightarrow> Ok (Some FAIL_GENERIC, h)
          | Some img \<Rightarrow>
            obind (skip_free_tags img (get_tag_metadata img)) (\<lambda>tag_meta.
            case tag_name of None \<Rightarrow> Fault ''strlen of a null pointer''
            | Some name \<Rightarrow>
              if 28 \<le> length name then Ok (Some FAIL_GENERIC, h)
              else obind (img_store img tag_meta (name @ [0])) (\<lambda>img. Ok (finish image_name file img h))))))"

definition tfsfmt :: "cstr list \<Rightarrow> host \<Rightarrow> run" where
  "tfsfmt args h =
     (let argc = int (length args); argv = map Some args @ [None] in
      if length argv \<le> 1 then Fault ''read past argv''
      else case argv ! 1 of None \<Rightarrow> Ok (Some FAIL_PARSE_ARGS, h)
      | Some subcommand \<Rightarrow>
        if subcommand = ascii ''format'' then format_image argc argv h
        else if subcommand = ascii ''write-files'' then write_files argc argv h
        else if subcommand = ascii ''write-tag'' then write_tag argc argv h
        else Ok (Some FAIL_PARSE_ARGS, h))"

end
