(* ===== verification/Formatting.thy ===== *)
theory Formatting
  imports Tfsfmt
begin

text \<open>
  What \<open>tfsfmt format\<close> leaves in the image file, and what \<open>tfsfmt write-tag\<close> makes of a formatted image: the
  options that a command line stands for, the empty image they describe, and the searches of the library on it.
\<close>

section \<open>The options on the command line\<close>

definition format_names :: "cstr list" where
  "format_names = map ascii [''-sector-count'', ''-sector-size'', ''-fm-sectors'', ''-tm-sectors'', ''-tf-sectors'',
     ''-fat-sectors'']"

text \<open>Option \<open>j\<close> after the settings of a command line: the last one given, or the default.\<close>

definition format_default :: "nat \<Rightarrow> u32" where
  "format_default = (\<lambda>_. 0)(0 := 1000, 1 := 512, 2 := 10, 3 := 10, 4 := 10, 5 := 2)"

definition option_value :: "(nat \<times> nat) list \<Rightarrow> nat \<Rightarrow> u32" where
  "option_value settings j = (case map_of (rev settings) j of None \<Rightarrow> format_default j | Some n \<Rightarrow> of_nat n)"

definition options_from :: "(nat \<times> nat) list \<Rightarrow> cstr \<Rightarrow> Format_Options" where
  "options_from settings target =
     \<lparr>fo_sector_count = option_value settings 0, fo_sector_size = option_value settings 1,
      fo_file_meta_sector_count = option_value settings 2, fo_tag_meta_sector_count = option_value settings 3,
      fo_tag_file_sector_count = option_value settings 4, fo_fat_sector_count = option_value settings 5,
      fo_image_name = Some target\<rparr>"

definition settings_ok :: "(nat \<times> nat) list \<Rightarrow> bool" where
  "settings_ok settings \<longleftrightarrow> list_all (\<lambda>(j, n). j < 6 \<and> int n \<le> LONG_MAX) settings"

lemma format_flags_start:
  obtains fs pos where "int_table format_names fs" and "flag_type pos = FLAG_CSTR 0" and
    "format_flags no_flags = Ok (no_flags\<lparr>flags := fs, positionals := [pos], int_var := format_default\<rparr>)"
proof -
  have d: "(\<lambda>_. 0 :: u32)(0 := 1000, Suc 0 := 512, 2 := 10, 3 := 10, 4 := 10, 5 := 2) = format_default"
    by (simp add: format_default_def)
  note defs = format_flags_def flags_add_cstr_positional_def flags_add_int_flag_def add_flag_def no_flags_def
    FLAG_COUNT_def POSITIONAL_COUNT_def fun_upd_idem
  obtain p where p: "format_flags no_flags = Ok p" by (simp add: defs)
  then have "p = no_flags\<lparr>flags := flags p, positionals := [hd (positionals p)], int_var := format_default\<rparr>"
    "int_table format_names (flags p)" "flag_type (hd (positionals p)) = FLAG_CSTR 0"
    by (auto simp: defs d int_table_def format_names_def ascii_def upt_rec)
  with p that [of "flags p" "hd (positionals p)"] show ?thesis by simp
qed

lemma parse_format:
  assumes "target = [] \<or> hd target \<noteq> 45" and "settings_ok before" and "settings_ok after"
  shows "parse_format_options (2 * int (length before + length after) + 3)
      (program # subcommand # concat (map (option_words format_names) before) @ Some target #
       concat (map (option_words format_names) after) @ [None]) no_flags
    = Ok (Some (options_from (before @ after) target))"
proof -
  let ?m = "2 * int (length after) + 0"
  let ?before = "concat (map (option_words format_names) before)"
    and ?after = "concat (map (option_words format_names) after)"
  obtain fs0 pos where start: "int_table format_names fs0" "flag_type pos = FLAG_CSTR 0"
    "format_flags no_flags = Ok (no_flags\<lparr>flags := fs0, positionals := [pos], int_var := format_default\<rparr>)"
    by (rule format_flags_start)
  let ?p0 = "no_flags\<lparr>flags := fs0, positionals := [pos], int_var := format_default\<rparr>"
  have six: "length format_names = 6" by (simp add: format_names_def)
  have s: "list_all (\<lambda>(j, n). j < length format_names \<and> int n \<le> LONG_MAX) before"
    "list_all (\<lambda>(j, n). j < length format_names \<and> int n \<le> LONG_MAX) after"
    using assms(2,3) by (simp_all add: settings_ok_def six)
  obtain fs1 where t1: "int_table format_names fs1" and r1:
    "parse_args 0 (2 * int (length before) + (?m + 1)) (?before @ Some target # ?after @ [None]) ?p0 =
     parse_args 0 (?m + 1) (Some target # ?after @ [None])
       (?p0\<lparr>flags := fs1, int_var := fold set_option before (int_var ?p0)\<rparr>)"
    using parse_int_options [OF _ s(1), of ?p0 "?m + 1" 0 "Some target # ?after @ [None]"] start(1)
    by (auto simp: no_flags_def)
  let ?p1 = "?p0\<lparr>flags := fs1, int_var := fold set_option before (int_var ?p0)\<rparr>"
  let ?f = "pos\<lparr>flag_provided := True\<rparr>"
  let ?p2 = "?p1\<lparr>str_var := (str_var ?p1)(0 := Some target), positionals := [?f]\<rparr>"
  have r2: "parse_args 0 (?m + 1) (Some target # ?after @ [None]) ?p1 = parse_args (0 + 1) ?m (?after @ [None]) ?p2"
    by (subst parse_positional [where f = ?f and p' = "?p1\<lparr>str_var := (str_var ?p1)(0 := Some target)\<rparr>"])
       (use assms(1) start(2) in \<open>simp_all add: flags_parse_flag_def\<close>)
  obtain fs2 where t2: "int_table format_names fs2" and r3:
    "parse_args (0 + 1) ?m (?after @ [None]) ?p2 =
     parse_args (0 + 1) 0 [None] (?p2\<lparr>flags := fs2, int_var := fold set_option after (int_var ?p2)\<rparr>)"
    using parse_int_options [OF _ s(2), of ?p2 0 "0 + 1" "[None]"] t1 by (auto simp: no_flags_def)
  let ?p3 = "?p2\<lparr>flags := fs2, int_var := fold set_option after (int_var ?p2)\<rparr>"
  have "parse_args 0 (2 * int (length before) + (?m + 1)) (?before @ Some target # ?after @ [None]) ?p0 = Ok (True, ?p3)"
    unfolding r1 r2 r3 by (rule parse_args_end)
  moreover have "\<not> list_ex not_given (positionals ?p3)" "\<not> list_ex not_given (flags ?p3)"
    using int_table_complete [OF t2] by (simp_all add: not_given_def)
  ultimately have parsed: "flags_parse_flags (2 * int (length before) + (?m + 1))
      (?before @ Some target # ?after @ [None]) ?p0 = Ok (True, ?p3)"
    by (simp add: flags_parse_flags_def)
  have n: "2 * int (length before + length after) + 3 - 1 - 1 = 2 * int (length before) + (?m + 1)" by simp
  have v: "int_var ?p3 j = option_value (before @ after) j" for j
    by (simp add: fold_set_option option_value_def map_add_def split: option.splits)
  have "options_from (before @ after) target = format_options_of ?p3"
    unfolding format_options_of_def options_from_def v by (simp add: no_flags_def)
  then show ?thesis
    unfolding parse_format_options_def parse_rest_def start(3)
    by (simp only: obind.simps shift_args_def list.case prod.case n parsed if_True option.map)
qed

section \<open>The formatted image\<close>

text \<open>The file after \<open>format\<close>: the header, zeros up to the mapped length, and the rest of the file as it was.\<close>

definition formatted :: "Format_Options \<Rightarrow> nat \<Rightarrow> image \<Rightarrow> image \<Rightarrow> bool" where
  "formatted options n file img \<longleftrightarrow>
     ld32 (imem img) 4 = 1 \<and> m_sector_count img = fo_sector_count options
   \<and> m_sector_size img = fo_sector_size options
   \<and> m_file_meta_sector_count img = fo_file_meta_sector_count options
   \<and> m_tag_meta_sector_count img = fo_tag_meta_sector_count options
   \<and> m_tag_file_sector_count img = fo_tag_file_sector_count options
   \<and> m_fat_sector_count img = fo_fat_sector_count options
   \<and> (\<forall>x. x < 4 \<or> 32 \<le> x \<and> x < n \<longrightarrow> imem img x = 0) \<and> (\<forall>x. n \<le> x \<longrightarrow> imem img x = imem file x)"

text \<open>Options whose sections fit on the disk, with a data sector for every FAT entry.\<close>

definition bytes_of :: "Format_Options \<Rightarrow> nat" where
  "bytes_of options = unat (fo_sector_count options) * unat (fo_sector_size options)"

definition geometry_ok :: "Format_Options \<Rightarrow> bool" where
  "geometry_ok options \<longleftrightarrow>
     (let s = unat (fo_sector_size options); fm = unat (fo_file_meta_sector_count options);
          fats = unat (fo_fat_sector_count options) in
      64 \<le> s \<and> bytes_of options < 2 ^ 31 \<and> fm * s div 32 < 2 ^ 16 \<and> fats * s div 2 < 2 ^ 16
    \<and> (1 + fm + unat (fo_tag_meta_sector_count options) + unat (fo_tag_file_sector_count options) + fats
        + fats * s div 2) * s \<le> bytes_of options)"

lemma formatted_header:
  assumes "formatted options n file img"
  shows "sector img = unat (fo_sector_size options)"
    "sections img = 1 + unat (fo_file_meta_sector_count options) + unat (fo_tag_meta_sector_count options)
       + unat (fo_tag_file_sector_count options) + unat (fo_fat_sector_count options)"
    "fat_entries img = unat (fo_fat_sector_count options) * unat (fo_sector_size options) div 2"
    "meta_entries img = unat (fo_file_meta_sector_count options) * unat (fo_sector_size options) div 32"
  using assms by (simp_all add: formatted_def sector_def sections_def fat_entries_def meta_entries_def)

lemma formatted_wf:
  assumes f: "formatted options (bytes_of options) file img" and "geometry_ok options"
    and "bytes_of options \<le> ilen img"
  shows "img_wf img" and "(sections img + fat_entries img) * sector img \<le> bytes_of options"
proof -
  note g = assms(2) [unfolded geometry_ok_def Let_def, folded formatted_header [OF f]]
  show le: "(sections img + fat_entries img) * sector img \<le> bytes_of options" using g by simp
  have b: "bytes_of options < 4294967296" using g by simp
  have "64 \<le> sections img * sector img"
    using mult_le_mono [of 1 "sections img" 64 "sector img"] g by (simp add: formatted_header(2) [OF f])
  moreover have s: "sections img * sector img \<le> bytes_of options" by (rule order_trans [OF _ le]) simp
  ultimately have "36 \<le> ilen img" using assms(3) by linarith
  then show "img_wf img"
    using g le_less_trans [OF le b] le_less_trans [OF s b] order_trans [OF le assms(3)] by (simp add: img_wf_def)
qed

lemma formatted_length:
  assumes f: "formatted options n file img" and "geometry_ok options"
  shows "unat (m_sector_count img * m_sector_size img) = bytes_of options"
proof -
  have "bytes_of options < 4294967296" using assms(2) by (simp add: geometry_ok_def Let_def)
  then show ?thesis using f by (simp add: formatted_def bytes_of_def unat_word_ariths)
qed

lemma write_metadata_formats:
  assumes "36 \<le> n" and "n \<le> ilen img"
  shows "\<exists>img'. obind (img_store img 0 (replicate n 0)) (write_metadata options) = Ok img'
    \<and> formatted options n img img' \<and> ilen img' = ilen img"
proof -
  let ?zeros = "mem_put (imem img) 0 (replicate n 0)"
  let ?m = "st32 (st32 (st32 (st32 (st32 (st32 (st32 ?zeros 4 1) 8 (fo_sector_count options)) 12 (fo_sector_size options))
    16 (fo_file_meta_sector_count options)) 20 (fo_tag_meta_sector_count options))
    24 (fo_tag_file_sector_count options)) 28 (fo_fat_sector_count options)"
  have st: "img_st32 (j\<lparr>imem := m\<rparr>) (int a) v = Ok (j\<lparr>imem := st32 m a v\<rparr>)" if "a + 4 \<le> ilen j" for j m a v
    using img_access(6) [of a "j\<lparr>imem := m\<rparr>" v] that by simp
  have store: "img_store img 0 (replicate n 0) = Ok (img\<lparr>imem := ?zeros\<rparr>)"
    using img_access(8) [of 0 "replicate n 0" img] assms(2) by simp
  have w: "write_metadata options (img\<lparr>imem := ?zeros\<rparr>) = Ok (img\<lparr>imem := ?m\<rparr>)"
    unfolding write_metadata_def using st [of 4] st [of 8] st [of 12] st [of 16] st [of 20] st [of 24] st [of 28] assms
    by simp
  have out: "?m x = ?zeros x" if "x < 4 \<or> 32 \<le> x" for x
    using that by (elim disjE) (simp_all add: cell32.st_frame)
  have m0: "?zeros x = (if x < n then 0 else imem img x)" for x by (simp add: mem_put_def)
  have "formatted options n img (img\<lparr>imem := ?m\<rparr>)"
    unfolding formatted_def
  proof (intro conjI allI impI)
    show "imem (img\<lparr>imem := ?m\<rparr>) x = 0" if "x < 4 \<or> 32 \<le> x \<and> x < n" for x
      using out [of x] m0 [of x] that assms(1) by auto
    show "imem (img\<lparr>imem := ?m\<rparr>) x = imem img x" if "n \<le> x" for x
      using out [of x] m0 [of x] that assms(1) by simp
  qed (simp_all add: m_sector_count_def m_sector_size_def m_file_meta_sector_count_def
      m_tag_meta_sector_count_def m_tag_file_sector_count_def m_fat_sector_count_def cell32.ld_st_disjoint)
  then show ?thesis
    using store w by (intro exI [of _ "img\<lparr>imem := ?m\<rparr>"]) simp
qed

lemma formatted_empty:
  assumes f: "formatted options (bytes_of options) file img" and "geometry_ok options"
    and "bytes_of options \<le> ilen img"
  shows "i < meta_entries img \<Longrightarrow> entry_free img i" and "i < fat_entries img \<Longrightarrow> fat_entry img i = 0"
    and "sector img \<le> x \<Longrightarrow> x < bytes_of options \<Longrightarrow> imem img x = 0"
proof -
  note w = formatted_wf [OF assms]
  note b = section_bounds [OF w(1)]
  have d: "data_base img \<le> bytes_of options" using w(2) by (simp add: data_base_def add_mult_distrib)
  show z: "imem img x = 0" if "sector img \<le> x" "x < bytes_of options" for x
    using f that b(5) by (simp add: formatted_def)
  show "entry_free img i" if "i < meta_entries img"
    using b(1) [OF that] b(13) d unfolding entry_free_def by (intro z) (simp_all add: meta_base_def)
  show "fat_entry img i = 0" if "i < fat_entries img"
  proof -
    have "imem img (fat_base img + 2 * i) = 0" "imem img (fat_base img + 2 * i + 1) = 0"
      using b(2) [OF that] b(10-12) d by (auto intro!: z)
    then show ?thesis by (simp add: fat_entry_def ld16_def)
  qed
qed

lemma map_option_words: "map Some (concat (map (option_args names) ss)) = concat (map (option_words names) ss)"
  by (simp add: map_concat comp_def)

lemma format_run:
  assumes "target = [] \<or> hd target \<noteq> 45" and "settings_ok before" and "settings_ok after"
  shows "tfsfmt (program # ascii ''format'' # concat (map (option_args format_names) before) @ target #
      concat (map (option_args format_names) after)) h =
    (let options = options_from (before @ after) target in
     case images h target of None \<Rightarrow> Ok (Some FAIL_IMG_NOT_FOUND, h)
     | Some file \<Rightarrow>
       obind (int_product (fo_sector_count options) (fo_sector_size options)) (\<lambda>n.
       case mmap_file h file n of None \<Rightarrow> Ok (Some FAIL_GENERIC, h)
       | Some img \<Rightarrow>
         obind (img_store img 0 (replicate n 0)) (\<lambda>img.
         obind (write_metadata options img) (\<lambda>img. Ok (finish (fo_image_name options) file img h)))))"
proof -
  have l: "length (concat (map (option_args format_names) ss)) = 2 * length ss" for ss
    by (induction ss) (simp_all add: option_args_def)
  have argc: "int (length (program # ascii ''format'' # concat (map (option_args format_names) before) @ target #
      concat (map (option_args format_names) after))) = 2 * int (length before + length after) + 3"
    by (simp add: l)
  have o: "fo_image_name (options_from ss target) = Some target" for ss by (simp add: options_from_def)
  show ?thesis
    unfolding tfsfmt_def Let_def argc format_image_def
    using parse_format [OF assms, of "Some program" "Some (ascii ''format'')"]
    by (simp add: map_option_words o open_image_def ascii_def)
qed

lemma int_product_ok:
  assumes "unat a * unat b < 2 ^ 31" and "0 < unat a" and "0 < unat b"
  shows "int_product a b = Ok (unat a * unat b)"
proof -
  have le: "unat a \<le> unat a * unat b" "unat b \<le> unat a * unat b" using assms(2,3) by simp_all
  have s: "sint c = int (unat c)" if "unat c < 2 ^ 31" for c :: u32
    using that by (intro sint_small) simp
  have "sint a * sint b = int (unat a * unat b)"
    using s [OF le_less_trans [OF le(1) assms(1)]] s [OF le_less_trans [OF le(2) assms(1)]] by simp
  moreover have "int_product a b = Ok v" if "sint a * sint b = int v" "v < 2 ^ 31" for v
    using that by (simp add: int_product_def)
  ultimately show ?thesis using assms(1) by blast
qed

lemma format_effect:
  assumes "target = [] \<or> hd target \<noteq> 45" and "settings_ok before" and "settings_ok after"
    and opt: "options = options_from (before @ after) target" and g: "geometry_ok options"
    and io: "images h target = Some file" "bytes_of options \<le> ilen file" "mmap_ok h (bytes_of options)"
  shows "\<exists>img. tfsfmt (program # ascii ''format'' # concat (map (option_args format_names) before) @ target #
        concat (map (option_args format_names) after)) h =
      Ok (if msync_fails h then Some FAIL_GENERIC else None, h\<lparr>images := (images h)(target := Some img)\<rparr>)
    \<and> formatted options (bytes_of options) file img \<and> ilen img = ilen file"
proof -
  let ?n = "bytes_of options" and ?c = "fo_sector_count options" and ?s = "fo_sector_size options"
  have s: "64 \<le> unat ?s" "unat ?c * unat ?s < 2 ^ 31"
    using g by (auto simp: geometry_ok_def Let_def bytes_of_def)
  have c: "0 < unat ?c"
  proof (rule ccontr)
    assume "\<not> 0 < unat ?c"
    then show False using g by (auto simp: geometry_ok_def Let_def bytes_of_def)
  qed
  have n64: "64 \<le> ?n" using mult_le_mono [of 1 "unat ?c" 64 "unat ?s"] s(1) c by (simp add: bytes_of_def)
  have p: "int_product ?c ?s = Ok ?n"
    unfolding bytes_of_def by (rule int_product_ok) (use s c in simp_all)
  have m: "mmap_file h file ?n = Some (file\<lparr>ilen := ?n\<rparr>)"
    using n64 io(2,3) by (simp add: mmap_file_def min_absorb2)
  obtain img where w: "obind (img_store (file\<lparr>ilen := ?n\<rparr>) 0 (replicate ?n 0)) (write_metadata options) = Ok img"
    "formatted options ?n (file\<lparr>ilen := ?n\<rparr>) img" "ilen img = ?n"
    using write_metadata_formats [of ?n "file\<lparr>ilen := ?n\<rparr>" options] n64 by auto
  have t: "fo_image_name options = Some target" by (simp add: opt options_from_def)
  have "tfsfmt (program # ascii ''format'' # concat (map (option_args format_names) before) @ target #
        concat (map (option_args format_names) after)) h =
      obind (obind (img_store (file\<lparr>ilen := ?n\<rparr>) 0 (replicate ?n 0)) (write_metadata options))
        (\<lambda>img. Ok (finish (Some target) file img h))"
    unfolding format_run [OF assms(1-3)] Let_def opt [symmetric]
    by (simp only: io(1) option.case p obind.simps m obind_assoc t)
  moreover have "formatted options ?n file (img\<lparr>ilen := ilen file\<rparr>)"
    using w(2) by (simp add: formatted_def m_sector_count_def m_sector_size_def m_file_meta_sector_count_def
        m_tag_meta_sector_count_def m_tag_file_sector_count_def m_fat_sector_count_def)
  ultimately show ?thesis
    by (intro exI [of _ "img\<lparr>ilen := ilen file\<rparr>"]) (simp only: w(1) obind.simps finish_def option.case, simp)
qed

section \<open>Properties\<close>

text \<open>
  (C21) The command line of \<open>format\<close>. Options may stand before and after the image name, in any order. Each field is
  the last value given for it, or its default. A value is any number that a \<open>long\<close> holds, cut to 32 bits: the
  range check of the parser accepts numbers that an \<open>int\<close> cannot hold, and the image is formatted
  with their remainder modulo \<open>2 ^ 32\<close>.
\<close>

theorem format_options_parsed:
  assumes "target = [] \<or> hd target \<noteq> 45" and "settings_ok before" and "settings_ok after"
  shows "parse_format_options (2 * int (length before + length after) + 3)
      (program # subcommand # concat (map (option_words format_names) before) @ Some target #
       concat (map (option_words format_names) after) @ [None]) no_flags
    = Ok (Some (options_from (before @ after) target))"
  by (rule parse_format [OF assms])

theorem format_options_parsed_witness:
  "parse_format_options 9
      ([Some [112], Some [102], Some (ascii ''-fm-sectors''), Some (decimal 7), Some (ascii ''-sector-size''),
        Some (decimal 64), Some [105], Some (ascii ''-fm-sectors''), Some (decimal 4294967299), None]) no_flags
    = Ok (Some \<lparr>fo_sector_count = 1000, fo_sector_size = 64, fo_file_meta_sector_count = 3,
        fo_tag_meta_sector_count = 10, fo_tag_file_sector_count = 10, fo_fat_sector_count = 2,
        fo_image_name = Some [105]\<rparr>)"
  using format_options_parsed [of "[105]" "[(2, 7), (1, 64)]" "[(2, 4294967299)]" "Some [112]" "Some [102]"]
  by (simp add: settings_ok_def LONG_MAX_def options_from_def option_value_def format_default_def option_args_def
      format_names_def)

text \<open>
  (C16) \<open>tfsfmt format\<close>. When the sections and a data sector for every FAT entry fit in the file and \<open>mmap\<close>
  succeeds, the program writes a well-formed image with the geometry of the options: every entry and every FAT
  entry is free, no name is found, and the file beyond the image is not touched. A failing \<open>msync\<close> changes the exit
  code, and nothing else.
\<close>

theorem format_makes_empty_image:
  assumes "target = [] \<or> hd target \<noteq> 45" and "settings_ok before" and "settings_ok after"
    and "options = options_from (before @ after) target" and "geometry_ok options"
    and "images h target = Some file" and "bytes_of options \<le> ilen file" and "mmap_ok h (bytes_of options)"
  shows "\<exists>img. tfsfmt (program # ascii ''format'' # concat (map (option_args format_names) before) @ target #
        concat (map (option_args format_names) after)) h =
      Ok (if msync_fails h then Some FAIL_GENERIC else None, h\<lparr>images := (images h)(target := Some img)\<rparr>)
    \<and> formatted options (bytes_of options) file img \<and> ilen img = ilen file \<and> img_wf img
    \<and> (\<forall>i < meta_entries img. entry_free img i) \<and> (\<forall>i < fat_entries img. fat_entry img i = 0)
    \<and> (\<forall>name. name \<noteq> [] \<longrightarrow> length name < 24 \<longrightarrow> hd name \<noteq> 0 \<longrightarrow>
         get_file_id_from_name img (get_file_metadata img) name = Ok 0)"
proof -
  obtain img where run: "tfsfmt (program # ascii ''format'' # concat (map (option_args format_names) before) @ target #
        concat (map (option_args format_names) after)) h =
      Ok (if msync_fails h then Some FAIL_GENERIC else None, h\<lparr>images := (images h)(target := Some img)\<rparr>)"
    and f: "formatted options (bytes_of options) file img" and l: "ilen img = ilen file"
    using format_effect [OF assms(1-8)] by blast
  have le: "bytes_of options \<le> ilen img" using assms(7) l by simp
  note w = formatted_wf [OF f assms(5) le] and e = formatted_empty [OF f assms(5) le]
  have "get_file_id_from_name img (get_file_metadata img) name = Ok 0"
    if n: "name \<noteq> []" "length name < 24" "hd name \<noteq> 0" for name
  proof (rule lookup_cases [OF w(1) n(2)])
    fix k assume k: "k < meta_entries img" "has_name img k name"
    then have "imem img (meta_base img k + 8) = hd name"
      using n(1) by (cases name) (auto simp: has_name_def bytes_at_def upt_conv_Cons simp del: upt_Suc)
    with e(1) [OF k(1)] n(3) show ?thesis by (simp add: entry_free_def)
  qed simp
  with run f l w e(1,2) show ?thesis by blast
qed

definition host_with :: "u8 \<Rightarrow> nat \<Rightarrow> host" where
  "host_with fill n = \<lparr>images = [[105] \<mapsto> \<lparr>imem = (\<lambda>x. fill), ilen = n\<rparr>], sources = (\<lambda>_. None),
     mmap_ok = (\<lambda>_. True), msync_fails = False\<rparr>"

lemma default_options:
  "options_from [] target = \<lparr>fo_sector_count = 1000, fo_sector_size = 512, fo_file_meta_sector_count = 10,
     fo_tag_meta_sector_count = 10, fo_tag_file_sector_count = 10, fo_fat_sector_count = 2, fo_image_name = Some target\<rparr>"
  "bytes_of (options_from [] target) = 512000" "geometry_ok (options_from [] target)"
  by (simp_all add: options_from_def option_value_def format_default_def bytes_of_def geometry_ok_def)

theorem format_makes_empty_image_witness:
  "\<exists>img. tfsfmt [[116], ascii ''format'', [105]] (host_with 0xAA 512000) =
      Ok (None, (host_with 0xAA 512000)\<lparr>images := [[105] \<mapsto> img]\<rparr>)
    \<and> img_wf img \<and> (\<forall>i < meta_entries img. entry_free img i)"
  using format_makes_empty_image [of "[105]" "[]" "[]" "options_from [] [105]" "host_with 0xAA 512000"
      "\<lparr>imem = (\<lambda>x. 0xAA), ilen = 512000\<rparr>" "[116]"]
  by (auto simp: default_options(2,3) settings_ok_def host_with_def)

text \<open>
  An option that is the last word of the command line has no value: the parser shifts the null pointer at the end of
  \<open>argv\<close> into it, and \<open>strtol\<close> dereferences it, whatever was given before.
\<close>

theorem option_without_value_faults:
  assumes "settings_ok before" and "j < 6"
  shows "tfsfmt (program # ascii ''format'' # concat (map (option_args format_names) before) @ [format_names ! j]) h
    = Fault ''strtol of a null pointer''"
proof -
  obtain fs0 pos where start: "int_table format_names fs0" "flag_type pos = FLAG_CSTR 0"
    "format_flags no_flags = Ok (no_flags\<lparr>flags := fs0, positionals := [pos], int_var := format_default\<rparr>)"
    by (rule format_flags_start)
  let ?p = "no_flags\<lparr>flags := fs0, positionals := [pos], int_var := format_default\<rparr>"
  have six: "length format_names = 6" by (simp add: format_names_def)
  have s: "list_all (\<lambda>(j, n). j < length format_names \<and> int n \<le> LONG_MAX) before"
    using assms(1) by (simp add: settings_ok_def six)
  obtain fs where t: "int_table format_names fs" and r:
    "parse_args 0 (2 * int (length before) + 1) (concat (map (option_words format_names) before) @
       [Some (format_names ! j), None]) ?p =
     parse_args 0 1 [Some (format_names ! j), None] (?p\<lparr>flags := fs, int_var := fold set_option before (int_var ?p)\<rparr>)"
    using parse_int_options [OF _ s, of ?p 1 0 "[Some (format_names ! j), None]"] start(1) by (auto simp: no_flags_def)
  have j: "j < length format_names" using assms(2) six by simp
  note n = int_table_named [OF t j]
  have null: "flags_parse_flag (fs ! j) None q = Fault ''strtol of a null pointer''" for q
    using n(2) by (simp add: flags_parse_flag_def)
  have "parse_args 0 1 [Some (format_names ! j), None] (?p\<lparr>flags := fs, int_var := fold set_option before (int_var ?p)\<rparr>)
    = Fault ''strtol of a null pointer''"
    by (subst parse_last_option [OF n(3,4), where j = j]) (simp_all add: null n(1))
  then have f: "flags_parse_flags (2 * int (length before) + 1) (concat (map (option_words format_names) before) @
      [Some (format_names ! j), None]) ?p = Fault ''strtol of a null pointer''"
    unfolding flags_parse_flags_def r by simp
  have l: "length (concat (map (option_args format_names) before)) = 2 * length before"
    by (induction before) (simp_all add: option_args_def)
  show ?thesis
    using f unfolding tfsfmt_def format_image_def parse_format_options_def start(3)
    by (simp add: parse_rest_def shift_args_def map_option_words l ascii_def algebra_simps)
qed

theorem option_without_value_faults_witness:
  "tfsfmt [[116], ascii ''format'', ascii ''-sector-size'', decimal 64, ascii ''-sector-count''] (host_with 0 64)
    = Fault ''strtol of a null pointer''"
  using option_without_value_faults [of "[(1, 64)]" 0 "[116]"]
  by (simp add: settings_ok_def LONG_MAX_def option_args_def format_names_def)

section \<open>The subcommand \<open>write-tag\<close>\<close>

lemma skip_free_tags_zero:
  assumes "\<And>x. a \<le> x \<Longrightarrow> x < ilen img \<Longrightarrow> imem img x = 0"
  shows "skip_free_tags img (int a) = Fault ''outside the image''"
  using assms
proof (induction "ilen img - a" arbitrary: a rule: less_induct)
  case less
  show ?case
  proof (cases "a < ilen img")
    case True
    then have "tag_metadata_entry_is_free img (int a) = Ok True"
      using less.prems [of a] by (simp add: tag_metadata_entry_is_free_def img_access(1))
    moreover have "skip_free_tags img (int (a + 32)) = Fault ''outside the image''"
      by (rule less.hyps) (use True less.prems in auto)
    ultimately show ?thesis by (subst skip_free_tags.simps) simp
  next
    case False
    then show ?thesis by (subst skip_free_tags.simps) (simp add: tag_metadata_entry_is_free_def img_ld8_def)
  qed
qed

lemma skip_free_tags_used:
  assumes "\<And>j. j < k \<Longrightarrow> imem img (a + 32 * j) = 0" and "imem img (a + 32 * k) \<noteq> 0" and "a + 32 * k < ilen img"
  shows "skip_free_tags img (int a) = Ok (int (a + 32 * k))"
  using assms
proof (induction k arbitrary: a)
  case 0
  then show ?case by (subst skip_free_tags.simps) (simp add: tag_metadata_entry_is_free_def img_access(1))
next
  case (Suc k)
  have "skip_free_tags img (int (a + 32)) = Ok (int (a + 32 + 32 * k))"
    by (rule Suc.IH) (use Suc.prems(1) [of "Suc _"] Suc.prems(2,3) in \<open>simp_all add: algebra_simps\<close>)
  moreover have "tag_metadata_entry_is_free img (int a) = Ok True"
    using Suc.prems(1) [of 0] Suc.prems(3) by (simp add: tag_metadata_entry_is_free_def img_access(1))
  ultimately show ?case by (subst skip_free_tags.simps) (simp add: algebra_simps)
qed

lemma parse_write_tag:
  assumes "target = [] \<or> hd target \<noteq> 45"
  shows "parse_write_tag_options 5 [program, subcommand, Some (ascii ''-tag''), value, Some target, None] no_flags
    = Ok (Some (Some target, value))"
proof -
  let ?tag = "ascii ''-tag''"
  note defs = write_tag_flags_def flags_add_cstr_positional_def flags_add_cstr_flag_def add_flag_def no_flags_def
    FLAG_COUNT_def POSITIONAL_COUNT_def
  let ?flag = "\<lambda>b. \<lparr>flag_type = FLAG_CSTR 1, flag_option = ?tag, flag_description = ascii ''name of the tag to write'',
      flag_provided = b, flag_required = True\<rparr>"
  let ?pos = "\<lambda>b. \<lparr>flag_type = FLAG_CSTR 0, flag_option = ascii ''image_name'',
      flag_description = ascii ''name of the image to format'', flag_provided = b, flag_required = True\<rparr>"
  let ?p = "no_flags\<lparr>positionals := [?pos False], flags := [?flag False]\<rparr>"
  let ?q = "no_flags\<lparr>str_var := (\<lambda>_. None)(1 := value), positionals := [?pos False], flags := [?flag True]\<rparr>"
  let ?r = "no_flags\<lparr>str_var := (\<lambda>_. None)(1 := value, 0 := Some target), positionals := [?pos True], flags := [?flag True]\<rparr>"
  have start: "write_tag_flags no_flags = Ok ?p" by (simp add: defs)
  have "parse_args 0 (1 + 2) [Some ?tag, value, Some target, None] ?p = parse_args 0 1 [Some target, None] ?q"
    by (subst parse_option [where j = 0]) (simp_all add: ascii_def flags_parse_flag_def no_flags_def)
  moreover have "parse_args 0 (0 + 1) [Some target, None] ?q = parse_args (0 + 1) 0 [None] ?r"
    by (subst parse_positional [where f = "?pos True" and p' = "?r\<lparr>positionals := [?pos False]\<rparr>"])
       (use assms in \<open>simp_all add: flags_parse_flag_def no_flags_def\<close>)
  ultimately have "parse_args 0 3 [Some ?tag, value, Some target, None] ?p = Ok (True, ?r)"
    by (simp add: parse_args_end)
  then have "flags_parse_flags 3 [Some ?tag, value, Some target, None] ?p = Ok (True, ?r)"
    by (simp add: flags_parse_flags_def not_given_def)
  then show ?thesis
    by (simp add: parse_write_tag_options_def start parse_rest_def shift_args_def)
qed

lemma write_tag_run:
  assumes "target = [] \<or> hd target \<noteq> 45" and "images h target = Some file" and "36 \<le> ilen file"
    and "unat (m_sector_count file * m_sector_size file) = ilen file" and "mmap_ok h (ilen file)"
  shows "tfsfmt [program, ascii ''write-tag'', ascii ''-tag'', name, target] h =
    obind (skip_free_tags file (get_tag_metadata file)) (\<lambda>tag_meta.
      if 28 \<le> length name then Ok (Some FAIL_GENERIC, h)
      else obind (img_store file tag_meta (name @ [0])) (\<lambda>img. Ok (finish (Some target) file img h)))"
proof -
  have m: "mmap_file h file (ilen file) = Some file" using assms(3,5) by (auto simp: mmap_file_def)
  have r: "read_fs_metadata file = Ok (ilen file)" using assms(3,4) by (simp add: read_fs_metadata_def)
  show ?thesis
    using parse_write_tag [OF assms(1), of "Some program" "Some (ascii ''write-tag'')" "Some name"]
    by (simp add: tfsfmt_def write_tag_def ascii_def open_image_def assms(2) r m)
qed

text \<open>
  (C34) \<open>tfsfmt write-tag\<close> after \<open>tfsfmt format\<close>, the use for which the subcommand was written. The loop that looks for the
  first empty tag entry steps over the entries that are free: on an image without tags it
  leaves the tag section, finds only zeros to the end of the image, and reads past the mapping.
\<close>

theorem write_tag_after_format_faults:
  assumes "target = [] \<or> hd target \<noteq> 45" and "settings_ok settings"
    and "options = options_from settings target" and "geometry_ok options"
    and "images h target = Some file" and "bytes_of options = ilen file" and "mmap_ok h (ilen file)"
    and "tfsfmt (program # ascii ''format'' # concat (map (option_args format_names) settings) @ [target]) h = Ok (None, h')"
  shows "tfsfmt [program, ascii ''write-tag'', ascii ''-tag'', name, target] h' = Fault ''outside the image''"
proof -
  have mm: "mmap_ok h (bytes_of options)" and le0: "bytes_of options \<le> ilen file"
    using assms(6,7) by simp_all
  obtain img where run: "h' = h\<lparr>images := (images h)(target := Some img)\<rparr>"
    and f: "formatted options (bytes_of options) file img" and l: "ilen img = ilen file"
    using format_effect [OF assms(1,2) _ _ assms(4,5) le0 mm, of "[]" program] assms(3,8)
    by (auto simp: settings_ok_def)
  have le: "bytes_of options \<le> ilen img" using assms(6) l by simp
  note w = formatted_wf [OF f assms(4) le] and e = formatted_empty [OF f assms(4) le]
  note b = section_bounds [OF w(1)]
  have i: "images h' target = Some img" "mmap_ok h' (ilen img)" "36 \<le> ilen img"
    using run assms(7) l w(1) by (simp_all add: img_wf_def)
  have n: "unat (m_sector_count img * m_sector_size img) = ilen img"
    using formatted_length [OF f assms(4)] assms(6) l by simp
  have "skip_free_tags img (get_tag_metadata img) = Fault ''outside the image''"
    unfolding geometry(6) [OF w(1)]
    by (rule skip_free_tags_zero) (use e(3) b(10) l assms(6) in auto)
  then show ?thesis by (simp add: write_tag_run [OF assms(1) i(1,3) n i(2)])
qed

theorem write_tag_after_format_faults_witness:
  "\<exists>h. tfsfmt [[116], ascii ''format'', [105]] (host_with 0xAA 512000) = Ok (None, h)
    \<and> tfsfmt [[116], ascii ''write-tag'', ascii ''-tag'', ascii ''mytag'', [105]] h = Fault ''outside the image''"
proof -
  have t: "[105 :: u8] = [] \<or> hd [105 :: u8] \<noteq> 45" by simp
  have g: "geometry_ok (options_from [] [105])" "bytes_of (options_from [] [105]) = 512000"
    by (simp_all only: default_options(2,3))
  have i: "images (host_with 0xAA 512000) [105] = Some \<lparr>imem = (\<lambda>x. 0xAA), ilen = 512000\<rparr>"
    "mmap_ok (host_with 0xAA 512000) n" for n
    by (simp_all add: host_with_def)
  obtain h where h: "tfsfmt [[116], ascii ''format'', [105]] (host_with 0xAA 512000) = Ok (None, h)"
    using format_effect [OF t _ _ refl _ i(1), of "[]" "[]" "[116]"] g i(2)
    by (auto simp: settings_ok_def host_with_def)
  have "tfsfmt [[116], ascii ''write-tag'', ascii ''-tag'', ascii ''mytag'', [105]] h = Fault ''outside the image''"
    by (rule write_tag_after_format_faults [OF t _ refl g(1) i(1), where h' = h])
       (use g h i(2) in \<open>simp_all add: settings_ok_def\<close>)
  with h show ?thesis by blast
qed

end
