(* ===== verification/Tagging.thy ===== *)
theory Tagging
  imports Tfsfmt
begin

text \<open>
  Tags and their links in an image: what \<open>find_or_create_tag\<close> and \<open>link_tag_to_file\<close> of the formatter do to
  the tag section, read as a table of names, and to the tag file map, read as a set of pairs.
\<close>

section \<open>Views of the tag sections\<close>

definition tag_addr :: "image \<Rightarrow> nat \<Rightarrow> nat" where "tag_addr img i = tag_base img + 32 * i"

definition tag_named :: "image \<Rightarrow> nat \<Rightarrow> cstr \<Rightarrow> bool" where
  "tag_named img i name \<longleftrightarrow> bytes_at (imem img) (tag_addr img i) (length name) = name
     \<and> imem img (tag_addr img i + length name) = 0"

definition tag_free :: "image \<Rightarrow> nat \<Rightarrow> bool" where
  "tag_free img i \<longleftrightarrow> imem img (tag_addr img i) = 0"

definition link :: "image \<Rightarrow> nat \<Rightarrow> u16 \<times> u16" where
  "link img i = (ld16 (imem img) (link_base img + 4 * i), ld16 (imem img) (link_base img + 4 * i + 2))"

text \<open>The relation between tags and files that the image holds.\<close>

definition links :: "image \<Rightarrow> (u16 \<times> u16) set" where
  "links img = {link img i | i. i < link_entries img \<and> fst (link img i) \<noteq> 0}"

definition tags_wf :: "image \<Rightarrow> bool" where
  "tags_wf img \<longleftrightarrow> img_wf img \<and> tag_entries img < 65536"

definition tag_name_ok :: "cstr \<Rightarrow> bool" where
  "tag_name_ok name \<longleftrightarrow> name \<noteq> [] \<and> hd name \<noteq> 0 \<and> length name < 28"

text \<open>
  \<open>img'\<close> keeps the used tags and links of \<open>img\<close> and every byte outside the two sections.
\<close>

definition extends_tags :: "image \<Rightarrow> image \<Rightarrow> bool" where
  "extends_tags img img' \<longleftrightarrow> ilen img' = ilen img
     \<and> (\<forall>x. x < tag_base img \<or> fat_base img \<le> x \<longrightarrow> imem img' x = imem img x)
     \<and> (\<forall>i < tag_entries img. \<not> tag_free img i \<longrightarrow>
          (\<forall>j < 32. imem img' (tag_addr img i + j) = imem img (tag_addr img i + j)))
     \<and> (\<forall>i < link_entries img. fst (link img i) \<noteq> 0 \<longrightarrow>
          (\<forall>j < 4. imem img' (link_base img + 4 * i + j) = imem img (link_base img + 4 * i + j)))"

lemma extends_tags_geometry:
  assumes "extends_tags img img'" and "tags_wf img"
  shows "tag_entries img' = tag_entries img" "link_entries img' = link_entries img" "tag_base img' = tag_base img"
    "link_base img' = link_base img" "fat_base img' = fat_base img" "tag_addr img' = tag_addr img" "tags_wf img'"
    "get_tag_metadata img' = get_tag_metadata img" "get_tag_file_array img' = get_tag_file_array img"
proof -
  have w: "img_wf img" using assms(2) by (simp add: tags_wf_def)
  have h: "imem img' x = imem img x" if "x < 36" for x
    using assms(1) that section_bounds(5,10) [OF w] by (simp add: extends_tags_def)
  have l: "ilen img' = ilen img" using assms(1) by (simp add: extends_tags_def)
  note s = same_header [OF h l]
  show "tag_entries img' = tag_entries img" "link_entries img' = link_entries img" "tag_base img' = tag_base img"
    "link_base img' = link_base img" "fat_base img' = fat_base img" "tag_addr img' = tag_addr img" "tags_wf img'"
    using s assms(2) by (simp_all add: tag_addr_def fun_eq_iff tags_wf_def)
  then show "get_tag_metadata img' = get_tag_metadata img" "get_tag_file_array img' = get_tag_file_array img"
    using geometry(6,7) [OF w] geometry(6,7) [of img'] by (simp_all add: tags_wf_def)
qed

lemma extends_tags_header:
  assumes "extends_tags img img'" and "tags_wf img"
  shows "meta_base img' = meta_base img" "meta_entries img' = meta_entries img" "sector img' = sector img"
    "fat_entries img' = fat_entries img" "data_base img' = data_base img"
proof -
  have w: "img_wf img" using assms(2) by (simp add: tags_wf_def)
  have h: "imem img' x = imem img x" if "x < 36" for x
    using assms(1) that section_bounds(5,10) [OF w] by (simp add: extends_tags_def)
  have l: "ilen img' = ilen img" using assms(1) by (simp add: extends_tags_def)
  from same_header [OF h l]
  show "meta_base img' = meta_base img" "meta_entries img' = meta_entries img" "sector img' = sector img"
    "fat_entries img' = fat_entries img" "data_base img' = data_base img" by blast+
qed

lemma ld16_bytes: "ld16 m a = ld16 m' a" if "\<And>j. j < 2 \<Longrightarrow> m (a + j) = m' (a + j)"
  by (rule cell16.ld_cong) (use that in simp)

lemma extends_tags_kept:
  assumes e: "extends_tags img img'" and w: "tags_wf img"
  shows "i < tag_entries img \<Longrightarrow> \<not> tag_free img i \<Longrightarrow> \<not> tag_free img' i"
    and "i < tag_entries img \<Longrightarrow> \<not> tag_free img i \<Longrightarrow> length name < 32 \<Longrightarrow> tag_named img' i name = tag_named img i name"
    and "i < link_entries img \<Longrightarrow> fst (link img i) \<noteq> 0 \<Longrightarrow> link img' i = link img i"
proof -
  note g = extends_tags_geometry [OF e w]
  have t: "imem img' (tag_addr img i + j) = imem img (tag_addr img i + j)"
    if "i < tag_entries img" "\<not> tag_free img i" "j < 32" for i j
    using e that by (simp add: extends_tags_def)
  show "\<not> tag_free img' i" if "i < tag_entries img" "\<not> tag_free img i"
    using t [of i 0] that by (simp add: tag_free_def g)
  show "tag_named img' i name = tag_named img i name"
    if "i < tag_entries img" "\<not> tag_free img i" "length name < 32"
  proof -
    have "bytes_at (imem img') (tag_addr img i) (length name) = bytes_at (imem img) (tag_addr img i) (length name)"
      by (rule bytes_at_cong) (use t that in simp)
    then show ?thesis using t [OF that(1,2), of "length name"] that(3) by (simp add: tag_named_def g)
  qed
  show "link img' i = link img i" if "i < link_entries img" "fst (link img i) \<noteq> 0"
  proof -
    have b: "imem img' (link_base img + 4 * i + j) = imem img (link_base img + 4 * i + j)" if "j < 4" for j
      using e \<open>i < link_entries img\<close> \<open>fst (link img i) \<noteq> 0\<close> that by (simp add: extends_tags_def)
    have "ld16 (imem img') (link_base img + 4 * i) = ld16 (imem img) (link_base img + 4 * i)"
      by (rule ld16_bytes) (use b in simp)
    moreover have "ld16 (imem img') (link_base img + 4 * i + 2) = ld16 (imem img) (link_base img + 4 * i + 2)"
      by (rule ld16_bytes) (use b [of "2 + _"] in \<open>simp add: add.assoc\<close>)
    ultimately show ?thesis by (simp add: link_def g)
  qed
qed

lemma extends_tags_refl: "extends_tags img img"
  by (simp add: extends_tags_def)

lemma extends_tags_trans:
  assumes e: "extends_tags img img'" and e': "extends_tags img' img''" and w: "tags_wf img"
  shows "extends_tags img img''"
proof -
  note g = extends_tags_geometry [OF e w] and k = extends_tags_kept [OF e w]
  show ?thesis
    unfolding extends_tags_def
  proof (intro conjI allI impI)
    show "ilen img'' = ilen img" using e e' by (simp add: extends_tags_def)
    show "imem img'' x = imem img x" if "x < tag_base img \<or> fat_base img \<le> x" for x
      using e e' that by (auto simp: extends_tags_def g)
    show "imem img'' (tag_addr img i + j) = imem img (tag_addr img i + j)"
      if "i < tag_entries img" "\<not> tag_free img i" "j < 32" for i j
      using e e' that k(1) [OF that(1,2)] by (simp add: extends_tags_def g)
    show "imem img'' (link_base img + 4 * i + j) = imem img (link_base img + 4 * i + j)"
      if "i < link_entries img" "fst (link img i) \<noteq> 0" "j < 4" for i j
      using e e' that k(3) [OF that(1,2)] by (simp add: extends_tags_def g)
  qed
qed

section \<open>Searches\<close>

interpretation scans: first_match "\<lambda>(test, n). scan test n" "\<lambda>(test, n). n" "\<lambda>(test, n). test" "\<lambda>s i. Ok (Some i)"
    "\<lambda>s. None"
  by unfold_locales (auto simp: scan.simps split: prod.splits intro!: arg_cong [of _ _ "obind _"])

lemma scan_cases:
  assumes "\<And>j. j < n \<Longrightarrow> test j = Ok (P j)"
  obtains (found) k where "k < n" "P k" "\<forall>j < k. \<not> P j" "scan test n 0 = Ok (Some k)"
    | (missing) "\<forall>j < n. \<not> P j" "scan test n 0 = Ok None"
  using scans.scan_total [of "(test, n)" P] assms by auto

lemma scan16_small: "n < 65536 \<Longrightarrow> scan16 test n = scan test n 0"
  by (cases "scan test n 0") (auto simp: scan16_def)

section \<open>Creating a tag\<close>

definition with_tag :: "image \<Rightarrow> nat \<Rightarrow> cstr \<Rightarrow> image" where
  "with_tag img k name = img\<lparr>imem := mem_put (imem img) (tag_addr img k) (name @ [0])\<rparr>"

lemma tag_in_image:
  assumes "tags_wf img" and "i < tag_entries img"
  shows "tag_addr img i + 32 \<le> ilen img" and "tag_addr img i + 32 \<le> link_base img" and "tag_base img \<le> tag_addr img i"
proof -
  have w: "img_wf img" using assms(1) by (simp add: tags_wf_def)
  show "tag_addr img i + 32 \<le> link_base img" using section_bounds(8) [OF w assms(2)] by (simp add: tag_addr_def)
  then show "tag_addr img i + 32 \<le> ilen img" using section_bounds(4,12,13) [OF w] by linarith
qed (simp add: tag_addr_def)

lemma tag_tests:
  assumes w: "tags_wf img" and i: "i < tag_entries img"
  shows "length name < 32 \<Longrightarrow> img_strcmp img name (tag_name_addr (get_tag_metadata img) i) = Ok (tag_named img i name)"
    and "tag_metadata_entry_is_free img (tag_name_addr (get_tag_metadata img) i) = Ok (tag_free img i)"
proof -
  have "img_wf img" using w by (simp add: tags_wf_def)
  then have a: "tag_name_addr (get_tag_metadata img) i = int (tag_addr img i)"
    by (simp add: tag_name_addr_def geometry(6) tag_addr_def)
  note b = tag_in_image(1) [OF w i]
  show "img_strcmp img name (tag_name_addr (get_tag_metadata img) i) = Ok (tag_named img i name)" if "length name < 32"
    unfolding a tag_named_def by (rule img_strcmp_spec) (use b that in linarith)
  show "tag_metadata_entry_is_free img (tag_name_addr (get_tag_metadata img) i) = Ok (tag_free img i)"
    using b by (simp add: tag_metadata_entry_is_free_def tag_free_def a img_access(1))
qed

lemma with_tag_extends:
  assumes w: "tags_wf img" and k: "k < tag_entries img" "tag_free img k" and "length name < 32"
  shows "extends_tags img (with_tag img k name)"
proof -
  note b = tag_in_image [OF w k(1)]
  have fb: "link_base img \<le> fat_base img" using w section_bounds(12) by (simp add: tags_wf_def)
  have out: "imem (with_tag img k name) x = imem img x" if "x < tag_addr img k \<or> tag_addr img k + 32 \<le> x" for x
    using that assms(4) by (auto simp: with_tag_def mem_put_outside)
  show ?thesis
    unfolding extends_tags_def
  proof (intro conjI allI impI out)
    show "ilen (with_tag img k name) = ilen img" by (simp add: with_tag_def)
    show "x < tag_addr img k \<or> tag_addr img k + 32 \<le> x" if "x < tag_base img \<or> fat_base img \<le> x" for x
      using that b fb by linarith
    show "tag_addr img i + j < tag_addr img k \<or> tag_addr img k + 32 \<le> tag_addr img i + j"
      if "i < tag_entries img" "\<not> tag_free img i" "j < 32" for i j
    proof -
      have "i < k \<or> k < i" using that(2) k(2) by (cases "i = k") auto
      then show ?thesis using that(3) by (auto simp: tag_addr_def)
    qed
    show "link_base img + 4 * i + j < tag_addr img k \<or> tag_addr img k + 32 \<le> link_base img + 4 * i + j" for i j
      using b by linarith
  qed
qed

lemma with_tag_named:
  assumes w: "tags_wf img" and k: "k < tag_entries img" "tag_free img k" and n: "length name < 32"
  shows "tag_named (with_tag img k name) k name"
  using extends_tags_geometry(6) [OF with_tag_extends [OF w k n] w]
  by (simp add: tag_named_def with_tag_def bytes_at_mem_put) (simp add: mem_put_def nth_append)

lemma with_tag_links:
  assumes w: "tags_wf img" and k: "k < tag_entries img" "tag_free img k" and n: "length name < 32"
  shows "links (with_tag img k name) = links img"
proof -
  note g = extends_tags_geometry [OF with_tag_extends [OF w k n] w]
  have o: "imem (with_tag img k name) x = imem img x" if "link_base img \<le> x" for x
    using that n tag_in_image(2) [OF w k(1)] by (auto simp: with_tag_def mem_put_outside)
  have "link (with_tag img k name) i = link img i" for i
    unfolding link_def g by (intro arg_cong2 [of _ _ _ _ Pair] ld16_bytes) (simp_all add: o)
  then show ?thesis by (simp add: links_def g)
qed

lemma named_used: "name \<noteq> [] \<Longrightarrow> hd name \<noteq> 0 \<Longrightarrow> tag_named img i name \<Longrightarrow> \<not> tag_free img i"
  by (cases name) (auto simp: tag_named_def tag_free_def bytes_at_def upt_conv_Cons simp del: upt_Suc)

lemma tag_id:
  assumes "tags_wf img" and "k < tag_entries img"
  shows "unat (of_nat (k + 1) :: u16) = k + 1"
  by (subst unat_of_nat) (use assms in \<open>simp add: tags_wf_def\<close>)

lemma find_or_create_cases:
  assumes w: "tags_wf img" and n: "length name < 32"
  obtains (found) k where "k < tag_entries img" "tag_named img k name"
      "find_or_create_tag (get_tag_metadata img) name img = Ok (of_nat (k + 1), img)"
    | (created) k where "k < tag_entries img" "tag_free img k" "\<forall>j < tag_entries img. \<not> tag_named img j name"
      "find_or_create_tag (get_tag_metadata img) name img = Ok (of_nat (k + 1), with_tag img k name)"
    | (full) "\<forall>j < tag_entries img. \<not> tag_named img j name" "\<forall>j < tag_entries img. \<not> tag_free img j"
      "find_or_create_tag (get_tag_metadata img) name img = Ok (0, img)"
proof -
  have small: "tag_entries img < 65536" and wf: "img_wf img" using w by (simp_all add: tags_wf_def)
  have c: "tag_meta_entry_count img = tag_entries img"
    by (simp add: tag_meta_entry_count_def geometry(8) [OF wf])
  let ?name = "\<lambda>i. img_strcmp img name (tag_name_addr (get_tag_metadata img) i)"
    and ?free = "\<lambda>i. tag_metadata_entry_is_free img (tag_name_addr (get_tag_metadata img) i)"
  have s: "scan16 t (tag_entries img) = scan t (tag_entries img) 0" for t by (rule scan16_small [OF small])
  show ?thesis
  proof (rule scan_cases [of "tag_entries img" ?name "\<lambda>j. tag_named img j name"])
    show "?name j = Ok (tag_named img j name)" if "j < tag_entries img" for j by (rule tag_tests(1) [OF w that n])
    fix k assume "k < tag_entries img" "tag_named img k name" "scan ?name (tag_entries img) 0 = Ok (Some k)"
    then show thesis using found by (simp add: find_or_create_tag_def c s)
  next
    assume m: "\<forall>j < tag_entries img. \<not> tag_named img j name" "scan ?name (tag_entries img) 0 = Ok None"
    show thesis
    proof (rule scan_cases [of "tag_entries img" ?free "tag_free img"])
      show "?free j = Ok (tag_free img j)" if "j < tag_entries img" for j by (rule tag_tests(2) [OF w that])
      fix k assume k: "k < tag_entries img" "tag_free img k" "scan ?free (tag_entries img) 0 = Ok (Some k)"
      have "img_store img (tag_name_addr (get_tag_metadata img) k) (name @ [0]) = Ok (with_tag img k name)"
        using tag_in_image(1) [OF w k(1)] n geometry(6) [OF wf]
        by (simp add: img_store_def img_at_def tag_name_addr_def with_tag_def tag_addr_def nat_add_distrib nat_mult_distrib)
      then show thesis using created [OF k(1,2) m(1)] m(2) k(3) by (simp add: find_or_create_tag_def c s)
    next
      assume "\<forall>j < tag_entries img. \<not> tag_free img j" "scan ?free (tag_entries img) 0 = Ok None"
      then show thesis using full m by (simp add: find_or_create_tag_def c s)
    qed
  qed
qed

section \<open>Linking a tag\<close>

definition with_link :: "image \<Rightarrow> nat \<Rightarrow> u16 \<Rightarrow> u16 \<Rightarrow> image" where
  "with_link img k t f =
     img\<lparr>imem := st16 (st16 (imem img) (link_base img + 4 * k) t) (link_base img + 4 * k + 2) f\<rparr>"

lemma link_in_image:
  assumes "tags_wf img" and "i < link_entries img"
  shows "link_base img + 4 * i + 4 \<le> ilen img" and "link_base img + 4 * i + 4 \<le> fat_base img"
    and "tag_base img \<le> link_base img"
proof -
  have w: "img_wf img" using assms(1) by (simp add: tags_wf_def)
  show "link_base img + 4 * i + 4 \<le> fat_base img" by (rule section_bounds(9) [OF w assms(2)])
  then show "link_base img + 4 * i + 4 \<le> ilen img" using section_bounds(4,13) [OF w] by linarith
  show "tag_base img \<le> link_base img" by (rule section_bounds(11) [OF w])
qed

lemma link_address:
  assumes "tags_wf img"
  shows "link_addr (get_tag_file_array img) i = int (link_base img + 4 * i)"
    and "link_addr (get_tag_file_array img) i + 2 = int (link_base img + 4 * i + 2)"
  using assms by (simp_all add: link_addr_def geometry(7) tags_wf_def)

lemma link_tests:
  assumes w: "tags_wf img" and i: "i < link_entries img"
  shows "is_linked img (get_tag_file_array img) t f i = Ok (link img i = (t, f))"
    and "tag_file_entry_is_free img (link_addr (get_tag_file_array img) i) = Ok (fst (link img i) = 0)"
proof -
  note b = link_in_image(1) [OF w i]
  have ld: "img_ld16 img (link_addr (get_tag_file_array img) i) = Ok (fst (link img i))"
    "img_ld16 img (link_addr (get_tag_file_array img) i + 2) = Ok (snd (link img i))"
    using img_access(2) [of "link_base img + 4 * i" img] img_access(2) [of "link_base img + 4 * i + 2" img] b
    by (simp_all only: link_address [OF w, symmetric] link_def fst_conv snd_conv)
  show "is_linked img (get_tag_file_array img) t f i = Ok (link img i = (t, f))"
    by (simp add: is_linked_def ld prod_eq_iff)
  show "tag_file_entry_is_free img (link_addr (get_tag_file_array img) i) = Ok (fst (link img i) = 0)"
    by (simp add: tag_file_entry_is_free_def ld)
qed

lemma with_link_out:
  "x < link_base img + 4 * k \<or> link_base img + 4 * k + 4 \<le> x \<Longrightarrow> imem (with_link img k t f) x = imem img x"
  by (auto simp: with_link_def cell16.st_frame)

lemma with_link_extends:
  assumes w: "tags_wf img" and k: "k < link_entries img" "fst (link img k) = 0"
  shows "extends_tags img (with_link img k t f)"
  unfolding extends_tags_def
proof (intro conjI allI impI with_link_out)
  note b = link_in_image [OF w k(1)]
  show "ilen (with_link img k t f) = ilen img" by (simp add: with_link_def)
  show "x < link_base img + 4 * k \<or> link_base img + 4 * k + 4 \<le> x" if "x < tag_base img \<or> fat_base img \<le> x" for x
    using that b by linarith
  show "tag_addr img i + j < link_base img + 4 * k \<or> link_base img + 4 * k + 4 \<le> tag_addr img i + j"
    if "i < tag_entries img" "j < 32" for i j
    using tag_in_image(2) [OF w that(1)] that(2) by linarith
  show "link_base img + 4 * i + j < link_base img + 4 * k \<or> link_base img + 4 * k + 4 \<le> link_base img + 4 * i + j"
    if "fst (link img i) \<noteq> 0" "j < 4" for i j
  proof -
    have "i < k \<or> k < i" using that(1) k(2) by (cases "i = k") auto
    then show ?thesis using that(2) by auto
  qed
qed

lemma with_link_links:
  assumes w: "tags_wf img" and k: "k < link_entries img" "fst (link img k) = 0" and t: "t \<noteq> 0"
  shows "links (with_link img k t f) = insert (t, f) (links img)"
proof -
  note g = extends_tags_geometry [OF with_link_extends [OF w k, of t f] w]
  have new: "link (with_link img k t f) k = (t, f)"
    by (simp add: link_def g) (simp add: with_link_def cell16.ld_st_disjoint)
  have old: "link (with_link img k t f) i = link img i" if "i \<noteq> k" for i
  proof -
    have "i < k \<or> k < i" using that by auto
    then have o: "imem (with_link img k t f) (link_base img + 4 * i + j) = imem img (link_base img + 4 * i + j)" if "j < 4" for j
      using that by (intro with_link_out) auto
    have "ld16 (imem (with_link img k t f)) (link_base img + 4 * i + d) = ld16 (imem img) (link_base img + 4 * i + d)"
      if "d \<le> 2" for d
      by (rule ld16_bytes) (use o [of "d + _"] that in \<open>simp add: add.assoc\<close>)
    from this [of 0] this [of 2] show ?thesis by (simp add: link_def g)
  qed
  show ?thesis
  proof (intro set_eqI iffI)
    fix p assume "p \<in> links (with_link img k t f)"
    then obtain i where i: "p = link (with_link img k t f) i" "i < link_entries img" "fst p \<noteq> 0"
      by (auto simp: links_def g)
    then show "p \<in> insert (t, f) (links img)"
      using new old [of i] by (cases "i = k") (auto simp: links_def)
  next
    fix p assume "p \<in> insert (t, f) (links img)"
    then consider "p = (t, f)" | i where "p = link img i" "i < link_entries img" "fst p \<noteq> 0" "i \<noteq> k"
      using k(2) by (auto simp: links_def)
    then show "p \<in> links (with_link img k t f)"
    proof cases
      case 1
      then show ?thesis using new k(1) t by (auto simp: links_def g intro!: exI [of _ k])
    next
      case 2
      then show ?thesis using old [of i] by (auto simp: links_def g intro!: exI [of _ i])
    qed
  qed
qed

lemma map_link_stores:
  assumes w: "tags_wf img" and k: "k < link_entries img"
  shows "img_st16 img (link_addr (get_tag_file_array img) k) t =
      Ok (img\<lparr>imem := st16 (imem img) (link_base img + 4 * k) t\<rparr>)"
    and "img_st16 (img\<lparr>imem := st16 (imem img) (link_base img + 4 * k) t\<rparr>) (link_addr (get_tag_file_array img) k + 2) f =
      Ok (with_link img k t f)"
proof -
  note b = link_in_image(1) [OF w k]
  show "img_st16 img (link_addr (get_tag_file_array img) k) t = Ok (img\<lparr>imem := st16 (imem img) (link_base img + 4 * k) t\<rparr>)"
    unfolding link_address(1) [OF w] by (rule img_access(5)) (use b in linarith)
  show "img_st16 (img\<lparr>imem := st16 (imem img) (link_base img + 4 * k) t\<rparr>) (link_addr (get_tag_file_array img) k + 2) f =
      Ok (with_link img k t f)"
    unfolding link_address(2) [OF w] with_link_def by (subst img_access(5)) (use b in simp_all)
qed

lemma link_cases:
  assumes w: "tags_wf img" and t: "t \<noteq> 0"
  obtains (present) "(t, f) \<in> links img" "link_tag_to_file (get_tag_file_array img) t f img = Ok (True, img)"
    | (created) k where "k < link_entries img" "fst (link img k) = 0" "(t, f) \<notin> links img"
      "link_tag_to_file (get_tag_file_array img) t f img = Ok (True, with_link img k t f)"
    | (full) "\<forall>j < link_entries img. fst (link img j) \<noteq> 0" "(t, f) \<notin> links img"
      "link_tag_to_file (get_tag_file_array img) t f img = Ok (False, img)"
proof -
  have wf: "img_wf img" using w by (simp add: tags_wf_def)
  have c: "tag_file_entry_count img = link_entries img"
    by (simp add: tag_file_entry_count_def geometry(9) [OF wf])
  let ?linked = "is_linked img (get_tag_file_array img) t f"
    and ?free = "\<lambda>i. tag_file_entry_is_free img (link_addr (get_tag_file_array img) i)"
  show ?thesis
  proof (rule scan_cases [of "link_entries img" ?linked "\<lambda>j. link img j = (t, f)"])
    show "?linked j = Ok (link img j = (t, f))" if "j < link_entries img" for j by (rule link_tests(1) [OF w that])
    fix k assume k: "k < link_entries img" "link img k = (t, f)" "scan ?linked (link_entries img) 0 = Ok (Some k)"
    then have "(t, f) \<in> links img" using t by (auto simp: links_def intro!: exI [of _ k])
    then show thesis using present k(3) by (simp add: link_tag_to_file_def c)
  next
    assume m: "\<forall>j < link_entries img. link img j \<noteq> (t, f)" "scan ?linked (link_entries img) 0 = Ok None"
    then have no: "(t, f) \<notin> links img" by (auto simp: links_def)
    show thesis
    proof (rule scan_cases [of "link_entries img" ?free "\<lambda>j. fst (link img j) = 0"])
      show "?free j = Ok (fst (link img j) = 0)" if "j < link_entries img" for j by (rule link_tests(2) [OF w that])
      fix k assume k: "k < link_entries img" "fst (link img k) = 0" "scan ?free (link_entries img) 0 = Ok (Some k)"
      have "link_tag_to_file (get_tag_file_array img) t f img = Ok (True, with_link img k t f)"
        using m(2) k(3) by (simp add: link_tag_to_file_def c map_link_stores(1) [OF w k(1)] map_link_stores(2) [OF w k(1)])
      then show thesis using created k(1,2) no by blast
    next
      assume "\<forall>j < link_entries img. fst (link img j) \<noteq> 0" "scan ?free (link_entries img) 0 = Ok None"
      then show thesis using full no m(2) by (simp add: link_tag_to_file_def c)
    qed
  qed
qed

section \<open>All the tags of a file\<close>

text \<open>What \<open>link_tags\<close> promises for one name: it is linked, or a section was full.\<close>

definition tag_settled :: "image \<Rightarrow> u16 \<Rightarrow> cstr \<Rightarrow> bool" where
  "tag_settled img file_id name \<longleftrightarrow>
     (\<exists>i < tag_entries img. tag_named img i name \<and> (of_nat (i + 1), file_id) \<in> links img)
   \<or> (\<forall>i < tag_entries img. \<not> tag_free img i) \<or> (\<forall>i < link_entries img. fst (link img i) \<noteq> 0)"

lemma extends_links:
  assumes "extends_tags img img'" and "tags_wf img"
  shows "links img \<subseteq> links img'"
proof
  fix p assume "p \<in> links img"
  then obtain i where "p = link img i" "i < link_entries img" "fst (link img i) \<noteq> 0" by (auto simp: links_def)
  then show "p \<in> links img'"
    using extends_tags_geometry(2) [OF assms] extends_tags_kept(3) [OF assms] by (auto simp: links_def intro!: exI [of _ i])
qed

lemma settled_extends:
  assumes e: "extends_tags img img'" and w: "tags_wf img" and n: "tag_name_ok name" and s: "tag_settled img f name"
  shows "tag_settled img' f name"
proof -
  note g = extends_tags_geometry [OF e w] and k = extends_tags_kept [OF e w]
  from s consider
      i where "i < tag_entries img" "tag_named img i name" "(of_nat (i + 1), f) \<in> links img"
    | "\<forall>i < tag_entries img. \<not> tag_free img i" | "\<forall>i < link_entries img. fst (link img i) \<noteq> 0"
    by (auto simp: tag_settled_def)
  then show ?thesis
  proof cases
    case 1
    have "tag_named img' i name"
      using k(2) [OF 1(1)] named_used [OF _ _ 1(2)] 1(2) n by (simp add: tag_name_ok_def)
    then show ?thesis using 1 extends_links [OF e w] by (auto simp: tag_settled_def g)
  next
    case 2
    then show ?thesis using k(1) by (simp add: tag_settled_def g)
  next
    case 3
    then show ?thesis using k(3) by (simp add: tag_settled_def g)
  qed
qed

text \<open>One name: the image it leaves, and the links it adds.\<close>

lemma link_one:
  assumes w: "tags_wf img" and n: "tag_name_ok name" and P: "p_tag_meta P = get_tag_metadata img" "p_tag_file P = get_tag_file_array img"
  obtains img' where "link_tags P f [name] img = Ok img'" "extends_tags img img'" "tag_settled img' f name"
    "\<forall>t g. (t, g) \<in> links img' \<longrightarrow> (t, g) \<in> links img
       \<or> g = f \<and> 0 < t \<and> unat t - 1 < tag_entries img \<and> tag_named img' (unat t - 1) name"
proof -
  note result = that
  have len: "length name < 32" using n by (simp add: tag_name_ok_def)
  have linked: thesis
    if k: "k < tag_entries img" and e: "extends_tags img img1" and nm: "tag_named img1 k name"
      and r: "find_or_create_tag (get_tag_metadata img) name img = Ok (of_nat (k + 1), img1)" and ls: "links img1 = links img" for k img1
  proof -
    note g = extends_tags_geometry [OF e w]
    have id: "unat (of_nat (k + 1) :: u16) = k + 1" by (rule tag_id [OF w k])
    then have pos: "0 < (of_nat (k + 1) :: u16)" by (simp add: word_less_nat_alt del: of_nat_Suc of_nat_add)
    then have nz: "(of_nat (k + 1) :: u16) \<noteq> 0" by simp
    have step: "link_tags P f [name] img = obind (link_tag_to_file (get_tag_file_array img1) (of_nat (k + 1)) f img1) (\<lambda>(_, i). Ok i)"
      using pos by (auto simp: P r g simp del: of_nat_Suc of_nat_add intro!: arg_cong [of _ _ "obind _"])
    have used: "\<not> tag_free img1 k" using named_used [OF _ _ nm] n by (simp add: tag_name_ok_def)
    show thesis
    proof (rule link_cases [OF g(7) nz, of f])
      assume a: "(of_nat (k + 1), f) \<in> links img1"
        "link_tag_to_file (get_tag_file_array img1) (of_nat (k + 1)) f img1 = Ok (True, img1)"
      show thesis
        by (rule result [of img1]) (use a step e nm k ls g(1) in \<open>auto simp: tag_settled_def simp del: of_nat_Suc of_nat_add\<close>)
    next
      fix j assume a: "j < link_entries img1" "fst (link img1 j) = 0"
        "link_tag_to_file (get_tag_file_array img1) (of_nat (k + 1)) f img1 = Ok (True, with_link img1 j (of_nat (k + 1)) f)"
      let ?i = "with_link img1 j (of_nat (k + 1)) f"
      note e2 = with_link_extends [OF g(7) a(1,2), of "of_nat (k + 1)" f]
      have l: "links ?i = insert (of_nat (k + 1), f) (links img)"
        using with_link_links [OF g(7) a(1,2) nz] ls by simp
      have nm2: "tag_named ?i k name"
        using extends_tags_kept(2) [OF e2 g(7) _ used len] nm k g(1) by simp
      show thesis
      proof (rule result [of ?i])
        show "tag_settled ?i f name"
          using k nm2 l extends_tags_geometry(1) [OF e2 g(7)] g(1) by (auto simp: tag_settled_def simp del: of_nat_Suc of_nat_add)
        show "\<forall>t h. (t, h) \<in> links ?i \<longrightarrow> (t, h) \<in> links img
            \<or> h = f \<and> 0 < t \<and> unat t - 1 < tag_entries img \<and> tag_named ?i (unat t - 1) name"
          using l nm2 id pos k by (auto simp del: of_nat_Suc of_nat_add)
      qed (use a step extends_tags_trans [OF e e2 w] in simp_all)
    next
      assume a: "\<forall>j < link_entries img1. fst (link img1 j) \<noteq> 0"
        "link_tag_to_file (get_tag_file_array img1) (of_nat (k + 1)) f img1 = Ok (False, img1)"
      show thesis by (rule result [of img1]) (use a step e ls in \<open>auto simp: tag_settled_def\<close>)
    qed
  qed
  show thesis
  proof (rule find_or_create_cases [OF w len])
    fix k assume "k < tag_entries img" "tag_named img k name"
      "find_or_create_tag (get_tag_metadata img) name img = Ok (of_nat (k + 1), img)"
    then show thesis by (intro linked [of k img]) (simp_all add: extends_tags_refl)
  next
    fix k assume k: "k < tag_entries img" "tag_free img k"
      "find_or_create_tag (get_tag_metadata img) name img = Ok (of_nat (k + 1), with_tag img k name)"
    show thesis
      by (rule linked [OF k(1) with_tag_extends [OF w k(1,2) len] with_tag_named [OF w k(1,2) len] k(3) with_tag_links [OF w k(1,2) len]])
  next
    assume a: "\<forall>j < tag_entries img. \<not> tag_free img j" "find_or_create_tag (get_tag_metadata img) name img = Ok (0, img)"
    show thesis by (rule result [of img]) (use a in \<open>simp_all add: P extends_tags_refl tag_settled_def\<close>)
  qed
qed

lemma link_tags_append:
  "link_tags P f (as @ bs) img = obind (link_tags P f as img) (link_tags P f bs)"
  by (induction as arbitrary: img) (auto simp: obind_assoc split_def intro!: arg_cong [of _ _ "obind _"])

lemma link_tags_spec:
  assumes "tags_wf img" and "list_all tag_name_ok names"
    and "p_tag_meta P = get_tag_metadata img" "p_tag_file P = get_tag_file_array img"
  shows "\<exists>img'. link_tags P f names img = Ok img' \<and> extends_tags img img' \<and> list_all (tag_settled img' f) names
    \<and> (\<forall>t g. (t, g) \<in> links img' \<longrightarrow> (t, g) \<in> links img
          \<or> g = f \<and> 0 < t \<and> list_ex (tag_named img' (unat t - 1)) names)"
  using assms
proof (induction names arbitrary: img)
  case Nil
  then show ?case by (simp add: extends_tags_refl)
next
  case (Cons name names)
  have n: "tag_name_ok name" and ns: "list_all tag_name_ok names" using Cons.prems(2) by simp_all
  obtain img1 where one: "link_tags P f [name] img = Ok img1" "extends_tags img img1" "tag_settled img1 f name"
    "\<forall>t g. (t, g) \<in> links img1 \<longrightarrow> (t, g) \<in> links img
       \<or> g = f \<and> 0 < t \<and> unat t - 1 < tag_entries img \<and> tag_named img1 (unat t - 1) name"
    by (rule link_one [OF Cons.prems(1) n Cons.prems(3,4), of f])
  note g1 = extends_tags_geometry [OF one(2) Cons.prems(1)]
  obtain img2 where two: "link_tags P f names img1 = Ok img2" "extends_tags img1 img2" "list_all (tag_settled img2 f) names"
    "\<forall>t g. (t, g) \<in> links img2 \<longrightarrow> (t, g) \<in> links img1 \<or> g = f \<and> 0 < t \<and> list_ex (tag_named img2 (unat t - 1)) names"
    using Cons.IH [OF g1(7) ns] Cons.prems(3,4) g1(8,9) by auto
  have run: "link_tags P f (name # names) img = Ok img2"
    using link_tags_append [of P f "[name]" names img] by (simp only: one(1) two(1) append.simps obind.simps)
  have name_kept: "tag_named img2 i name" if "tag_named img1 i name" "i < tag_entries img1" for i
    using extends_tags_kept(2) [OF two(2) g1(7) that(2)] named_used [OF _ _ that(1)] that(1) n
    by (simp add: tag_name_ok_def)
  have new: "(t, g) \<in> links img \<or> g = f \<and> 0 < t \<and> list_ex (tag_named img2 (unat t - 1)) (name # names)"
    if "(t, g) \<in> links img2" for t g
    using two(4) one(4) name_kept [of "unat t - 1"] that by (auto simp: g1(1))
  show ?case
    using run extends_tags_trans [OF one(2) two(2) Cons.prems(1)] settled_extends [OF two(2) g1(7) n one(3)] two(3) new
    by (intro exI [of _ img2]) (simp del: link_tags.simps)
qed

section \<open>Properties\<close>

lemma with_tag_others:
  assumes "tags_wf img" and "k < tag_entries img" "tag_free img k" and "length name < 32" and "j \<noteq> k" and "length name' < 32"
  shows "tag_named (with_tag img k name) j name' = tag_named img j name'"
proof -
  have "j < k \<or> k < j" using assms(5) by auto
  then have o: "imem (with_tag img k name) (tag_addr img j + d) = imem img (tag_addr img j + d)" if "d < 32" for d
    using assms(4) that by (auto simp: with_tag_def tag_addr_def mem_put_outside)
  have "bytes_at (imem (with_tag img k name)) (tag_addr img j) (length name') = bytes_at (imem img) (tag_addr img j) (length name')"
    by (rule bytes_at_cong) (use o assms(6) in simp)
  then show ?thesis
    using o [OF assms(6)] extends_tags_geometry(6) [OF with_tag_extends [OF assms(1-4)] assms(1)]
    by (simp add: tag_named_def)
qed

text \<open>
  (C20) \<open>find_or_create_tag\<close>. It returns the number of an entry with the name, and a second call returns the same
  number and changes nothing. It keeps every used tag, every link and every byte outside the
  tag sections. It returns 0 only when no entry has the name and none is free, and then the image is unchanged.
\<close>

theorem find_or_create_tag_correct:
  assumes "tags_wf img" and "tag_name_ok name"
  shows "\<exists>id img'. find_or_create_tag (get_tag_metadata img) name img = Ok (id, img')
    \<and> extends_tags img img' \<and> links img' = links img
    \<and> (id = 0 \<longrightarrow> img' = img \<and> (\<forall>j < tag_entries img. \<not> tag_named img j name \<and> \<not> tag_free img j))
    \<and> (id \<noteq> 0 \<longrightarrow> unat id - 1 < tag_entries img \<and> tag_named img' (unat id - 1) name
         \<and> find_or_create_tag (get_tag_metadata img) name img' = Ok (id, img'))"
proof -
  have n: "length name < 32" using assms(2) by (simp add: tag_name_ok_def)
  show ?thesis
  proof (rule find_or_create_cases [OF assms(1) n])
    fix k assume k: "k < tag_entries img" "tag_named img k name"
      "find_or_create_tag (get_tag_metadata img) name img = Ok (of_nat (k + 1), img)"
    have "(of_nat (k + 1) :: u16) \<noteq> 0" using tag_id [OF assms(1) k(1)] by (metis unat_0 add_is_0 zero_neq_one)
    with k tag_id [OF assms(1) k(1)] show ?thesis
      by (intro exI [of _ "of_nat (k + 1)"] exI [of _ img]) (auto simp: extends_tags_refl simp del: of_nat_Suc of_nat_add)
  next
    fix k assume k: "k < tag_entries img" "tag_free img k" "\<forall>j < tag_entries img. \<not> tag_named img j name"
      "find_or_create_tag (get_tag_metadata img) name img = Ok (of_nat (k + 1), with_tag img k name)"
    let ?i = "with_tag img k name"
    note e = with_tag_extends [OF assms(1) k(1,2) n]
    note g = extends_tags_geometry [OF e assms(1)]
    have nz: "(of_nat (k + 1) :: u16) \<noteq> 0" using tag_id [OF assms(1) k(1)] by (metis unat_0 add_is_0 zero_neq_one)
    have nm: "tag_named ?i k name" by (rule with_tag_named [OF assms(1) k(1,2) n])
    have others: "\<not> tag_named ?i j name" if "j \<noteq> k" "j < tag_entries img" for j
      using with_tag_others [OF assms(1) k(1,2) n that(1) n] k(3) that(2) by simp
    have "find_or_create_tag (get_tag_metadata img) name ?i = Ok (of_nat (k + 1), ?i)"
    proof (rule find_or_create_cases [OF g(7) n])
      fix j assume j: "j < tag_entries ?i" "tag_named ?i j name"
        "find_or_create_tag (get_tag_metadata ?i) name ?i = Ok (of_nat (j + 1), ?i)"
      with others g(1) have "j = k" by metis
      with j(3) show ?thesis by (simp only: g(8))
    qed (use nm k(1) g(1) in auto)
    with k(1,4) nm nz e with_tag_links [OF assms(1) k(1,2) n] tag_id [OF assms(1) k(1)] show ?thesis
      by (intro exI [of _ "of_nat (k + 1)"] exI [of _ ?i]) (simp del: of_nat_Suc of_nat_add)
  next
    assume "\<forall>j < tag_entries img. \<not> tag_named img j name" "\<forall>j < tag_entries img. \<not> tag_free img j"
      "find_or_create_tag (get_tag_metadata img) name img = Ok (0, img)"
    then show ?thesis by (intro exI [of _ 0] exI [of _ img]) (simp add: extends_tags_refl)
  qed
qed

lemma example_tags_wf: "tags_wf example_image"
  using example_geometry(9) by (simp add: tags_wf_def tag_entries_def)
    (simp add: example_image_def m_tag_meta_sector_count_def sector_def m_sector_size_def cell32.ld_st cell32.ld_st_disjoint)

theorem find_or_create_tag_correct_witness:
  "\<exists>id img'. find_or_create_tag (get_tag_metadata example_image) [109] example_image = Ok (id, img')
    \<and> links img' = links example_image"
  using find_or_create_tag_correct [OF example_tags_wf, of "[109]"] by (auto simp: tag_name_ok_def)

text \<open>
  (C18) \<open>link_tag_to_file\<close> refines insertion into the set of links: it adds exactly the pair, or, when the map is full
  and does not hold it, returns false and leaves the set as it is. Nothing outside the map changes.
\<close>

theorem link_tag_refines_insert:
  assumes "tags_wf img" and "t \<noteq> 0"
  shows "\<exists>b img'. link_tag_to_file (get_tag_file_array img) t f img = Ok (b, img') \<and> extends_tags img img'
    \<and> links img' = (if b then insert (t, f) (links img) else links img)
    \<and> (b \<or> (t, f) \<notin> links img \<and> (\<forall>j < link_entries img. fst (link img j) \<noteq> 0))"
proof (rule link_cases [OF assms, of f])
  assume "(t, f) \<in> links img" "link_tag_to_file (get_tag_file_array img) t f img = Ok (True, img)"
  then show ?thesis by (intro exI [of _ True] exI [of _ img]) (auto simp: extends_tags_refl)
next
  fix k assume k: "k < link_entries img" "fst (link img k) = 0"
    "link_tag_to_file (get_tag_file_array img) t f img = Ok (True, with_link img k t f)"
  then show ?thesis
    using with_link_extends [OF assms(1) k(1,2)] with_link_links [OF assms(1) k(1,2) assms(2)]
    by (intro exI [of _ True] exI [of _ "with_link img k t f"]) simp
next
  assume "\<forall>j < link_entries img. fst (link img j) \<noteq> 0" "(t, f) \<notin> links img"
    "link_tag_to_file (get_tag_file_array img) t f img = Ok (False, img)"
  then show ?thesis by (intro exI [of _ False] exI [of _ img]) (simp add: extends_tags_refl)
qed

theorem link_tag_refines_insert_witness:
  "\<exists>b img'. link_tag_to_file (get_tag_file_array example_image) 1 1 example_image = Ok (b, img')
    \<and> extends_tags example_image img'"
  using link_tag_refines_insert [OF example_tags_wf, of 1 1] by auto

text \<open>
  The tags of a file. For every list of valid names the loop of \<open>write-files\<close> returns an image in which each name
  is a tag linked to the file, unless the tag section or the tag file map is full. It adds no link
  but those of the file with a tag of the list, and keeps every tag and link there was.
\<close>

theorem link_tags_correct:
  assumes "tags_wf img" and "list_all tag_name_ok names"
  shows "\<exists>img'. link_tags (section_pointers_of img) f names img = Ok img' \<and> extends_tags img img'
    \<and> list_all (tag_settled img' f) names \<and> links img \<subseteq> links img'
    \<and> (\<forall>t g. (t, g) \<in> links img' \<longrightarrow> (t, g) \<in> links img
          \<or> g = f \<and> 0 < t \<and> list_ex (tag_named img' (unat t - 1)) names)"
  using link_tags_spec [OF assms, of "section_pointers_of img" f] extends_links [OF _ assms(1)]
  by (auto simp: section_pointers_of_def)

theorem link_tags_correct_witness:
  "\<exists>img'. link_tags (section_pointers_of example_image) 1 [[109], [110, 111]] example_image = Ok img'
    \<and> list_all (tag_settled img' 1) [[109], [110, 111]]"
  using link_tags_correct [OF example_tags_wf, of "[[109], [110, 111]]" 1]
  by (auto simp: tag_name_ok_def simp del: link_tags.simps)

end
