(* ===== verification/FileWriting.thy ===== *)
theory FileWriting
  imports Tagging
begin

text \<open>
  Files that \<open>tfsfmt write-files\<close> puts into an image: the chain of sectors it allocates, what the chain
  holds, and what a reader of the image, the FUSE driver, gets back.
\<close>

section \<open>Chains of sectors\<close>

text \<open>The FAT links the sectors of the list in order and ends at the last.\<close>

fun fat_chain :: "image \<Rightarrow> nat list \<Rightarrow> bool" where
  "fat_chain img [] = False"
| "fat_chain img [i] = (fat_entry img i = 0xffff)"
| "fat_chain img (i # j # is) = (fat_entry img i = of_nat j \<and> fat_chain img (j # is))"

definition sector_bytes :: "image \<Rightarrow> nat \<Rightarrow> u8 list" where
  "sector_bytes img s = bytes_at (imem img) (data_base img + s * sector img) (sector img)"

definition chain_bytes :: "image \<Rightarrow> nat list \<Rightarrow> u8 list" where
  "chain_bytes img L = concat (map (sector_bytes img) L)"

definition free_from :: "image \<Rightarrow> nat \<Rightarrow> nat list" where
  "free_from img i = filter (\<lambda>j. fat_entry img j = 0) [i..<fat_entries img]"

definition sectors_for :: "nat \<Rightarrow> nat \<Rightarrow> nat" where
  "sectors_for n s = (if n = 0 then 1 else (n + s - 1) div s)"

text \<open>The address is neither in the FAT entry nor in the data of a sector of the list.\<close>

definition outside :: "image \<Rightarrow> nat list \<Rightarrow> nat \<Rightarrow> bool" where
  "outside img L x \<longleftrightarrow> (\<forall>s \<in> set L. \<not> (fat_base img + 2 * s \<le> x \<and> x < fat_base img + 2 * s + 2)
     \<and> \<not> (data_base img + s * sector img \<le> x \<and> x < data_base img + s * sector img + sector img))"

definition stored :: "image \<Rightarrow> image \<Rightarrow> nat list \<Rightarrow> u8 list \<Rightarrow> bool" where
  "stored img img' L bs \<longleftrightarrow> ilen img' = ilen img \<and> (\<forall>x. outside img L x \<longrightarrow> imem img' x = imem img x)
     \<and> fat_chain img' L \<and> take (length bs) (chain_bytes img' L) = take (length L * sector img) bs"

lemma sectors_for_step:
  assumes "0 < s"
  shows "n \<le> s \<Longrightarrow> sectors_for n s = 1" and "s < n \<Longrightarrow> sectors_for n s = Suc (sectors_for (n - s) s)"
proof -
  show "sectors_for n s = 1" if "n \<le> s"
  proof (cases "n = 0")
    case False
    then have "(n + s - 1) div s = 1" using that by (intro div_nat_eqI) simp_all
    then show ?thesis using False by (simp add: sectors_for_def)
  qed (simp add: sectors_for_def)
  show "sectors_for n s = Suc (sectors_for (n - s) s)" if "s < n"
  proof -
    have "n + s - 1 = (n - s + s - 1) + s" using that by simp
    then have "(n + s - 1) div s = Suc ((n - s + s - 1) div s)" using assms by (simp only: div_add_self2)
    then show ?thesis using that by (simp add: sectors_for_def)
  qed
qed

lemma sectors_for_pos: "0 < s \<Longrightarrow> sectors_for n s = Suc (sectors_for n s - 1)"
  using sectors_for_step [of s n] by (cases "n \<le> s") auto

lemma free_from_rec:
  "free_from img i = (if i < fat_entries img then
     if fat_entry img i = 0 then i # free_from img (i + 1) else free_from img (i + 1) else [])"
  by (simp add: free_from_def upt_conv_Cons)

lemma free_from_Cons:
  assumes "free_from img i = j # F"
  shows "i \<le> j \<and> j < fat_entries img \<and> fat_entry img j = 0 \<and> (\<forall>k. i \<le> k \<longrightarrow> k < j \<longrightarrow> fat_entry img k \<noteq> 0)
    \<and> F = free_from img (j + 1)"
  using assms
proof (induction "fat_entries img - i" arbitrary: i)
  case 0
  then show ?case by (subst (asm) free_from_rec) simp
next
  case (Suc n)
  then have lt: "i < fat_entries img" by simp
  show ?case
  proof (cases "fat_entry img i = 0")
    case True
    with lt Suc.prems show ?thesis by (subst (asm) free_from_rec) auto
  next
    case False
    with lt Suc.prems have "free_from img (i + 1) = j # F" by (subst (asm) free_from_rec) simp
    then have "i + 1 \<le> j \<and> j < fat_entries img \<and> fat_entry img j = 0
        \<and> (\<forall>k. i + 1 \<le> k \<longrightarrow> k < j \<longrightarrow> fat_entry img k \<noteq> 0) \<and> F = free_from img (j + 1)"
      using Suc.hyps by (intro Suc.hyps(1)) simp_all
    with False show ?thesis by (metis Suc_eq_plus1 Suc_leI add_leD1 le_neq_implies_less)
  qed
qed

lemma free_from_sorted: "k \<in> set (free_from img i) \<Longrightarrow> i \<le> k \<and> k < fat_entries img"
  by (auto simp: free_from_def)

lemma fat_is_free_test:
  assumes "img_wf img" and "p_fat P = get_fat img" and "j < fat_entries img"
  shows "fat_is_free P img j = Ok (fat_entry img j = 0)"
  using fat_test [OF assms(1,3)] assms(2) by (simp add: fat_is_free_def)

lemma scan_free:
  assumes "img_wf img" and "p_fat P = get_fat img"
  shows "scan (fat_is_free P img) (fat_entries img) i = Ok (case free_from img i of [] \<Rightarrow> None | j # F \<Rightarrow> Some j)"
proof (cases "free_from img i")
  case Nil
  then have "fat_entry img j \<noteq> 0" if "i \<le> j" "j < fat_entries img" for j
    using that by (auto simp: free_from_def filter_empty_conv)
  then show ?thesis
    using scans.scan_miss [of i "(fat_is_free P img, fat_entries img)"] fat_is_free_test [OF assms] Nil by auto
next
  case (Cons j F)
  note f = free_from_Cons [OF Cons]
  show ?thesis
    using scans.scan_hit [of i j "(fat_is_free P img, fat_entries img)"] fat_is_free_test [OF assms] f Cons by auto
qed

section \<open>One sector\<close>

definition put_sector :: "image \<Rightarrow> nat \<Rightarrow> u8 list \<Rightarrow> u16 \<Rightarrow> image" where
  "put_sector img i bs v =
     img\<lparr>imem := st16 (mem_put (imem img) (data_base img + i * sector img) bs) (fat_base img + 2 * i) v\<rparr>"

abbreviation put_data :: "image \<Rightarrow> nat \<Rightarrow> u8 list \<Rightarrow> image" where
  "put_data img i bs \<equiv> img\<lparr>imem := mem_put (imem img) (data_base img + i * sector img) bs\<rparr>"

lemma fread_store_ok:
  assumes "a + length bs \<le> ilen img"
  shows "fread_store img (int a) bs = Ok (img\<lparr>imem := mem_put (imem img) a bs\<rparr>)"
proof (cases "bs = []")
  case True
  then have "mem_put (imem img) a bs = imem img" by (auto simp: mem_put_def fun_eq_iff)
  with True show ?thesis by (simp add: fread_store_def)
next
  case False
  with assms show ?thesis by (simp add: fread_store_def img_access(8))
qed

lemma put_data_out:
  assumes "length bs \<le> sector img" and "outside img [i] x"
  shows "imem (put_data img i bs) x = imem img x"
  using assms by (auto simp: mem_put_outside outside_def not_le)

lemma put_sector_out:
  assumes "length bs \<le> sector img" and "outside img [i] x"
  shows "imem (put_sector img i bs v) x = imem img x"
  using put_data_out [OF assms] assms(2) by (auto simp: put_sector_def outside_def cell16.st_frame not_le)

lemma fat_outside:
  assumes "img_wf img" and "i < fat_entries img" and "x < data_base img"
    and "x < fat_base img + 2 * i \<or> fat_base img + 2 * i + 2 \<le> x"
  shows "outside img [i] x"
  using assms by (auto simp: outside_def)

lemma sector_apart: "i \<noteq> k \<Longrightarrow> i * s + s \<le> k * s \<or> k * s + s \<le> i * (s :: nat)"
proof -
  assume "i \<noteq> k"
  then have "i + 1 \<le> k \<or> k + 1 \<le> i" by linarith
  then have "(i + 1) * s \<le> k * s \<or> (k + 1) * s \<le> i * s" using mult_le_mono1 by blast
  then show ?thesis by (simp add: add.commute)
qed

lemma data_outside:
  assumes "img_wf img" and "i < fat_entries img" and "i \<noteq> j" and "d < sector img"
  shows "outside img [i] (data_base img + j * sector img + d)"
  using sector_apart [OF assms(3), of "sector img"] assms(4) section_bounds(2) [OF assms(1,2)]
  by (auto simp: outside_def)

lemma put_sector_facts:
  assumes w: "img_wf img" and i: "i < fat_entries img" and l: "length bs \<le> sector img"
    and img': "img' = put_data img i bs \<or> img' = put_sector img i bs v"
  shows "sector img' = sector img" "fat_base img' = fat_base img" "data_base img' = data_base img"
    "fat_entries img' = fat_entries img" "img_wf img'" "get_fat img' = get_fat img" "get_data img' = get_data img"
    and "j < fat_entries img \<Longrightarrow> j \<noteq> i \<Longrightarrow> fat_entry img' j = fat_entry img j"
    and "\<And>x. outside img [i] x \<Longrightarrow> imem img' x = imem img x" and "ilen img' = ilen img"
    and "outside img' = outside img"
proof -
  show out: "imem img' x = imem img x" if "outside img [i] x" for x
    using img' put_data_out [OF l that] put_sector_out [OF l that] by blast
  show len: "ilen img' = ilen img" using img' by (auto simp: put_sector_def)
  have low: "imem img' x = imem img x" if "x < 64" for x
    using that section_bounds(5,10-13) [OF w] by (intro out fat_outside [OF w i]) simp_all
  note h = header_kept [OF w len] low
  from h show "sector img' = sector img" "fat_base img' = fat_base img" "data_base img' = data_base img"
    "fat_entries img' = fat_entries img" "img_wf img'" "get_fat img' = get_fat img" "get_data img' = get_data img"
    by blast+
  then show "outside img' = outside img" by (simp add: outside_def fun_eq_iff)
  show "fat_entry img' j = fat_entry img j" if "j < fat_entries img" "j \<noteq> i"
  proof (rule fat_entry_cong [OF \<open>fat_base img' = fat_base img\<close>])
    fix x assume "fat_base img + 2 * j \<le> x" "x < fat_base img + 2 * j + 2"
    then show "imem img' x = imem img x"
      using that section_bounds(2) [OF w that(1)] by (intro out fat_outside [OF w i]) auto
  qed
qed

lemma put_sector_new:
  assumes w: "img_wf img" and i: "i < fat_entries img" and l: "length bs \<le> sector img"
  shows "fat_entry (put_sector img i bs v) i = v"
    and "take (length bs) (sector_bytes (put_sector img i bs v) i) = bs"
proof -
  note f = put_sector_facts [OF w i l disjI2 [OF refl], where v = v]
  show "fat_entry (put_sector img i bs v) i = v" by (simp add: fat_entry_def f(2)) (simp add: put_sector_def)
  have "fat_base img + 2 * i + 2 \<le> data_base img" by (rule section_bounds(2) [OF w i])
  then have "imem (put_sector img i bs v) (data_base img + i * sector img + d) = bs ! d" if "d < length bs" for d
    using that by (simp add: put_sector_def cell16.st_frame mem_put_def)
  then show "take (length bs) (sector_bytes (put_sector img i bs v) i) = bs"
    using l by (intro nth_equalityI) (simp_all add: sector_bytes_def f)
qed

text \<open>A chain that the changed addresses do not touch.\<close>

lemma chain_frame:
  assumes "sector img' = sector img" "fat_base img' = fat_base img" "data_base img' = data_base img"
    and "\<And>x. \<not> outside img L x \<Longrightarrow> imem img' x = imem img x"
  shows "fat_chain img' L = fat_chain img L" and "chain_bytes img' L = chain_bytes img L"
proof -
  have f: "fat_entry img' i = fat_entry img i" if "i \<in> set L" for i
    by (rule fat_entry_cong [OF assms(2)], rule assms(4)) (use that in \<open>force simp: outside_def\<close>)
  have d: "sector_bytes img' i = sector_bytes img i" if "i \<in> set L" for i
    unfolding sector_bytes_def assms(1,3)
    by (rule bytes_at_cong, rule assms(4)) (use that in \<open>force simp: outside_def\<close>)
  show "chain_bytes img' L = chain_bytes img L" using d by (simp add: chain_bytes_def cong: map_cong)
  from f show "fat_chain img' L = fat_chain img L" by (induction img L rule: fat_chain.induct) simp_all
qed

section \<open>The copy loop\<close>

lemma copy_round:
  assumes w: "img_wf img" and P: "p_fat P = get_fat img" "p_data P = get_data img" and i: "i < fat_entries img"
    and bs: "bs = take (sector img) (drop copied src)"
  shows "copy_sectors P (fat_entries img) src i copied img =
    (if copied + length bs = length src then Ok (copied + length bs, put_sector img i bs 0xffff)
     else case free_from img (i + 1) of [] \<Rightarrow> Ok (copied + length bs, put_sector img i bs 0xffff)
       | j # F \<Rightarrow> copy_sectors P (fat_entries img) src j (copied + length bs) (put_sector img i bs (of_nat j)))"
proof -
  have l: "length bs \<le> sector img" by (simp add: bs)
  let ?d = "put_data img i bs"
  note f = put_sector_facts [OF w i l disjI1 [OF refl]]
  have st: "fread_store img (sector_at img (p_data P) (int i)) bs = Ok ?d"
    unfolding P(2) fat_index_word(4) [OF w i]
    by (rule fread_store_ok) (use section_bounds(3) [OF w i] l in linarith)
  have fat: "img_st16 ?d (fat_at (p_fat P) (int i)) v = Ok (put_sector img i bs v)" for v
  proof -
    have "fat_at (p_fat P) (int i) = int (fat_base img + 2 * i)" by (simp add: P(1) meta_addr(4) [OF w])
    moreover have "fat_base img + 2 * i + 2 \<le> ilen ?d" using section_bounds(2) [OF w i] section_bounds(4) [OF w] by simp
    ultimately show ?thesis using img_access(5) [of "fat_base img + 2 * i" ?d v] by (simp add: put_sector_def)
  qed
  have "free_from ?d (i + 1) = free_from img (i + 1)"
    unfolding free_from_def f(4) by (rule filter_cong) (use f(8) in auto)
  then have sc: "scan (fat_is_free P ?d) (fat_entries img) (i + 1)
      = Ok (case free_from img (i + 1) of [] \<Rightarrow> None | j # F \<Rightarrow> Some j)"
    using scan_free [OF f(5), of P "i + 1"] P(1) f(4,6) by simp
  show ?thesis
    by (subst copy_sectors.simps) (simp add: bs [symmetric] st fat sc [unfolded Suc_eq_plus1 [symmetric]] Let_def split: list.split)
qed

lemma stored_last:
  assumes w: "img_wf img" and i: "i < fat_entries img"
  shows "stored img (put_sector img i (take (sector img) bs) 0xffff) [i] bs"
proof -
  have l: "length (take (sector img) bs) \<le> sector img" by simp
  note f = put_sector_facts [OF w i l disjI2 [OF refl], where v = "0xffff"] and n = put_sector_new [OF w i l, of "0xffff"]
  have "length (sector_bytes (put_sector img i (take (sector img) bs) 0xffff) i) = sector img"
    by (simp add: sector_bytes_def f(1))
  with n(2) have "take (length bs) (sector_bytes (put_sector img i (take (sector img) bs) 0xffff) i) = take (sector img) bs"
    by (cases "length bs \<le> sector img") simp_all
  with f n(1) show ?thesis by (simp add: stored_def chain_bytes_def)
qed

lemma stored_header:
  assumes w: "img_wf img" and st: "stored img img' L bs" and L: "\<forall>k \<in> set L. k < fat_entries img"
  shows "sector img' = sector img" "fat_base img' = fat_base img" "data_base img' = data_base img"
    "fat_entries img' = fat_entries img" "meta_entries img' = meta_entries img" "meta_base img' = meta_base img"
    "img_wf img'" "get_fat img' = get_fat img" "get_data img' = get_data img"
    "get_file_metadata img' = get_file_metadata img" and "\<And>x. x < fat_base img \<Longrightarrow> imem img' x = imem img x"
proof -
  have len: "ilen img' = ilen img" using st by (simp add: stored_def)
  show low: "imem img' x = imem img x" if "x < fat_base img" for x
  proof -
    have "outside img L x"
      using L that section_bounds(2) [OF w] section_bounds(13) [OF w] by (fastforce simp: outside_def)
    then show ?thesis using st by (simp add: stored_def)
  qed
  have "\<forall>x < 64. imem img' x = imem img x"
    using low section_bounds(5,10-12) [OF w] by simp
  from header_kept [OF w len this]
  show "sector img' = sector img" "fat_base img' = fat_base img" "data_base img' = data_base img"
    "fat_entries img' = fat_entries img" "meta_entries img' = meta_entries img" "meta_base img' = meta_base img"
    "img_wf img'" "get_fat img' = get_fat img" "get_data img' = get_data img"
    "get_file_metadata img' = get_file_metadata img" by blast+
qed

lemma stored_cons:
  assumes w: "img_wf img" and i: "i < fat_entries img" and lt: "sector img < length bs"
    and img2: "img2 = put_sector img i (take (sector img) bs) (of_nat j)"
    and st: "stored img2 img' (j # L) (drop (sector img) bs)" and L: "\<forall>k \<in> set (j # L). i < k \<and> k < fat_entries img"
    and g: "sector img' = sector img" "fat_base img' = fat_base img" "data_base img' = data_base img"
  shows "stored img img' (i # j # L) bs"
proof -
  have l: "length (take (sector img) bs) \<le> sector img" by simp
  note f = put_sector_facts [OF w i l disjI2 [OF refl], where v = "of_nat j", folded img2]
    and n = put_sector_new [OF w i l, of "of_nat j", folded img2]
  have rest: "imem img' x = imem img2 x" if "outside img (j # L) x" for x
    using st that by (simp add: stored_def f(11))
  have kept: "outside img (j # L) x" if "\<not> outside img [i] x" for x
  proof -
    have "outside img [k] x" if k: "k \<in> set (j # L)" for k
    proof -
      have ik: "i \<noteq> k" "k < fat_entries img" using L k by auto
      show ?thesis
        using \<open>\<not> outside img [i] x\<close> ik(1) section_bounds(2) [OF w i] section_bounds(2) [OF w ik(2)]
          sector_apart [OF ik(1), of "sector img"]
        by (auto simp: outside_def)
    qed
    then show ?thesis by (auto simp: outside_def)
  qed
  have c: "fat_entry img' i = of_nat j" "sector_bytes img' i = sector_bytes img2 i"
  proof -
    have "imem img' x = imem img2 x" if "\<not> outside img [i] x" for x by (rule rest [OF kept [OF that]])
    then have x: "imem img' x = imem img2 x" if "\<not> outside img2 [i] x" for x using that by (simp add: f(11))
    have "chain_bytes img' [i] = chain_bytes img2 [i]"
      by (rule chain_frame(2)) (use g f(1-3) x in simp_all)
    then show "sector_bytes img' i = sector_bytes img2 i" by (simp add: chain_bytes_def)
    have "fat_entry img' i = fat_entry img2 i"
      by (rule fat_entry_cong) (use g f(2) x in \<open>auto simp: outside_def\<close>)
    then show "fat_entry img' i = of_nat j" using n(1) by simp
  qed
  have first: "sector_bytes img' i = take (sector img) bs"
    using n(2) lt unfolding c(2) by (simp add: sector_bytes_def f(1))
  have "take (length bs) (chain_bytes img' (i # j # L)) =
      take (sector img) bs @ take (length bs - sector img) (chain_bytes img' (j # L))"
    using lt by (simp add: chain_bytes_def first)
  also have "take (length bs - sector img) (chain_bytes img' (j # L)) = take (length (j # L) * sector img) (drop (sector img) bs)"
    using st by (simp add: stored_def f(1))
  also have "take (sector img) bs @ take (length (j # L) * sector img) (drop (sector img) bs) =
      take (length (i # j # L) * sector img) bs"
    by (simp add: take_add [symmetric])
  finally show ?thesis
    using st c(1) f(10) rest f(9) unfolding stored_def by (simp add: outside_def)
qed

lemma copy_sectors_spec:
  assumes "img_wf img" and "p_fat P = get_fat img" "p_data P = get_data img"
    and "free_from img i = i # F" and "copied \<le> length src"
    and "L = take (sectors_for (length src - copied) (sector img)) (i # F)"
  shows "\<exists>img'. copy_sectors P (fat_entries img) src i copied img
      = Ok (min (length src) (copied + length L * sector img), img') \<and> stored img img' L (drop copied src)"
  using assms
proof (induction F arbitrary: i copied img L)
  case Nil
  have i: "i < fat_entries img" and e: "free_from img (i + 1) = []" using free_from_Cons [OF Nil.prems(4)] by simp_all
  let ?bs = "take (sector img) (drop copied src)"
  have s: "0 < sector img" using section_bounds(5) [OF Nil.prems(1)] by simp
  have L: "L = [i]" using Nil.prems(6) by (subst (asm) sectors_for_pos [OF s]) simp
  have "copy_sectors P (fat_entries img) src i copied img = Ok (copied + length ?bs, put_sector img i ?bs 0xffff)"
    using copy_round [OF Nil.prems(1-3) i refl, of src copied] e by simp
  moreover have "copied + length ?bs = min (length src) (copied + length L * sector img)"
    using Nil.prems(5) by (simp add: L)
  ultimately show ?case using stored_last [OF Nil.prems(1) i, of "drop copied src"] L by auto
next
  case (Cons j F)
  note w = Cons.prems(1)
  have i: "i < fat_entries img" and e: "free_from img (i + 1) = j # F" using free_from_Cons [OF Cons.prems(4)] by simp_all
  let ?bs = "take (sector img) (drop copied src)" and ?rest = "drop copied src"
  have s: "0 < sector img" using section_bounds(5) [OF w] by simp
  note r = copy_round [OF w Cons.prems(2,3) i refl, of src copied]
  show ?case
  proof (cases "length src - copied \<le> sector img")
    case True
    then have L: "L = [i]" using Cons.prems(6) by (simp add: sectors_for_step(1) [OF s])
    have "copied + length ?bs = length src" using True Cons.prems(5) by simp
    then show ?thesis
      using r stored_last [OF w i, of ?rest] L True Cons.prems(5) by (auto simp: min_def)
  next
    case False
    let ?img2 = "put_sector img i ?bs (of_nat j)" and ?n = "sectors_for (length src - copied - sector img) (sector img)"
    have l: "length ?bs \<le> sector img" by simp
    note f = put_sector_facts [OF w i l disjI2 [OF refl], where v = "of_nat j"]
    have lb: "length ?bs = sector img" using False by simp
    have L: "L = i # take ?n (j # F)"
      using Cons.prems(6) False by (simp add: sectors_for_step(2) [OF s])
    have ij: "i < j" using free_from_Cons [OF e] by simp
    have e2: "free_from ?img2 j = j # F"
    proof -
      have "free_from ?img2 j = free_from img j"
        unfolding free_from_def f(4) by (rule filter_cong) (use f(8) ij in auto)
      also have "\<dots> = j # F" using free_from_Cons [OF e] free_from_rec [of img j] by simp
      finally show ?thesis .
    qed
    have n0: "?n = Suc (?n - 1)" by (rule sectors_for_pos [OF s])
    then have L': "take ?n (j # F) = j # take (?n - 1) F" by (metis take_Suc_Cons)
    have IH: "\<exists>img'. copy_sectors P (fat_entries ?img2) src j (copied + sector img) ?img2 =
        Ok (min (length src) (copied + sector img + length (take ?n (j # F)) * sector ?img2), img')
        \<and> stored ?img2 img' (take ?n (j # F)) (drop (copied + sector img) src)"
      by (rule Cons.IH [OF f(5)])
        (use Cons.prems(2,3) f(1,6,7) e2 False in \<open>simp_all add: algebra_simps\<close>)
    then obtain img' where c: "copy_sectors P (fat_entries img) src j (copied + sector img) ?img2 =
        Ok (min (length src) (copied + sector img + length (take ?n (j # F)) * sector img), img')"
      and st: "stored ?img2 img' (take ?n (j # F)) (drop (copied + sector img) src)"
      unfolding f(1,4) by blast
    have members: "\<forall>k \<in> set (take ?n (j # F)). i < k \<and> k < fat_entries img"
      using set_take_subset [of ?n "j # F"] free_from_sorted [of _ img "i + 1"] e by fastforce
    have "\<forall>k \<in> set (take ?n (j # F)). k < fat_entries ?img2" using members f(4) by simp
    note h = stored_header [OF f(5) st this, unfolded f(1-4)]
    have "stored img img' L ?rest"
      unfolding L L' by (rule stored_cons [OF w i _ refl]) (use False st L' members h in \<open>simp_all add: add.commute\<close>)
    moreover have "copy_sectors P (fat_entries img) src i copied img =
        Ok (min (length src) (copied + length L * sector img), img')"
    proof -
      have "copied + sector img \<noteq> length src" using False by linarith
      with r e have "copy_sectors P (fat_entries img) src i copied img =
          copy_sectors P (fat_entries img) src j (copied + sector img) ?img2" by (simp only: lb if_False list.case)
      then show ?thesis by (simp only: c L) (simp add: add.assoc)
    qed
    ultimately show ?thesis by blast
  qed
qed

section \<open>The file entry\<close>

text \<open>Only the 32 bytes of entry \<open>k\<close> differ.\<close>

definition changes_entry :: "image \<Rightarrow> nat \<Rightarrow> image \<Rightarrow> bool" where
  "changes_entry img k img' \<longleftrightarrow> ilen img' = ilen img
     \<and> (\<forall>x. x < meta_base img k \<or> meta_base img k + 32 \<le> x \<longrightarrow> imem img' x = imem img x)"

lemma changes_entry_facts:
  assumes w: "img_wf img" and k: "k < meta_entries img" and c: "changes_entry img k img'"
  shows "sector img' = sector img" "fat_base img' = fat_base img" "data_base img' = data_base img"
    "fat_entries img' = fat_entries img" "meta_entries img' = meta_entries img" "meta_base img' = meta_base img"
    "img_wf img'" "get_fat img' = get_fat img" "get_data img' = get_data img"
    "get_file_metadata img' = get_file_metadata img" and "free_from img' = free_from img" and "outside img' = outside img"
proof -
  have len: "ilen img' = ilen img" using c by (simp add: changes_entry_def)
  have "\<forall>x < 64. imem img' x = imem img x"
    using c meta_in_image(2) [OF w k] by (simp add: changes_entry_def)
  note h = header_kept [OF w len this]
  from h show "sector img' = sector img" "fat_base img' = fat_base img" "data_base img' = data_base img"
    "fat_entries img' = fat_entries img" "meta_entries img' = meta_entries img" "meta_base img' = meta_base img"
    "img_wf img'" "get_fat img' = get_fat img" "get_data img' = get_data img"
    "get_file_metadata img' = get_file_metadata img" by blast+
  then show "outside img' = outside img" by (simp add: outside_def fun_eq_iff)
  have "fat_entry img' i = fat_entry img i" for i
    by (rule fat_entry_cong [OF h(2)]) (use c section_bounds(1) [OF w k] in \<open>simp add: changes_entry_def\<close>)
  then show "free_from img' = free_from img" by (simp add: free_from_def fun_eq_iff h(4))
qed

lemma entry_stores:
  assumes w: "img_wf img" and k: "k < meta_entries img" and i: "img_wf img0" "get_file_metadata img0 = get_file_metadata img"
    "meta_base img0 = meta_base img" "ilen img0 = ilen img"
  shows "img_st32 img0 (meta_first (get_file_metadata img) (int k)) v = Ok (img0\<lparr>imem := st32 (imem img0) (meta_base img k) v\<rparr>)"
    and "img_st32 img0 (meta_size (get_file_metadata img) (int k)) v = Ok (img0\<lparr>imem := st32 (imem img0) (meta_base img k + 4) v\<rparr>)"
    and "length name < 24 \<Longrightarrow> img_store img0 (meta_name (get_file_metadata img) (int k)) (name @ [0])
      = Ok (img0\<lparr>imem := mem_put (imem img0) (meta_base img k + 8) (name @ [0])\<rparr>)"
  unfolding meta_addr [OF w]
  using meta_in_image(1) [OF w k] i(4) by (auto simp del: of_nat_add intro!: img_access(6,8))

lemma entry_changes:
  "changes_entry img k (img\<lparr>imem := st32 (imem img) (meta_base img k) v\<rparr>)"
  "changes_entry img k (img\<lparr>imem := st32 (imem img) (meta_base img k + 4) v\<rparr>)"
  "length name < 24 \<Longrightarrow> changes_entry img k (img\<lparr>imem := mem_put (imem img) (meta_base img k + 8) (name @ [0])\<rparr>)"
  by (auto simp: changes_entry_def cell32.st_frame mem_put_outside)

lemma changes_entry_trans:
  "changes_entry img k img1 \<Longrightarrow> changes_entry img1 k img2 \<Longrightarrow> meta_base img1 = meta_base img \<Longrightarrow> changes_entry img k img2"
  by (simp add: changes_entry_def)

section \<open>A file is written\<close>

text \<open>
  What is in the image after a file has been written to entry \<open>k\<close> and the sectors \<open>L\<close>. The size is the
  length of the source, or of the sectors when they are fewer than it needs.
\<close>

definition file_written :: "image \<Rightarrow> image \<Rightarrow> nat \<Rightarrow> u8 list \<Rightarrow> nat list \<Rightarrow> u8 list \<Rightarrow> bool" where
  "file_written img img' k name L src \<longleftrightarrow>
     has_name img' k name \<and> entry_first img' k = of_nat (hd L)
   \<and> entry_size img' k = of_nat (min (length src) (length L * sector img))
   \<and> fat_chain img' L \<and> take (length src) (chain_bytes img' L) = take (length L * sector img) src
   \<and> (\<forall>x. (x < meta_base img k \<or> meta_base img k + 32 \<le> x) \<and> (x < tag_base img \<or> fat_base img \<le> x) \<and> outside img L x
        \<longrightarrow> imem img' x = imem img x)"

definition claimed_sectors :: "image \<Rightarrow> u8 list \<Rightarrow> nat list" where
  "claimed_sectors img src = take (sectors_for (length src) (sector img)) (free_from img 0)"

lemma write_entry:
  assumes w: "img_wf img" and k: "k < meta_entries img" and n: "length name < 24" and free: "free_from img 0 = i # F"
  shows "\<exists>img2 img4. copy_sectors (section_pointers_of img) (fat_entries img) src i 0
        (img\<lparr>imem := st32 (imem img) (meta_base img k) (of_nat i)\<rparr>)
      = Ok (min (length src) (length (claimed_sectors img src) * sector img), img2)
    \<and> obind (img_st32 img2 (meta_size (get_file_metadata img) (int k))
        (of_nat (min (length src) (length (claimed_sectors img src) * sector img))))
        (\<lambda>img'. img_store img' (meta_name (get_file_metadata img) (int k)) (name @ [0])) = Ok img4
    \<and> file_written img img4 k name (claimed_sectors img src) src \<and> ilen img4 = ilen img
    \<and> (\<forall>x. (x < meta_base img k \<or> meta_base img k + 32 \<le> x) \<and> outside img (claimed_sectors img src) x
        \<longrightarrow> imem img4 x = imem img x)"
proof -
  let ?L = "claimed_sectors img src" and ?b = "meta_base img k"
  let ?c = "min (length src) (length ?L * sector img)"
  let ?img1 = "img\<lparr>imem := st32 (imem img) ?b (of_nat i)\<rparr>"
  note f1 = changes_entry_facts [OF w k entry_changes(1), of "of_nat i"]
  have P: "p_fat (section_pointers_of img) = get_fat ?img1" "p_data (section_pointers_of img) = get_data ?img1"
    by (simp_all add: section_pointers_of_def f1)
  have free1: "free_from ?img1 i = i # F"
    using free_from_Cons [OF free] free_from_rec [of img i] by (simp add: f1)
  have L: "?L = take (sectors_for (length src - 0) (sector ?img1)) (i # F)" by (simp add: claimed_sectors_def free f1)
  obtain img2 where c: "copy_sectors (section_pointers_of img) (fat_entries img) src i 0 ?img1 = Ok (?c, img2)"
    and st: "stored ?img1 img2 ?L src"
    using copy_sectors_spec [OF f1(7) P free1 _ L] by (auto simp: f1)
  have Lm: "\<forall>s \<in> set ?L. s < fat_entries ?img1"
    using free_from_sorted [of _ img 0] by (auto simp: claimed_sectors_def f1 dest: in_set_takeD)
  note f2 = stored_header [OF f1(7) st Lm, unfolded f1]
  have l2: "ilen img2 = ilen img" using st by (simp add: stored_def)
  let ?img3 = "img2\<lparr>imem := st32 (imem img2) (?b + 4) (of_nat ?c)\<rparr>"
  let ?img4 = "img2\<lparr>imem := mem_put (st32 (imem img2) (?b + 4) (of_nat ?c)) (?b + 8) (name @ [0])\<rparr>"
  have k2: "k < meta_entries img2" using k by (simp add: f2)
  have e3: "changes_entry img2 k ?img3" using entry_changes(2) [of img2 k "of_nat ?c"] by (simp add: f2)
  note f3 = changes_entry_facts [OF f2(7) k2 e3, unfolded f2]
  have e4: "changes_entry img2 k ?img4"
    using entry_changes(3) [OF n, of ?img3 k] changes_entry_trans [OF e3, of ?img4] by (simp add: f3 f2)
  note f4 = changes_entry_facts [OF f2(7) k2 e4, unfolded f2]
  have stores: "obind (img_st32 img2 (meta_size (get_file_metadata img) (int k)) (of_nat ?c))
      (\<lambda>img'. img_store img' (meta_name (get_file_metadata img) (int k)) (name @ [0])) = Ok ?img4"
    using entry_stores(2) [OF w k f2(7,10,6) l2, of "of_nat ?c"] entry_stores(3) [OF w k f3(7,10,6), of name] n l2
    by (simp add: f1)
  have frame4: "imem ?img4 x = imem img2 x" if "x < ?b \<or> ?b + 32 \<le> x" for x
    using e4 that by (auto simp: changes_entry_def f2)
  have b: "?b + 32 \<le> fat_base img" by (rule section_bounds(1) [OF w k])
  have frame: "imem ?img4 x = imem img x" if "x < ?b \<or> ?b + 32 \<le> x" "outside img ?L x" for x
  proof -
    have "st32 (imem img) ?b (of_nat i) x = imem img x" using that(1) by (intro cell32.st_frame) linarith
    with frame4 [OF that(1)] st that(2) show ?thesis by (simp add: stored_def f1)
  qed
  have name: "has_name ?img4 k name"
    unfolding has_name_def f4 by (simp add: bytes_at_mem_put) (simp add: mem_put_def nth_append)
  have low: "ld32 (imem ?img4) ?b = ld32 (imem ?img1) ?b"
    by (rule cell32.ld_cong) (use f2(11) b in \<open>simp add: mem_put_outside cell32.st_frame\<close>)
  have hd: "hd ?L = i" by (simp add: claimed_sectors_def free) (subst sectors_for_pos, use section_bounds(5) [OF w] in simp_all)
  have first: "entry_first ?img4 k = of_nat (hd ?L)"
    unfolding entry_first_def f4 low by (simp add: hd)
  have size: "entry_size ?img4 k = of_nat ?c"
  proof -
    have "ld32 (imem ?img4) (?b + 4) = ld32 (st32 (imem img2) (?b + 4) (of_nat ?c)) (?b + 4)"
      by (rule cell32.ld_cong) (simp add: mem_put_outside)
    then show ?thesis unfolding entry_size_def f4 by simp
  qed
  have chain: "fat_chain ?img4 ?L = fat_chain img2 ?L" "chain_bytes ?img4 ?L = chain_bytes img2 ?L"
  proof -
    have "imem ?img4 x = imem img2 x" if "\<not> outside img2 ?L x" for x
    proof (rule frame4)
      have "fat_base img \<le> x" using that section_bounds(13) [OF w] by (auto simp: outside_def f2)
      then show "x < ?b \<or> ?b + 32 \<le> x" using b by simp
    qed
    from chain_frame [OF _ _ _ this] show "fat_chain ?img4 ?L = fat_chain img2 ?L" "chain_bytes ?img4 ?L = chain_bytes img2 ?L"
      by (simp_all add: f4 f2)
  qed
  have "file_written img ?img4 k name ?L src"
    using st frame name first size chain by (simp add: file_written_def stored_def f1)
  moreover have "ilen ?img4 = ilen img" using l2 by simp
  ultimately show ?thesis using c stores frame by blast
qed

lemma claimed_sectors_bound: "s \<in> set (claimed_sectors img src) \<Longrightarrow> s < fat_entries img"
  using free_from_sorted [of s img 0] by (auto simp: claimed_sectors_def dest: in_set_takeD)

lemma low_outside:
  assumes "img_wf img" and "x < fat_base img"
  shows "outside img (claimed_sectors img src) x"
  using section_bounds(2,13) [OF assms(1)] claimed_sectors_bound [of _ img src] assms(2) by (fastforce simp: outside_def)

lemma written_header:
  assumes w: "tags_wf img" and k: "k < meta_entries img" and len: "ilen img' = ilen img"
    and frame: "\<And>x. x < meta_base img k \<or> meta_base img k + 32 \<le> x \<Longrightarrow> outside img (claimed_sectors img src) x \<Longrightarrow> imem img' x = imem img x"
  shows "sector img' = sector img" "fat_base img' = fat_base img" "data_base img' = data_base img"
    "fat_entries img' = fat_entries img" "meta_entries img' = meta_entries img" "meta_base img' = meta_base img"
    "tags_wf img'" "tag_base img' = tag_base img" "tag_entries img' = tag_entries img"
    "get_tag_metadata img' = get_tag_metadata img" "get_tag_file_array img' = get_tag_file_array img" "links img' = links img"
proof -
  have wf: "img_wf img" using w by (simp add: tags_wf_def)
  have h: "imem img' x = imem img x" if "x < 36" for x
    using frame [of x] meta_in_image(2) [OF wf k] low_outside [OF wf, of x src] section_bounds(5,10-12) [OF wf] that by simp
  note s = same_header [OF h len]
  from s show "sector img' = sector img" "fat_base img' = fat_base img" "data_base img' = data_base img"
    "fat_entries img' = fat_entries img" "meta_entries img' = meta_entries img" "meta_base img' = meta_base img"
    "tag_base img' = tag_base img" "tag_entries img' = tag_entries img" by blast+
  from s w show "tags_wf img'" by (simp add: tags_wf_def)
  from s geometry(6,7) [OF wf] geometry(6,7) [of img'] wf
  show "get_tag_metadata img' = get_tag_metadata img" "get_tag_file_array img' = get_tag_file_array img" by simp_all
  have "link img' i = link img i" if "i < link_entries img" for i
  proof -
    have b: "meta_base img k + 32 \<le> link_base img" using section_bounds(7) [OF wf k] section_bounds(11) [OF wf] by simp
    have "imem img' (link_base img + 4 * i + j) = imem img (link_base img + 4 * i + j)" if "j < 4" for j
      using b that \<open>i < link_entries img\<close> section_bounds(9) [OF wf] by (intro frame low_outside [OF wf]) fastforce+
    then have m: "ld16 (imem img') (link_base img + 4 * i + d) = ld16 (imem img) (link_base img + 4 * i + d)" if "d \<le> 2" for d
      using that by (intro ld16_bytes) (simp add: add.assoc)
    from m [of 0] m [of 2] show ?thesis by (simp add: link_def s)
  qed
  moreover have le: "link_entries img' = link_entries img" using s by blast
  ultimately show "links img' = links img" unfolding links_def le by (intro Collect_cong) metis
qed

lemma file_written_tags:
  assumes w: "tags_wf img" and k: "k < meta_entries img" and f: "file_written img img1 k name (claimed_sectors img src) src"
    and h: "sector img1 = sector img" "fat_base img1 = fat_base img" "data_base img1 = data_base img"
    "meta_base img1 = meta_base img" "tag_base img1 = tag_base img" "tags_wf img1"
    and e: "extends_tags img1 img2" and n: "length name < 24"
  shows "file_written img img2 k name (claimed_sectors img src) src"
proof -
  have wf: "img_wf img" "img_wf img1" "img_wf img2"
    using w h(6) extends_tags_geometry(7) [OF e h(6)] by (simp_all add: tags_wf_def)
  have same: "imem img2 x = imem img1 x" if "x < tag_base img \<or> fat_base img \<le> x" for x
    using e that by (auto simp: extends_tags_def h)
  have len: "ilen img2 = ilen img1" using e by (simp add: extends_tags_def)
  have "\<forall>x < 64. imem img2 x = imem img1 x" using same section_bounds(5,10) [OF wf(1)] by simp
  note g = header_kept [OF wf(2) len this, unfolded h]
  have b: "meta_base img k + 32 \<le> tag_base img" by (rule section_bounds(7) [OF wf(1) k])
  have "has_name img2 k name = has_name img1 k name"
    by (rule has_name_cong [OF _ n]) (use g h b same in simp_all)
  moreover have "ld32 (imem img2) (meta_base img k + d) = ld32 (imem img1) (meta_base img k + d)" if "d \<le> 4" for d
    by (rule cell32.ld_cong) (use same b that in simp)
  from this [of 0] this [of 4] have "entry_first img2 k = entry_first img1 k" "entry_size img2 k = entry_size img1 k"
    by (simp_all add: entry_first_def entry_size_def g h)
  moreover have "imem img2 x = imem img1 x" if "\<not> outside img1 (claimed_sectors img src) x" for x
    using that section_bounds(13) [OF wf(1)] by (intro same) (auto simp: outside_def h)
  from chain_frame [OF _ _ _ this] have "fat_chain img2 (claimed_sectors img src) = fat_chain img1 (claimed_sectors img src)"
    "chain_bytes img2 (claimed_sectors img src) = chain_bytes img1 (claimed_sectors img src)"
    by (simp_all add: g h)
  ultimately show ?thesis using f same by (auto simp: file_written_def)
qed

lemma slot16:
  assumes "img_wf img" and "k < meta_entries img" and "entry_free img k" and "\<forall>j < k. \<not> entry_free img j"
  shows "scan16 (\<lambda>i. file_metadata_entry_is_free img (meta_first (get_file_metadata img) (int i)))
    (count_file_meta_entries img) = Ok (Some k)"
proof -
  have "meta_entries img < 65536" using assms(1) by (simp add: img_wf_def)
  then show ?thesis
    using scans.scan_hit [of 0 k "(\<lambda>i. file_metadata_entry_is_free img (meta_first (get_file_metadata img) (int i)), meta_entries img)"]
      slot_test [OF assms(1)] assms by (simp add: scan16_small geometry(3) [OF assms(1)])
qed

lemma write_one_file_spec:
  assumes w: "tags_wf img" and spec: "split_spec spec = Ok (path, name)" "sources h path = Some src"
    "is_tagfs_file name (length src)" and tags: "list_all tag_name_ok tags"
    and k: "k < meta_entries img" "entry_free img k" "\<forall>j < k. \<not> entry_free img j" and free: "free_from img 0 \<noteq> []"
  shows "\<exists>img'. write_one_file h (section_pointers_of img) tags spec img = Ok img' \<and> tags_wf img'
    \<and> file_written img img' k name (claimed_sectors img src) src
    \<and> list_all (tag_settled img' (of_nat (k + 1))) tags \<and> links img \<subseteq> links img'
    \<and> meta_base img' = meta_base img \<and> meta_entries img' = meta_entries img \<and> sector img' = sector img
    \<and> fat_entries img' = fat_entries img \<and> ilen img' = ilen img"
proof -
  have wf: "img_wf img" using w by (simp add: tags_wf_def)
  have n: "length name < 24" using spec(3) by (simp add: is_tagfs_file_def)
  obtain i F where F: "free_from img 0 = i # F" using free by (cases "free_from img 0") auto
  let ?P = "section_pointers_of img" and ?c = "min (length src) (length (claimed_sectors img src) * sector img)"
  let ?img1 = "img\<lparr>imem := st32 (imem img) (meta_base img k) (of_nat i)\<rparr>"
  obtain img2 img4 where c: "copy_sectors ?P (fat_entries img) src i 0 ?img1 = Ok (?c, img2)"
    and s: "obind (img_st32 img2 (meta_size (get_file_metadata img) (int k)) (of_nat ?c))
      (\<lambda>img'. img_store img' (meta_name (get_file_metadata img) (int k)) (name @ [0])) = Ok img4"
    and fw: "file_written img img4 k name (claimed_sectors img src) src" and l4: "ilen img4 = ilen img"
    and frame: "\<forall>x. (x < meta_base img k \<or> meta_base img k + 32 \<le> x) \<and> outside img (claimed_sectors img src) x
        \<longrightarrow> imem img4 x = imem img x"
    using write_entry [OF wf k(1) n F, of src] by blast
  note g = written_header [OF w k(1) l4, of src]
  have g4: "sector img4 = sector img" "fat_base img4 = fat_base img" "data_base img4 = data_base img"
    "fat_entries img4 = fat_entries img" "meta_entries img4 = meta_entries img" "meta_base img4 = meta_base img"
    "tags_wf img4" "tag_base img4 = tag_base img" "tag_entries img4 = tag_entries img"
    "get_tag_metadata img4 = get_tag_metadata img" "get_tag_file_array img4 = get_tag_file_array img" "links img4 = links img"
    by (rule g; use frame in blast)+
  obtain img5 where t: "link_tags ?P (of_nat (k + 1)) tags img4 = Ok img5" "extends_tags img4 img5"
    "list_all (tag_settled img5 (of_nat (k + 1))) tags"
    using link_tags_spec [OF g4(7) tags, of ?P "of_nat (k + 1)"] by (auto simp: section_pointers_of_def g4)
  have id: "int (unat (of_nat (k + 1) :: u16)) - 1 = int k" by (subst file_id_no_wrap [OF wf k(1)]) simp
  have id2: "uint (of_nat (Suc k) :: u16) - 1 = int k" using id by (simp only: uint_nat Suc_eq_plus1)
  have p: "p_file_meta ?P = get_file_metadata img" by (simp add: section_pointers_of_def)
  have sf: "scan (fat_is_free ?P img) (fat_count img) 0 = Ok (Some i)"
    using scan_free [OF wf, of ?P 0] F by (simp add: geometry(4) [OF wf] section_pointers_of_def)
  have "write_one_file h ?P tags spec img = Ok img5"
    unfolding write_one_file_def spec(1)
    using spec(2,3) slot16 [OF wf k] sf entry_stores(1) [OF wf k(1) wf refl refl refl, of "of_nat i"] c s t(1)
    by (auto simp: p Let_def id id2 geometry(4) [OF wf] obind_assoc simp del: of_nat_Suc of_nat_add)
  moreover have "file_written img img5 k name (claimed_sectors img src) src"
    by (rule file_written_tags [OF w k(1) fw g4(1-3,6,8,7) t(2) n])
  moreover have "tags_wf img5" "links img \<subseteq> links img5"
    using extends_tags_geometry(7) [OF t(2) g4(7)] extends_links [OF t(2) g4(7)] g4(12) by simp_all
  moreover have "meta_base img5 = meta_base img" "meta_entries img5 = meta_entries img" "sector img5 = sector img"
    "fat_entries img5 = fat_entries img" "ilen img5 = ilen img"
    using extends_tags_header [OF t(2) g4(7)] g4 t(2) l4 by (simp_all add: extends_tags_def)
  ultimately show ?thesis using t(3) by blast
qed

section \<open>Reading a chain\<close>

lemma length_sector_bytes [simp]: "length (sector_bytes img s) = sector img"
  by (simp add: sector_bytes_def)

lemma length_chain_bytes [simp]: "length (chain_bytes img L) = length L * sector img"
  by (induction L) (simp_all add: chain_bytes_def)

lemma load_sector_part:
  assumes "img_wf img" and "s < fat_entries img" and "n \<le> sector img"
  shows "img_load img (sector_at img (get_data img) (int s)) n = Ok (take n (sector_bytes img s))"
proof -
  have "img_load img (int (data_base img + s * sector img)) n = Ok (bytes_at (imem img) (data_base img + s * sector img) n)"
    using section_bounds(3) [OF assms(1,2)] assms(3) by (intro img_access(7)) linarith
  moreover have "bytes_at (imem img) (data_base img + s * sector img) n = take n (sector_bytes img s)"
    using assms(3) by (intro nth_equalityI) (simp_all add: sector_bytes_def)
  ultimately show ?thesis by (simp only: fat_index_word(4) [OF assms(1,2)])
qed

lemma read_rest_chain:
  assumes "img_wf img" and "fat_chain img (i # L)" and "\<forall>s \<in> set (i # L). s < fat_entries img"
    and "sz \<le> length buf + length L * sector img" and "sz \<le> unat file_size"
  shows "read_rest img (get_fat img) (get_data img) file_size sz (int i) buf
    = Ok (if length buf < sz then take sz (buf @ chain_bytes img L) else buf)"
  using assms
proof (induction L arbitrary: i buf)
  case Nil
  then show ?case by (subst read_rest.simps) simp
next
  case (Cons j L)
  note w = Cons.prems(1)
  have s: "sector img \<noteq> 0" using section_bounds(5) [OF w] by simp
  have j: "j < fat_entries img" and i: "i < fat_entries img" using Cons.prems(3) by simp_all
  have e: "img_ld16 img (fat_at (get_fat img) (int i)) = Ok (of_nat j)"
    using fat_test [OF w i] Cons.prems(2) by simp
  have u: "unat (of_nat j :: u16) = j" using fat_index_word(3) [OF w j] by (simp add: unat_of_nat)
  then have u': "uint (of_nat j :: u16) = int j" by (metis uint_nat)
  show ?case
  proof (cases "length buf < sz")
    case False
    then show ?thesis by (subst read_rest.simps) simp
  next
    case lt: True
    let ?n = "if sz \<le> length buf + sector img then sz - length buf else sector img"
    have n: "?n \<le> sector img" by auto
    have step: "read_rest img (get_fat img) (get_data img) file_size sz (int i) buf =
        read_rest img (get_fat img) (get_data img) file_size sz (int j) (buf @ take ?n (sector_bytes img j))"
      using lt s e u u' load_sector_part [OF w j n] Cons.prems(5)
      by (subst read_rest.simps) (simp del: unat_of_nat split: if_splits)
    have len: "length (take ?n (sector_bytes img j)) = ?n" using n by simp
    have IH: "read_rest img (get_fat img) (get_data img) file_size sz (int j) (buf @ take ?n (sector_bytes img j)) =
        Ok (if length (buf @ take ?n (sector_bytes img j)) < sz
            then take sz ((buf @ take ?n (sector_bytes img j)) @ chain_bytes img L) else buf @ take ?n (sector_bytes img j))"
      by (rule Cons.IH [OF w]) (use Cons.prems lt len in \<open>auto simp: algebra_simps\<close>)
    show ?thesis
    proof (cases "sz \<le> length buf + sector img")
      case True
      then show ?thesis unfolding step IH using lt by (simp add: chain_bytes_def)
    next
      case False
      then show ?thesis unfolding step IH using lt by (simp add: chain_bytes_def)
    qed
  qed
qed

text \<open>The FUSE driver reads a file whole.\<close>

lemma read_whole_file:
  assumes f: "file_at img name k" and e: "entry_first img k = of_nat i" "unat (entry_size img k) = sz" and "0 < sz"
    and c: "fat_chain img (i # L)" "\<forall>s \<in> set (i # L). s < fat_entries img" and le: "sz \<le> length (i # L) * sector img"
  shows "tagfs_read (c # name) sz 0 img = Ok (int sz, take sz (chain_bytes img (i # L)))"
proof -
  have w: "img_wf img" using f by (simp add: file_at_def)
  have i: "i < fat_entries img" using c(2) by simp
  show ?thesis
  proof (cases "sz \<le> sector img")
    case True
    have "tagfs_read (c # name) sz 0 img = Ok (int sz, bytes_at (imem img) (data_base img + i * sector img + 0) sz)"
      by (rule read_one_sector [OF f e(1) i]) (use e(2) assms(4) True section_bounds(5) [OF w] in simp_all)
    moreover have "bytes_at (imem img) (data_base img + i * sector img) sz = take sz (sector_bytes img i)"
      using True by (intro nth_equalityI) (simp_all add: sector_bytes_def)
    ultimately show ?thesis using True by (simp add: chain_bytes_def)
  next
    case False
    note l = file_at_lookup [OF f] and wd = fat_index_word [OF w i]
    have ld: "img_load img (sector_at img (get_data img) (int i)) (sector img) = Ok (sector_bytes img i)"
      using load_sector_part [OF w i, of "sector img"] by (simp add: sector_bytes_def)
    have r: "read_rest img (get_fat img) (get_data img) (entry_size img k) sz (int i) (sector_bytes img i) =
        Ok (take sz (chain_bytes img (i # L)))"
      using read_rest_chain [OF w c, of sz "sector_bytes img i" "entry_size img k"] le e(2) False
      by (simp add: chain_bytes_def)
    have "sint (entry_first img k) = int i" using wd(1) e(1) by simp
    moreover have e': "int (unat (of_nat (k + 1) :: u16)) - 1 = int k" unfolding l(2) by simp
    moreover have "min (length L * sector img + sector img) sz = sz" using le by simp
    ultimately show ?thesis
      using l(1,3,4,5) e(2) assms(4) False ld r section_bounds(5) [OF w]
      unfolding tagfs_read_def Let_def list.sel e'
      by (simp add: meta_addr [OF w] e' [simplified] del: of_nat_add)
  qed
qed

lemma sectors_for_enough: "0 < s \<Longrightarrow> n \<le> sectors_for n s * s"
proof -
  assume s: "0 < s"
  show ?thesis
  proof (cases "n = 0")
    case False
    have "n \<le> (n + s - 1) div s * s"
      using mod_less_divisor [OF s, of "n + s - 1"] div_mult_mod_eq [of "n + s - 1" s] by linarith
    then show ?thesis using False by (simp add: sectors_for_def)
  qed simp
qed

section \<open>Properties\<close>


lemma written_reads_back:
  assumes w: "tags_wf img" and spec: "split_spec spec = Ok (path, name)" "sources h path = Some src"
    "is_tagfs_file name (length src)" and tags: "list_all tag_name_ok tags"
    and k: "k < meta_entries img" "entry_free img k" "\<forall>j < k. \<not> entry_free img j \<and> \<not> has_name img j name"
    and room: "sectors_for (length src) (sector img) \<le> length (free_from img 0)" and ne: "src \<noteq> []"
  shows "\<exists>img'. write_one_file h (section_pointers_of img) tags spec img = Ok img' \<and> ilen img' = ilen img
    \<and> tagfs_read (c # name) (length src) 0 img' = Ok (int (length src), src)"
proof -
  let ?L = "claimed_sectors img src"
  have wf: "img_wf img" and s: "0 < sector img" using w section_bounds(5) [of img] by (auto simp: tags_wf_def)
  have n: "length name < 24" "length src < 4294967296" using spec(3) by (simp_all add: is_tagfs_file_def)
  have free: "free_from img 0 \<noteq> []" using room sectors_for_pos [OF s, of "length src"] by auto
  obtain img' where r: "write_one_file h (section_pointers_of img) tags spec img = Ok img'"
    and w': "tags_wf img'" and fw: "file_written img img' k name ?L src"
    and g: "meta_base img' = meta_base img" "meta_entries img' = meta_entries img" "sector img' = sector img"
      "fat_entries img' = fat_entries img" and len': "ilen img' = ilen img"
    using write_one_file_spec [OF w spec tags k(1,2) _ free] k(3) by blast
  have len: "length ?L = sectors_for (length src) (sector img)" using room by (simp add: claimed_sectors_def)
  then have fit: "length src \<le> length ?L * sector img" using sectors_for_enough [OF s] by simp
  obtain i L where L: "?L = i # L" using len sectors_for_pos [OF s, of "length src"] by (cases ?L) auto
  have bound: "\<forall>x \<in> set (i # L). x < fat_entries img'" using claimed_sectors_bound [of _ img src] L g(4) by auto
  have other: "has_name img' j name = has_name img j name" if "j < k" for j
  proof (rule has_name_cong [OF g(1) n(1)])
    fix x assume x: "meta_base img j + 8 \<le> x" "x < meta_base img j + 32"
    have "meta_base img j + 32 \<le> meta_base img k" using that by (simp add: meta_base_def)
    moreover have "meta_base img k + 32 \<le> tag_base img" "tag_base img \<le> fat_base img"
      using section_bounds(7) [OF wf k(1)] section_bounds(11,12) [OF wf] by simp_all
    ultimately show "imem img' x = imem img x"
      using fw x low_outside [OF wf, of x src] by (simp add: file_written_def)
  qed
  have f: "file_at img' name k"
    using w' n(1) k g fw other by (simp add: file_at_def tags_wf_def file_written_def)
  have e: "unat (entry_size img' k) = length src" "entry_first img' k = of_nat i"
    using fw fit n(2) L by (simp_all add: file_written_def unat_of_nat_u32)
  have "tagfs_read (c # name) (length src) 0 img' = Ok (int (length src), take (length src) (chain_bytes img' (i # L)))"
    by (rule read_whole_file [OF f e(2,1) _ _ bound]) (use ne fw fit L g(3) in \<open>simp_all add: file_written_def\<close>)
  moreover have "take (length src) (chain_bytes img' (i # L)) = src"
    using fw fit L by (simp add: file_written_def)
  ultimately show ?thesis using r len' by auto
qed

end
