(* ===== verification/FilesKept.thy ===== *)
theory FilesKept
  imports FileWriting Formatting
begin

text \<open>
  What \<open>write-files\<close> leaves alone. One round of its loop, and then the loop, returns on every well-formed image, and the
  files, the links and the shape of the image survive it.
\<close>

section \<open>Files already there\<close>

text \<open>
  The image keeps its files: its header, every entry in use, every allocated cell of the allocation table and the data sector
  that belongs to it.
\<close>

definition files_kept :: "image \<Rightarrow> image \<Rightarrow> bool" where
  "files_kept img img' \<longleftrightarrow> ilen img' = ilen img \<and> (\<forall>x < 36. imem img' x = imem img x)
     \<and> (\<forall>k < meta_entries img. \<not> entry_free img k \<longrightarrow>
          (\<forall>j < 32. imem img' (meta_base img k + j) = imem img (meta_base img k + j)))
     \<and> (\<forall>s < fat_entries img. fat_entry img s \<noteq> 0 \<longrightarrow>
          fat_entry img' s = fat_entry img s \<and> sector_bytes img' s = sector_bytes img s)"

lemma files_kept_refl: "files_kept img img"
  by (simp add: files_kept_def)

lemma files_kept_header:
  assumes "files_kept img img'"
  shows "meta_base img' = meta_base img" "meta_entries img' = meta_entries img" "fat_entries img' = fat_entries img"
    "img_wf img \<Longrightarrow> section_pointers_of img' = section_pointers_of img"
    "k < meta_entries img \<Longrightarrow> \<not> entry_free img k \<Longrightarrow> \<not> entry_free img' k"
proof -
  have h: "imem img' x = imem img x" if "x < 36" for x using assms that by (simp add: files_kept_def)
  have l: "ilen img' = ilen img" using assms by (simp add: files_kept_def)
  note s = same_header [OF h l]
  from s show m: "meta_base img' = meta_base img" "meta_entries img' = meta_entries img" "fat_entries img' = fat_entries img"
    by blast+
  show "section_pointers_of img' = section_pointers_of img" if "img_wf img"
    using that s geometry [OF that] geometry [of img'] by (simp add: section_pointers_of_def)
  show "\<not> entry_free img' k" if "k < meta_entries img" "\<not> entry_free img k"
  proof -
    have "imem img' (meta_base img k + 8) = imem img (meta_base img k + 8)"
      using assms that by (auto simp: files_kept_def)
    with that(2) show ?thesis by (simp add: entry_free_def m(1))
  qed
qed

lemma files_kept_trans:
  assumes "files_kept img1 img2" and "files_kept img2 img3"
  shows "files_kept img1 img3"
proof -
  note h = files_kept_header [OF assms(1)]
  show ?thesis
    using assms h(5) unfolding files_kept_def h(1-3) by (auto simp: h(1-3))
qed

text \<open>A sector that is in use is not among those the file claims.\<close>

lemma used_sector_outside:
  assumes "img_wf img" and "s < fat_entries img" and "fat_entry img s \<noteq> 0"
  shows "fat_base img + 2 * s \<le> x \<Longrightarrow> x < fat_base img + 2 * s + 2 \<Longrightarrow> outside img (claimed_sectors img src) x"
    and "j < sector img \<Longrightarrow> outside img (claimed_sectors img src) (data_base img + s * sector img + j)"
proof -
  have free: "fat_entry img t = 0" "t < fat_entries img" if "t \<in> set (claimed_sectors img src)" for t
    using that in_set_takeD [of t _ "free_from img 0"] by (auto simp: claimed_sectors_def free_from_def)
  have ne: "t \<noteq> s" if "t \<in> set (claimed_sectors img src)" for t using free [OF that] assms(3) by auto
  show "outside img (claimed_sectors img src) x" if x: "fat_base img + 2 * s \<le> x" "x < fat_base img + 2 * s + 2"
    unfolding outside_def
  proof (intro ballI conjI)
    fix t assume t: "t \<in> set (claimed_sectors img src)"
    show "\<not> (fat_base img + 2 * t \<le> x \<and> x < fat_base img + 2 * t + 2)" using ne [OF t] x by linarith
    show "\<not> (data_base img + t * sector img \<le> x \<and> x < data_base img + t * sector img + sector img)"
      using section_bounds(2) [OF assms(1,2)] x by auto
  qed
  show "outside img (claimed_sectors img src) (data_base img + s * sector img + j)" if j: "j < sector img"
    unfolding outside_def
  proof (intro ballI conjI)
    fix t assume t: "t \<in> set (claimed_sectors img src)"
    show "\<not> (fat_base img + 2 * t \<le> data_base img + s * sector img + j
        \<and> data_base img + s * sector img + j < fat_base img + 2 * t + 2)"
      using section_bounds(2) [OF assms(1) free(2) [OF t]] by auto
    have "t * sector img + sector img \<le> s * sector img \<or> s * sector img + sector img \<le> t * sector img"
    proof (cases "t < s")
      case True
      then have "(t + 1) * sector img \<le> s * sector img" by (intro mult_le_mono1) simp
      then show ?thesis by simp
    next
      case False
      then have "(s + 1) * sector img \<le> t * sector img" using ne [OF t] by (intro mult_le_mono1) simp
      then show ?thesis by simp
    qed
    then show "\<not> (data_base img + t * sector img \<le> data_base img + s * sector img + j
        \<and> data_base img + s * sector img + j < data_base img + t * sector img + sector img)" using j by linarith
  qed
qed

lemma written_keeps_files:
  assumes w: "img_wf img" and fw: "file_written img img' k name (claimed_sectors img src) src"
    and k: "k < meta_entries img" "entry_free img k" and l: "ilen img' = ilen img"
  shows "files_kept img img'"
proof -
  have same: "imem img' x = imem img x"
    if "x < meta_base img k \<or> meta_base img k + 32 \<le> x" "x < tag_base img \<or> fat_base img \<le> x"
      "outside img (claimed_sectors img src) x" for x
    using fw that by (simp add: file_written_def)
  note sb = section_bounds(5,10-13) [OF w] and kb = section_bounds(7) [OF w k(1)]
  have h: "imem img' x = imem img x" if "x < 36" for x
    using that same [of x] low_outside [OF w, of x src] meta_in_image(2) [OF w k(1)] sb by simp
  have e: "imem img' (meta_base img i + j) = imem img (meta_base img i + j)"
    if "i < meta_entries img" "\<not> entry_free img i" "j < 32" for i j
  proof (rule same)
    have "i \<noteq> k" using that k(2) by auto
    then show "meta_base img i + j < meta_base img k \<or> meta_base img k + 32 \<le> meta_base img i + j"
      using that(3) by (simp add: meta_base_def) linarith
    have b: "meta_base img i + j < tag_base img" using section_bounds(7) [OF w that(1)] that(3) by simp
    then show "meta_base img i + j < tag_base img \<or> fat_base img \<le> meta_base img i + j" by simp
    show "outside img (claimed_sectors img src) (meta_base img i + j)" by (rule low_outside [OF w]) (use b sb in simp)
  qed
  have f: "fat_entry img' s = fat_entry img s \<and> sector_bytes img' s = sector_bytes img s"
    if s: "s < fat_entries img" "fat_entry img s \<noteq> 0" for s
  proof
    note g = same_header [of img' img, OF h l]
    note o = used_sector_outside [OF w s, of _ src]
    show "fat_entry img' s = fat_entry img s"
    proof (rule fat_entry_cong [OF g(2)])
      fix x assume x: "fat_base img + 2 * s \<le> x" "x < fat_base img + 2 * s + 2"
      show "imem img' x = imem img x" by (rule same [OF _ _ o(1) [OF x]]) (use x kb sb in auto)
    qed
    have "imem img' (data_base img + s * sector img + j) = imem img (data_base img + s * sector img + j)" if "j < sector img" for j
      by (rule same) (use o(2) [OF that] kb sb in auto)
    then show "sector_bytes img' s = sector_bytes img s" by (simp add: sector_bytes_def bytes_at_def g)
  qed
  show ?thesis using h e f l by (simp add: files_kept_def)
qed

lemma slot16_none:
  assumes "img_wf img" and "\<forall>j < meta_entries img. \<not> entry_free img j"
  shows "scan16 (\<lambda>i. file_metadata_entry_is_free img (meta_first (get_file_metadata img) (int i)))
    (count_file_meta_entries img) = Ok None"
proof -
  have "meta_entries img < 65536" using assms(1) by (simp add: img_wf_def)
  then show ?thesis
    using scans.scan_miss [of 0 "(\<lambda>i. file_metadata_entry_is_free img (meta_first (get_file_metadata img) (int i)), meta_entries img)"]
      slot_test [OF assms(1)] assms by (simp add: scan16_small geometry(3) [OF assms(1)])
qed

text \<open>One round of the loop, whatever the specification: it ends, and it keeps the image well formed and the files.\<close>

definition image_step :: "image \<Rightarrow> image \<Rightarrow> bool" where
  "image_step img img' \<longleftrightarrow> tags_wf img' \<and> files_kept img img' \<and> links img \<subseteq> links img'"

lemma write_one_file_step:
  assumes w: "tags_wf img" and spec: "split_spec spec = Ok (path, name)" and tags: "list_all tag_name_ok tags"
  shows "\<exists>img'. write_one_file h (section_pointers_of img) tags spec img = Ok img' \<and> image_step img img'"
proof -
  have wf: "img_wf img" using w by (simp add: tags_wf_def)
  have stay: "image_step img img" using w by (simp add: image_step_def files_kept_refl)
  show ?thesis
  proof (cases "\<exists>src. sources h path = Some src \<and> is_tagfs_file name (length src)")
    case False
    then have "write_one_file h (section_pointers_of img) tags spec img = Ok img"
      by (auto simp: write_one_file_def spec split: option.split)
    with stay show ?thesis by blast
  next
    case True
    then obtain src where src: "sources h path = Some src" "is_tagfs_file name (length src)" by blast
    show ?thesis
    proof (cases "\<exists>j < meta_entries img. entry_free img j")
      case False
      then have "write_one_file h (section_pointers_of img) tags spec img = Ok img"
        using slot16_none [OF wf] src by (simp add: write_one_file_def spec section_pointers_of_def)
      with stay show ?thesis by blast
    next
      case ex: True
      define k where "k = (LEAST j. entry_free img j)"
      have k: "k < meta_entries img" "entry_free img k" "\<forall>j < k. \<not> entry_free img j"
        using ex LeastI [of "entry_free img"] Least_le [of "entry_free img"] not_less_Least [of _ "entry_free img"]
        unfolding k_def by (blast intro: le_less_trans)+
      show ?thesis
      proof (cases "free_from img 0 = []")
        case True
        then have "scan (fat_is_free (section_pointers_of img) img) (fat_count img) 0 = Ok None"
          using scan_free [OF wf, of "section_pointers_of img" 0] by (simp add: geometry(4) [OF wf] section_pointers_of_def)
        then have "write_one_file h (section_pointers_of img) tags spec img = Ok img"
          using slot16 [OF wf k] src by (simp add: write_one_file_def spec section_pointers_of_def Let_def)
        with stay show ?thesis by blast
      next
        case False
        from write_one_file_spec [OF w spec src tags k False] written_keeps_files [OF wf _ k(1,2)]
        show ?thesis by (auto simp: image_step_def)
      qed
    qed
  qed
qed

lemma image_step_trans: "image_step img1 img2 \<Longrightarrow> image_step img2 img3 \<Longrightarrow> image_step img1 img3"
  using files_kept_trans by (auto simp: image_step_def)

lemma write_each_file_step:
  assumes "tags_wf img" and "list_all (\<lambda>s. \<exists>r. split_spec s = Ok r) specs" and "list_all tag_name_ok tags"
  shows "\<exists>img'. write_each_file h (section_pointers_of img) tags specs img = Ok img' \<and> image_step img img'"
  using assms
proof (induction specs arbitrary: img)
  case Nil
  then show ?case by (simp add: image_step_def files_kept_refl)
next
  case (Cons spec specs)
  from Cons.prems obtain path name where "split_spec spec = Ok (path, name)" by auto
  then obtain img1 where 1: "write_one_file h (section_pointers_of img) tags spec img = Ok img1" "image_step img img1"
    using write_one_file_step [OF Cons.prems(1) _ Cons.prems(3)] by blast
  have p: "section_pointers_of img1 = section_pointers_of img"
    using 1(2) files_kept_header(4) Cons.prems(1) by (simp add: image_step_def tags_wf_def)
  obtain img2 where "write_each_file h (section_pointers_of img1) tags specs img1 = Ok img2" "image_step img1 img2"
    using Cons.IH [of img1] Cons.prems 1(2) by (auto simp: image_step_def)
  with 1 p image_step_trans show ?case by auto
qed

section \<open>Properties\<close>

text \<open>
  (C6) \<open>write-files\<close> never harms the files that are there. On a well-formed image, whatever the file specifications that name a path
  and whatever the sources hold, the loop over them returns: not found, too long, no entry and no free sector are skipped. The image stays well formed and as long as it was; its
  header, every entry in use, every allocated cell of the allocation table with its data sector, and every link of a tag are kept.
\<close>

theorem write_files_keeps_files:
  assumes "tags_wf img" and "list_all (\<lambda>s. \<exists>r. split_spec s = Ok r) specs" and "list_all tag_name_ok tags"
  shows "\<exists>img'. write_each_file h (section_pointers_of img) tags specs img = Ok img' \<and> tags_wf img'
    \<and> files_kept img img' \<and> links img \<subseteq> links img'"
  using write_each_file_step [OF assms] by (simp add: image_step_def)

theorem write_files_keeps_files_witness:
  "\<exists>img'. write_each_file ((host_with 0 0)\<lparr>sources := [[97] \<mapsto> [1, 2, 3]]\<rparr>) (section_pointers_of example_image) [[109]]
      [Some [97], Some [98], Some [97, 58, 99]] example_image = Ok img'
    \<and> tags_wf img' \<and> files_kept example_image img'"
proof -
  have s: "list_all (\<lambda>s. \<exists>r. split_spec s = Ok r) [Some [97], Some [98], Some [97, 58, 99]]"
    by (simp add: split_spec_def Let_def)
  have t: "list_all tag_name_ok [[109]]" by (simp add: tag_name_ok_def)
  from write_files_keeps_files [OF example_tags_wf s t] show ?thesis by blast
qed

end
