(* ===== verification/WriteFiles.thy ===== *)
theory WriteFiles
  imports FileWriting Formatting
begin

text \<open>
  \<open>tfsfmt write-files\<close> from its command line, and the tools one after the other: an image is formatted, a file is
  written to it, and the FUSE driver reads the file.
\<close>

section \<open>The command line of \<open>write-files\<close>\<close>

definition array_args :: "cstr \<Rightarrow> cstr list \<Rightarrow> cstr list" where
  "array_args name vs = concat (map (\<lambda>v. [name, v]) vs)"

text \<open>The variables after the values \<open>vs\<close> have been put at \<open>base\<close>, behind \<open>c\<close> others.\<close>

definition put_values :: "nat \<Rightarrow> nat \<Rightarrow> cstr list \<Rightarrow> (nat \<Rightarrow> cstr option) \<Rightarrow> (nat \<Rightarrow> cstr option)" where
  "put_values base c vs f = (\<lambda>a. if base + c \<le> a \<and> a < base + c + length vs then Some (vs ! (a - base - c)) else f a)"

lemma if_twice: "(\<lambda>a. if a = i then x else if a = i then y else f a) = (\<lambda>a. if a = i then x else f a)"
  by auto

lemma parse_array_options:
  assumes "name \<noteq> []" "hd name = 45" and "flag_named name (flags p) = Some j" and "j < length (flags p)"
    and "flags p ! j = \<lparr>flag_type = FLAG_CSTR_ARRAY base idx 32, flag_option = name, flag_description = d,
       flag_provided = b, flag_required = r\<rparr>"
    and "int_var p idx = of_nat c" and "c + length vs \<le> 32" and "0 \<le> m"
  shows "parse_args i (2 * int (length vs) + m) (map Some (array_args name vs) @ rest) p =
    parse_args i m rest (p\<lparr>flags := (flags p)[j := (flags p ! j)\<lparr>flag_provided := b \<or> vs \<noteq> []\<rparr>],
      str_var := put_values base c vs (str_var p), int_var := (int_var p)(idx := of_nat (c + length vs))\<rparr>)"
  using assms
proof (induction vs arbitrary: p c b)
  case Nil
  have "(flags p)[j := (flags p ! j)\<lparr>flag_provided := b\<rparr>] = flags p"
    using Nil.prems(5) by (metis list_update_id Flag.surjective Flag.update_convs(4))
  moreover have "put_values base c [] (str_var p) = str_var p" by (auto simp: put_values_def fun_eq_iff)
  moreover have "(int_var p)(idx := of_nat (c + length [])) = int_var p" using Nil.prems(6) by (simp add: fun_upd_idem)
  ultimately show ?case by (simp add: array_args_def)
next
  case (Cons v vs)
  have c: "c < 32" using Cons.prems(7) by simp
  have u: "unat (of_nat c :: u32) = c" using c by (simp add: unat_of_nat)
  have s: "sint (of_nat c :: u32) = int c" using sint_small [of "of_nat c"] u c by simp
  let ?f = "(flags p ! j)\<lparr>flag_provided := True\<rparr>"
  let ?p1 = "p\<lparr>str_var := (str_var p)(base + c := Some v), int_var := (int_var p)(idx := of_nat c + 1),
      flags := (flags p)[j := ?f]\<rparr>"
  have parse: "flags_parse_flag (flags p ! j) (Some v) p =
      Ok (True, ?f, p\<lparr>str_var := (str_var p)(base + c := Some v), int_var := (int_var p)(idx := of_nat c + 1)\<rparr>)"
    using c Cons.prems(5,6) by (simp add: flags_parse_flag_def Let_def s u)
  have a: "0 \<le> 2 * int (length vs) + m" using Cons.prems(8) by simp
  have step: "parse_args i (2 * int (length (v # vs)) + m) (map Some (array_args name (v # vs)) @ rest) p =
      parse_args i (2 * int (length vs) + m) (map Some (array_args name vs) @ rest) ?p1"
    using parse_option [OF Cons.prems(1,2,3) a, of i "Some v" "map Some (array_args name vs) @ rest"]
    by (simp add: parse array_args_def algebra_simps)
  have named: "flag_named name (flags ?p1) = Some j"
  proof -
    have "map flag_option (flags ?p1) = map flag_option (flags p)"
      using Cons.prems(4) by (simp add: map_update list_update_same_conv)
    then show ?thesis using Cons.prems(3) flag_named_cong by metis
  qed
  have IH: "parse_args i (2 * int (length vs) + m) (map Some (array_args name vs) @ rest) ?p1 =
    parse_args i m rest (?p1\<lparr>flags := (flags ?p1)[j := (flags ?p1 ! j)\<lparr>flag_provided := True \<or> vs \<noteq> []\<rparr>],
      str_var := put_values base (Suc c) vs (str_var ?p1), int_var := (int_var ?p1)(idx := of_nat (Suc c + length vs))\<rparr>)"
    by (rule Cons.IH [OF Cons.prems(1,2) named]) (use Cons.prems in simp_all)
  have "put_values base (Suc c) vs ((str_var p)(base + c := Some v)) = put_values base c (v # vs) (str_var p)"
    by (auto simp: put_values_def fun_eq_iff nth_Cons split: nat.split intro!: arg_cong [of _ _ "(!) vs"])
  then show ?case unfolding step IH using Cons.prems(4) by (simp add: algebra_simps fun_upd_def if_twice)
qed

lemma sint_count: "n \<le> 32 \<Longrightarrow> nat (sint (of_nat n :: u32)) = n"
  using sint_small [of "of_nat n"] by (simp add: unat_of_nat)

lemma parse_write_files:
  assumes "target = [] \<or> hd target \<noteq> 45" and "length files \<le> 32" and "length tags \<le> 32"
  shows "parse_write_files_options (int (length files + length files + length tags + length tags) + 3)
      (program # subcommand # Some target # map Some (array_args (ascii ''-file'') files @ array_args (ascii ''-tag'') tags) @ [None]) no_flags
    = Ok (if files = [] then None
          else Some \<lparr>wo_file_specs = map Some files, wo_tags = map Some tags, wo_image_name = Some target\<rparr>)"
proof -
  let ?file = "ascii ''-file''" and ?tag = "ascii ''-tag''"
  let ?F = "\<lambda>b. \<lparr>flag_type = FLAG_CSTR_ARRAY 0 0 32, flag_option = ?file, flag_description = ascii
      ''source path and destination name of the file in `<source path>:<destination name>` format'', flag_provided = b, flag_required = True\<rparr>"
    and ?T = "\<lambda>b. \<lparr>flag_type = FLAG_CSTR_ARRAY 32 1 32, flag_option = ?tag,
      flag_description = ascii ''name of a tag to link to provided files'', flag_provided = b, flag_required = False\<rparr>"
    and ?pos = "\<lambda>b. \<lparr>flag_type = FLAG_CSTR 64, flag_option = ascii ''image_name'',
      flag_description = ascii ''name of the image to format'', flag_provided = b, flag_required = True\<rparr>"
  let ?p = "no_flags\<lparr>positionals := [?pos False], flags := [?F False, ?T False]\<rparr>"
  let ?p1 = "no_flags\<lparr>str_var := (\<lambda>_. None)(64 := Some target), positionals := [?pos True], flags := [?F False, ?T False]\<rparr>"
  let ?p2 = "?p1\<lparr>flags := [?F (files \<noteq> []), ?T False], str_var := put_values 0 0 files (str_var ?p1),
    int_var := (int_var ?p1)(0 := of_nat (length files))\<rparr>"
  let ?p3 = "?p2\<lparr>flags := [?F (files \<noteq> []), ?T (tags \<noteq> [])], str_var := put_values 32 0 tags (str_var ?p2),
    int_var := (int_var ?p2)(1 := of_nat (length tags))\<rparr>"
  have start: "write_files_flags no_flags = Ok ?p"
    by (simp add: write_files_flags_def flags_add_cstr_positional_def flags_add_cstr_array_flag_def add_flag_def no_flags_def
        FLAG_COUNT_def POSITIONAL_COUNT_def)
  have dash: "?file \<noteq> []" "hd ?file = 45" "?tag \<noteq> []" "hd ?tag = 45" "?tag \<noteq> ?file" by (simp_all add: ascii_def)
  let ?n = "2 * int (length files) + (2 * int (length tags) + 0)"
  let ?rest = "map Some (array_args ?file files) @ map Some (array_args ?tag tags) @ [None]"
  have "parse_args 0 (?n + 1) (Some target # ?rest) ?p = parse_args (0 + 1) ?n ?rest ?p1"
    by (subst parse_positional [where f = "?pos True" and p' = "?p1\<lparr>positionals := [?pos False]\<rparr>"])
       (use assms in \<open>simp_all add: flags_parse_flag_def no_flags_def\<close>)
  also have "\<dots> = parse_args (0 + 1) (2 * int (length tags) + 0) (map Some (array_args ?tag tags) @ [None]) ?p2"
    by (subst parse_array_options [where j = 0 and base = 0 and idx = 0 and c = 0 and b = False])
       (use assms(2) dash in \<open>simp_all add: no_flags_def\<close>)
  also have "\<dots> = parse_args (0 + 1) 0 [None] ?p3"
    by (subst parse_array_options [where j = 1 and base = 32 and idx = 1 and c = 0 and b = False])
       (use assms(3) dash in \<open>simp_all add: no_flags_def\<close>)
  finally have "parse_args 0 (?n + 1) (Some target # ?rest) ?p = Ok (True, ?p3)" by (simp only: parse_args_end)
  then have f: "flags_parse_flags (?n + 1) (Some target # ?rest) ?p = Ok (files \<noteq> [], ?p3)"
    by (simp add: flags_parse_flags_def not_given_def)
  have n: "int (length files + length files + length tags + length tags) + 3 - 1 - 1 = ?n + 1" by simp
  have "map (str_var ?p3) [0..<length files] = map Some files"
    using assms(2) by (intro nth_equalityI) (simp_all add: put_values_def)
  moreover have "map (\<lambda>i. str_var ?p3 (32 + i)) [0..<length tags] = map Some tags"
    by (intro nth_equalityI) (simp_all add: put_values_def)
  moreover have "str_var ?p3 64 = Some target" using assms(2,3) by (simp add: put_values_def no_flags_def)
  ultimately have "write_files_options_of ?p3 =
      \<lparr>wo_file_specs = map Some files, wo_tags = map Some tags, wo_image_name = Some target\<rparr>"
    using sint_count [OF assms(2)] sint_count [OF assms(3)] by (simp add: write_files_options_of_def)
  then show ?thesis
    unfolding parse_write_files_options_def start obind.simps parse_rest_def shift_args_def list.case prod.case n map_append
      append_assoc append_Cons f
    by (simp only: obind.simps prod.case if_distrib [of "map_option write_files_options_of"] option.map if_not_P if_P not_not
        cong: if_cong) (cases "files = []"; simp)
qed

lemma filter_valid_names: "filter_valid_tag_names (map Some names) = Ok (filter (\<lambda>n. length n < 28) names)"
  by (induction names) simp_all

lemma length_array_args: "length (array_args name vs) = length vs + length vs"
  by (induction vs) (simp_all add: array_args_def)

lemma write_files_run:
  assumes "target = [] \<or> hd target \<noteq> 45" and "files \<noteq> []" and "length files \<le> 32" and "length tags \<le> 32"
    and "images h target = Some img" and "36 \<le> ilen img"
    and "unat (m_sector_count img * m_sector_size img) = ilen img" and "mmap_ok h (ilen img)"
  shows "tfsfmt (program # ascii ''write-files'' # target # array_args (ascii ''-file'') files @ array_args (ascii ''-tag'') tags) h
    = obind (write_each_file h (section_pointers_of img) (filter (\<lambda>n. length n < 28) tags) (map Some files) img)
        (\<lambda>img'. Ok (finish (Some target) img img' h))"
proof -
  have m: "mmap_file h img (ilen img) = Some img" using assms(6,8) by (auto simp: mmap_file_def)
  have r: "read_fs_metadata img = Ok (ilen img)" using assms(6,7) by (simp add: read_fs_metadata_def)
  let ?args = "program # ascii ''write-files'' # target # array_args (ascii ''-file'') files @ array_args (ascii ''-tag'') tags"
  have n: "int (length ?args) = int (length files + length files + length tags + length tags) + 3"
    by (simp add: length_array_args)
  have sub: "ascii ''write-files'' \<noteq> ascii ''format''" by (simp add: ascii_def)
  have "write_files (int (length ?args)) (map Some ?args @ [None]) h =
      obind (write_each_file h (section_pointers_of img) (filter (\<lambda>n. length n < 28) tags) (map Some files) img)
        (\<lambda>img'. Ok (finish (Some target) img img' h))"
    unfolding write_files_def n
    using parse_write_files [OF assms(1,3,4), of "Some program" "Some (ascii ''write-files'')"] assms(2)
    by (simp add: filter_valid_names open_image_def assms(5) r m)
  then show ?thesis unfolding tfsfmt_def Let_def using sub by simp
qed

text \<open>
  (C2) The three programs together. An image is formatted, a file is written to it with \<open>tfsfmt write-files\<close>, and the
  FUSE driver reads the file: it gets back exactly the bytes of the source, over however many sectors they take, as
  long as the FAT has as many entries.
\<close>

theorem format_write_read:
  assumes "target = [] \<or> hd target \<noteq> 45" and "settings_ok settings"
    and "options = options_from settings target" and "geometry_ok options"
    and "0 < unat (fo_file_meta_sector_count options)"
    and "unat (fo_tag_meta_sector_count options) * unat (fo_sector_size options) div 32 < 2 ^ 16"
    and "images h target = Some file" and "bytes_of options = ilen file" and "mmap_ok h (ilen file)" and "\<not> msync_fails h"
    and "split_spec (Some spec) = Ok (path, name)" and "sources h path = Some src" and "is_tagfs_file name (length src)"
    and "name \<noteq> []" and "hd name \<noteq> 0" and "src \<noteq> []"
    and "sectors_for (length src) (unat (fo_sector_size options))
      \<le> unat (fo_fat_sector_count options) * unat (fo_sector_size options) div 2"
    and "length tags \<le> 32" and "list_all (\<lambda>t. t \<noteq> [] \<and> hd t \<noteq> 0) tags"
  shows "\<exists>h1 h2 img.
      tfsfmt (program # ascii ''format'' # concat (map (option_args format_names) settings) @ [target]) h = Ok (None, h1)
    \<and> tfsfmt (program # ascii ''write-files'' # target # array_args (ascii ''-file'') [spec] @ array_args (ascii ''-tag'') tags) h1
      = Ok (None, h2)
    \<and> images h2 target = Some img \<and> tagfs_read (47 # name) (length src) 0 img = Ok (int (length src), src)"
proof -
  have mm: "mmap_ok h (bytes_of options)" and le0: "bytes_of options \<le> ilen file" using assms(8,9) by simp_all
  obtain img where run: "tfsfmt (program # ascii ''format'' # concat (map (option_args format_names) settings) @ [target]) h =
      Ok (None, h\<lparr>images := (images h)(target := Some img)\<rparr>)"
    and f: "formatted options (bytes_of options) file img" and l: "ilen img = ilen file"
    using format_effect [OF assms(1,2) _ _ assms(4,7) le0 mm, of "[]" program] assms(3,10) by (auto simp: settings_ok_def)
  let ?h1 = "h\<lparr>images := (images h)(target := Some img)\<rparr>"
  have le: "bytes_of options \<le> ilen img" using assms(8) l by simp
  note w = formatted_wf [OF f assms(4) le] and e = formatted_empty [OF f assms(4) le] and hd = formatted_header [OF f]
  have tw: "tags_wf img" using w(1) assms(6) f by (simp add: tags_wf_def tag_entries_def hd(1) formatted_def)
  have s: "64 \<le> sector img" by (rule section_bounds(5) [OF w(1)])
  have "1 * 64 \<le> unat (fo_file_meta_sector_count options) * unat (fo_sector_size options)"
    using assms(5) s hd(1) by (intro mult_le_mono) simp_all
  then have k: "0 < meta_entries img" by (simp add: hd(4))
  have free: "free_from img 0 = [0..<fat_entries img]" unfolding free_from_def using e(2) by (auto intro: filter_True)
  have room: "sectors_for (length src) (sector img) \<le> length (free_from img 0)"
    using assms(17) by (simp add: free hd)
  let ?tags = "filter (\<lambda>n. length n < 28) tags"
  have tags: "list_all tag_name_ok ?tags" using assms(19) by (auto simp: list_all_iff tag_name_ok_def)
  obtain img' where one: "write_one_file ?h1 (section_pointers_of img) ?tags (Some spec) img = Ok img'" "ilen img' = ilen img"
    "tagfs_read (47 # name) (length src) 0 img' = Ok (int (length src), src)"
    using written_reads_back [OF tw assms(11) _ assms(13) tags k e(1) [OF k] _ room assms(16), of ?h1 47] assms(12) by auto
  have i: "images ?h1 target = Some img" "mmap_ok ?h1 (ilen img)" "36 \<le> ilen img"
    using assms(9) l w(1) by (simp_all add: img_wf_def)
  have n: "unat (m_sector_count img * m_sector_size img) = ilen img"
    using formatted_length [OF f assms(4)] assms(8) l by simp
  have keep: "img'\<lparr>ilen := ilen img\<rparr> = img'" using one(2) by (cases img') simp
  have "tfsfmt (program # ascii ''write-files'' # target # array_args (ascii ''-file'') [spec] @ array_args (ascii ''-tag'') tags) ?h1
      = Ok (None, ?h1\<lparr>images := (images ?h1)(target := Some img')\<rparr>)"
    using write_files_run [OF assms(1) _ _ assms(18) i(1,3) n i(2), of "[spec]" program] one(1,2) assms(10)
    by (simp add: finish_def keep)
  with run one(3) show ?thesis by (intro exI conjI) (assumption | simp)+
qed

definition host_with_source :: host where
  "host_with_source = (host_with 0xAA 512000)\<lparr>sources := [[97] \<mapsto> replicate 1000 7]\<rparr>"

theorem format_write_read_witness:
  "\<exists>h1 h2 img. tfsfmt [[116], ascii ''format'', [105]] host_with_source = Ok (None, h1)
    \<and> tfsfmt [[116], ascii ''write-files'', [105], ascii ''-file'', [97, 58, 98], ascii ''-tag'', [109]] h1 = Ok (None, h2)
    \<and> images h2 [105] = Some img \<and> tagfs_read (47 # [98]) 1000 0 img = Ok (1000, replicate 1000 7)"
proof -
  have sp: "split_spec (Some [97, 58, 98]) = Ok ([97], [98])" by (simp add: split_spec_def)
  have h: "images host_with_source [105] = Some \<lparr>imem = (\<lambda>x. 0xAA), ilen = 512000\<rparr>" "mmap_ok host_with_source n"
    "\<not> msync_fails host_with_source" "sources host_with_source [97] = Some (replicate 1000 7)" for n
    by (simp_all add: host_with_source_def host_with_def)
  show ?thesis
    using format_write_read [OF _ _ refl default_options(3) _ _ h(1) _ h(2,3) sp h(4), where tags = "[[109]]" and program = "[116]"]
    by (simp add: settings_ok_def bytes_of_def is_tagfs_file_def sectors_for_def array_args_def
        default_options(1))
qed



definition crowded_image :: image where
  "crowded_image = \<lparr>imem = st32 (st32 (\<lambda>x. 1) 12 65536) 16 32, ilen = 4194304\<rparr>"


end
