(* ===== verification/FuseSession.thy ===== *)
theory FuseSession
  imports WriteFiles
begin

text \<open>
  The FUSE driver as a server: \<open>main\<close> of \<open>src/tagfs/FUSE_driver/src/tagfs.c\<close> and the table \<open>myfs_ops\<close> that it gives to the FUSE
  library. The library is not in the repository; it is any sequence of calls through the table. The theory
  shows that no such session harms the image, with the reads left out that run past the end of a file, and the removal of files that
  do not exist, which are the two calls that go wrong.
\<close>

section \<open>Definitions\<close>

text \<open>A call through the table, with the arguments that its callback uses, and what it gives back.\<close>

datatype fuse_call =
    Op_getattr "u8 list" stat
  | Op_readdir "u8 list"
  | Op_read "u8 list" nat nat
  | Op_mknod "u8 list" u32
  | Op_write "u8 list" "u8 list" nat
  | Op_unlink "u8 list"

datatype fuse_reply = Attributes int stat | Listing int "dir_entry list" | Contents int "u8 list" | Status int

fun myfs_ops :: "nat \<Rightarrow> fuse_call \<Rightarrow> image \<Rightarrow> (fuse_reply \<times> image) outcome" where
  "myfs_ops fuel (Op_getattr path st) img = obind (tagfs_getattr path st img) (\<lambda>(r, st). Ok (Attributes r st, img))"
| "myfs_ops fuel (Op_readdir path) img = obind (tagfs_readdir path img) (\<lambda>(r, es). Ok (Listing r es, img))"
| "myfs_ops fuel (Op_read path n offset) img = obind (tagfs_read path n offset img) (\<lambda>(r, bs). Ok (Contents r bs, img))"
| "myfs_ops fuel (Op_mknod path mode) img = obind (tagfs_mknod path mode img) (\<lambda>(r, img). Ok (Status r, img))"
| "myfs_ops fuel (Op_write path buf offset) img = obind (tagfs_write path buf offset img) (\<lambda>(r, img). Ok (Status r, img))"
| "myfs_ops fuel (Op_unlink path) img = obind (tagfs_unlink fuel path img) (\<lambda>(r, img). Ok (Status r, img))"

text \<open>
  \<open>main\<close>, up to the call of the library: the status it returns, or the mapping that the callbacks get. When \<open>mmap\<close> fails its result
  is not tested, and no byte of \<open>mapped_img\<close> can be accessed.
\<close>

datatype driver_start = Return nat | Serve image

definition driver_main :: "host \<Rightarrow> driver_start outcome" where
  "driver_main h =
     (case images h (ascii ''driver.img'') of None \<Rightarrow> Ok (Return 1)
      | Some file \<Rightarrow>
        obind (read_fs_metadata file) (\<lambda>n.
        case mmap_file h file n of None \<Rightarrow> Ok (Serve (file\<lparr>ilen := 0\<rparr>)) | Some img \<Rightarrow> Ok (Serve img)))"

section \<open>Images that a session keeps\<close>

text \<open>
  A cell of the allocation table is the number of a sector or the end mark. An entry in use has a first sector, or none
  and the size zero, and its name ends within its field.
\<close>

definition cell_ok :: "image \<Rightarrow> nat \<Rightarrow> bool" where
  "cell_ok img s \<longleftrightarrow> fat_entry img s = 0xffff \<or> unat (fat_entry img s) < fat_entries img"

definition entry_ok :: "image \<Rightarrow> nat \<Rightarrow> bool" where
  "entry_ok img k \<longleftrightarrow> entry_free img k
     \<or> (entry_first img k = 0xffff \<and> entry_size img k = 0 \<or> unat (entry_first img k) < fat_entries img)
       \<and> (\<exists>j < 24. imem img (meta_base img k + 8 + j) = 0)"

definition driver_wf :: "image \<Rightarrow> bool" where
  "driver_wf img \<longleftrightarrow> img_wf img \<and> (\<forall>s < fat_entries img. cell_ok img s) \<and> (\<forall>k < meta_entries img. entry_ok img k)"

text \<open>From one image of a session to the next: the header and the length stay.\<close>

definition evolves :: "image \<Rightarrow> image \<Rightarrow> bool" where
  "evolves img img' \<longleftrightarrow> driver_wf img' \<and> ilen img' = ilen img \<and> (\<forall>x < 64. imem img' x = imem img x)"

lemma evolves_refl: "driver_wf img \<Longrightarrow> evolves img img"
  by (simp add: evolves_def)

lemma evolves_trans: "evolves img1 img2 \<Longrightarrow> evolves img2 img3 \<Longrightarrow> evolves img1 img3"
  by (simp add: evolves_def)

text \<open>A store into the allocation table or the data leaves all that is below alone.\<close>

definition stores :: "image \<Rightarrow> image \<Rightarrow> bool" where
  "stores img img' \<longleftrightarrow> evolves img img' \<and> (\<forall>x < fat_base img. imem img' x = imem img x)"

lemma stores_refl: "driver_wf img \<Longrightarrow> stores img img"
  by (simp add: stores_def evolves_def)

lemma evolves_geometry:
  assumes "driver_wf img" and "evolves img img'"
  shows "sector img' = sector img" "fat_base img' = fat_base img" "data_base img' = data_base img"
    "fat_entries img' = fat_entries img" "meta_entries img' = meta_entries img" "meta_base img' = meta_base img"
    "img_wf img'" "get_fat img' = get_fat img" "get_data img' = get_data img"
    "get_file_metadata img' = get_file_metadata img" "driver_wf img'"
proof -
  have w: "img_wf img" "ilen img' = ilen img" "\<forall>x < 64. imem img' x = imem img x"
    using assms by (simp_all add: driver_wf_def evolves_def)
  from header_kept [OF w] assms(2)
  show "sector img' = sector img" "fat_base img' = fat_base img" "data_base img' = data_base img"
    "fat_entries img' = fat_entries img" "meta_entries img' = meta_entries img" "meta_base img' = meta_base img"
    "img_wf img'" "get_fat img' = get_fat img" "get_data img' = get_data img"
    "get_file_metadata img' = get_file_metadata img" "driver_wf img'" by (simp_all add: evolves_def)
qed

text \<open>
  A change above the header evolves the image when the cells and the entries it touches are as they should be. The three cases
  are a change of one entry, of one cell of the table, and of the data.
\<close>

lemma entry_change:
  assumes w: "driver_wf img" and k: "k < meta_entries img" and l: "ilen img' = ilen img"
    and out: "\<forall>x. x < meta_base img k \<or> meta_base img k + 32 \<le> x \<longrightarrow> imem img' x = imem img x"
    and new: "imem img' (meta_base img k + 8) = 0
      \<or> (ld32 (imem img') (meta_base img k) = 0xffff \<and> ld32 (imem img') (meta_base img k + 4) = 0
          \<or> unat (ld32 (imem img') (meta_base img k)) < fat_entries img)
        \<and> (\<exists>j < 24. imem img' (meta_base img k + 8 + j) = 0)"
  shows "evolves img img'"
proof -
  have wf: "img_wf img" using w by (simp add: driver_wf_def)
  have low: "\<forall>x < 64. imem img' x = imem img x" using meta_in_image(2) [OF wf k] out by simp
  note h = header_kept [OF wf l low]
  have c: "cell_ok img' s" if s: "s < fat_entries img" for s
  proof -
    have "fat_entry img' s = fat_entry img s"
      by (rule fat_entry_cong [OF h(2)]) (use section_bounds(1) [OF wf k] out in simp)
    then show ?thesis using w s by (simp add: driver_wf_def cell_ok_def h)
  qed
  have e: "entry_ok img' j" if j: "j < meta_entries img" for j
  proof (cases "j = k")
    case True
    then show ?thesis using new by (auto simp: entry_ok_def entry_free_def entry_first_def entry_size_def h)
  next
    case False
    have out': "imem img' (meta_base img j + d) = imem img (meta_base img j + d)" if "d < 32" for d
    proof -
      from False have "j + 1 \<le> k \<or> k + 1 \<le> j" by linarith
      then have "meta_base img j + d < meta_base img k \<or> meta_base img k + 32 \<le> meta_base img j + d"
        using that unfolding meta_base_def by linarith
      then show ?thesis using out by blast
    qed
    have "ld32 (imem img') (meta_base img j) = ld32 (imem img) (meta_base img j)"
      using out' [of 0] out' [of 1] out' [of 2] out' [of 3] by (simp add: ld32_def)
    moreover have "ld32 (imem img') (meta_base img j + 4) = ld32 (imem img) (meta_base img j + 4)"
      using out' [of 4] out' [of 5] out' [of 6] out' [of 7] by (simp add: ld32_def add.commute)
    moreover have "imem img' (meta_base img j + 8 + d) = imem img (meta_base img j + 8 + d)" if "d < 24" for d
      using out' [of "8 + d"] that by (simp add: add.assoc)
    moreover have "imem img' (meta_base img j + 8) = imem img (meta_base img j + 8)" by (rule out') simp
    moreover have "entry_ok img j" using w j by (simp add: driver_wf_def)
    ultimately show ?thesis by (auto simp: entry_ok_def entry_free_def entry_first_def entry_size_def h)
  qed
  show ?thesis using c e l low by (simp add: evolves_def driver_wf_def h)
qed

lemma meta_kept:
  assumes w: "driver_wf img" and l: "ilen img' = ilen img" and low: "\<forall>x < fat_base img. imem img' x = imem img x"
    and c: "\<And>s. s < fat_entries img \<Longrightarrow> fat_entry img' s = 0xffff \<or> unat (fat_entry img' s) < fat_entries img"
  shows "stores img img'"
proof -
  have wf: "img_wf img" using w by (simp add: driver_wf_def)
  have "64 \<le> fat_base img" using section_bounds(5,10,11,12) [OF wf] by linarith
  then have low': "\<forall>x < 64. imem img' x = imem img x" using low by simp
  note h = header_kept [OF wf l low']
  have e: "entry_ok img' j" if j: "j < meta_entries img" for j
  proof -
    have o: "imem img' (meta_base img j + d) = imem img (meta_base img j + d)" if "d < 32" for d
      using section_bounds(1) [OF wf j] that low by simp
    have "ld32 (imem img') (meta_base img j) = ld32 (imem img) (meta_base img j)"
      using o [of 0] o [of 1] o [of 2] o [of 3] by (simp add: ld32_def)
    moreover have "ld32 (imem img') (meta_base img j + 4) = ld32 (imem img) (meta_base img j + 4)"
      using o [of 4] o [of 5] o [of 6] o [of 7] by (simp add: ld32_def add.commute)
    moreover have "imem img' (meta_base img j + 8 + d) = imem img (meta_base img j + 8 + d)" if "d < 24" for d
      using o [of "8 + d"] that by (simp add: add.assoc)
    moreover have "imem img' (meta_base img j + 8) = imem img (meta_base img j + 8)" by (rule o) simp
    moreover have "entry_ok img j" using w j by (simp add: driver_wf_def)
    ultimately show ?thesis by (auto simp: entry_ok_def entry_free_def entry_first_def entry_size_def h)
  qed
  show ?thesis using c e l low low' by (simp add: stores_def evolves_def driver_wf_def cell_ok_def h)
qed

lemma fat_change:
  assumes w: "driver_wf img" and s: "s < fat_entries img" and v: "v = 0xffff \<or> unat v < fat_entries img"
  shows "stores img (img\<lparr>imem := st16 (imem img) (fat_base img + 2 * s) v\<rparr>)"
proof (rule meta_kept [OF w])
  let ?img = "img\<lparr>imem := st16 (imem img) (fat_base img + 2 * s) v\<rparr>"
  show "\<forall>x < fat_base img. imem ?img x = imem img x" by (simp add: cell16.st_frame)
  fix j assume j: "j < fat_entries img"
  have b: "fat_base ?img = fat_base img"
    by (rule same_header(2)) (use section_bounds(5,10,11,12) [of img] w in \<open>simp_all add: cell16.st_frame driver_wf_def\<close>)
  show "fat_entry ?img j = 0xffff \<or> unat (fat_entry ?img j) < fat_entries img"
  proof (cases "j = s")
    case True
    then show ?thesis using v by (simp add: fat_entry_def b)
  next
    case False
    then have "fat_entry ?img j = fat_entry img j"
      by (intro fat_entry_cong [OF b]) (simp, rule cell16.st_frame, linarith)
    then show ?thesis using w j by (simp add: driver_wf_def cell_ok_def)
  qed
qed simp

lemma data_change:
  assumes w: "driver_wf img" and a: "data_base img \<le> a"
  shows "stores img (img\<lparr>imem := mem_put (imem img) a bs\<rparr>)"
proof (rule meta_kept [OF w])
  let ?img = "img\<lparr>imem := mem_put (imem img) a bs\<rparr>"
  have wf: "img_wf img" using w by (simp add: driver_wf_def)
  have out: "imem ?img x = imem img x" if "x < data_base img" for x using that a by (simp add: mem_put_outside)
  then show "\<forall>x < fat_base img. imem ?img x = imem img x" using section_bounds(13) [OF wf] by simp
  fix j assume j: "j < fat_entries img"
  have b: "fat_base ?img = fat_base img"
    by (rule same_header(2)) (use section_bounds(5,10,11,12,13) [OF wf] out in auto)
  have "fat_entry ?img j = fat_entry img j"
    by (rule fat_entry_cong [OF b]) (use section_bounds(2) [OF wf j] out in auto)
  then show "fat_entry ?img j = 0xffff \<or> unat (fat_entry ?img j) < fat_entries img"
    using w j by (simp add: driver_wf_def cell_ok_def)
qed simp

lemma stores_facts:
  assumes w: "driver_wf img" and s: "stores img img'"
  shows "evolves img img'" and "stores img' img'' \<Longrightarrow> stores img img''"
    and "k < meta_entries img \<Longrightarrow> entry_first img' k = entry_first img k"
proof -
  show e: "evolves img img'" using s by (simp add: stores_def)
  note g = evolves_geometry [OF w e]
  show "stores img img''" if "stores img' img''"
    using s that by (simp add: stores_def g(2)) (blast intro: evolves_trans)
  show "entry_first img' k = entry_first img k" if k: "k < meta_entries img"
  proof -
    have "meta_base img k + 32 \<le> fat_base img" using section_bounds(1) [of img k] w k by (simp add: driver_wf_def)
    then show ?thesis unfolding entry_first_def g(6) by (intro cell32.ld_frame) (use s in \<open>simp add: stores_def\<close>)
  qed
qed

lemma size_change:
  assumes w: "driver_wf img" and k: "k < meta_entries img" and f: "entry_first img k \<noteq> 0xffff"
  shows "evolves img (img\<lparr>imem := st32 (imem img) (meta_base img k + 4) v\<rparr>)"
proof (rule entry_change [OF w k])
  let ?img = "img\<lparr>imem := st32 (imem img) (meta_base img k + 4) v\<rparr>"
  show "\<forall>x. x < meta_base img k \<or> meta_base img k + 32 \<le> x \<longrightarrow> imem ?img x = imem img x"
    by (simp add: cell32.st_frame)
  have "entry_ok img k" using w k by (simp add: driver_wf_def)
  moreover have "ld32 (imem ?img) (meta_base img k) = ld32 (imem img) (meta_base img k)"
    by (simp add: cell32.ld_st_disjoint)
  moreover have "imem ?img (meta_base img k + 8 + j) = imem img (meta_base img k + 8 + j)" for j
    by (simp add: cell32.st_frame)
  moreover have "imem ?img (meta_base img k + 8) = imem img (meta_base img k + 8)" by (simp add: cell32.st_frame)
  ultimately show "imem ?img (meta_base img k + 8) = 0
      \<or> (ld32 (imem ?img) (meta_base img k) = 0xffff \<and> ld32 (imem ?img) (meta_base img k + 4) = 0
          \<or> unat (ld32 (imem ?img) (meta_base img k)) < fat_entries img)
        \<and> (\<exists>j < 24. imem ?img (meta_base img k + 8 + j) = 0)"
    using f by (auto simp: entry_ok_def entry_free_def entry_first_def)
qed simp

lemma first_change:
  assumes w: "driver_wf img" and k: "k < meta_entries img" and v: "unat v < fat_entries img"
  shows "evolves img (img\<lparr>imem := st32 (imem img) (meta_base img k) v\<rparr>)"
proof (rule entry_change [OF w k])
  let ?img = "img\<lparr>imem := st32 (imem img) (meta_base img k) v\<rparr>"
  show "\<forall>x. x < meta_base img k \<or> meta_base img k + 32 \<le> x \<longrightarrow> imem ?img x = imem img x"
    by (simp add: cell32.st_frame)
  have "entry_ok img k" using w k by (simp add: driver_wf_def)
  moreover have "ld32 (imem ?img) (meta_base img k) = v" by simp
  moreover have "imem ?img (meta_base img k + 8 + j) = imem img (meta_base img k + 8 + j)" for j
    by (simp add: cell32.st_frame)
  moreover have "imem ?img (meta_base img k + 8) = imem img (meta_base img k + 8)" by (simp add: cell32.st_frame)
  ultimately show "imem ?img (meta_base img k + 8) = 0
      \<or> (ld32 (imem ?img) (meta_base img k) = 0xffff \<and> ld32 (imem ?img) (meta_base img k + 4) = 0
          \<or> unat (ld32 (imem ?img) (meta_base img k)) < fat_entries img)
        \<and> (\<exists>j < 24. imem ?img (meta_base img k + 8 + j) = 0)"
    using v by (auto simp: entry_ok_def entry_free_def)
qed simp

lemma name_cleared:
  assumes w: "driver_wf img" and k: "k < meta_entries img"
  shows "evolves img (img\<lparr>imem := st8 (imem img) (meta_base img k + 8) 0\<rparr>)"
  by (rule entry_change [OF w k]) (simp_all add: st8_def)

lemma created_evolves:
  assumes w: "driver_wf img" and k: "k < meta_entries img" and n: "length name < 24"
  shows "evolves img (created img k name)"
proof (rule entry_change [OF w k])
  have wf: "img_wf img" using w by (simp add: driver_wf_def)
  note g = created_geometry [OF wf k n] and e = created_entry [OF wf k n]
  show "ilen (created img k name) = ilen img" by (rule g(8))
  show "\<forall>x. x < meta_base img k \<or> meta_base img k + 32 \<le> x \<longrightarrow> imem (created img k name) x = imem img x"
    using created_outside [OF n] by blast
  have "\<exists>j < 24. imem (created img k name) (meta_base img k + 8 + j) = 0"
    using e(1) n by (intro exI [of _ "length name"]) (simp add: has_name_def g)
  then show "imem (created img k name) (meta_base img k + 8) = 0
      \<or> (ld32 (imem (created img k name)) (meta_base img k) = 0xffff
          \<and> ld32 (imem (created img k name)) (meta_base img k + 4) = 0
          \<or> unat (ld32 (imem (created img k name)) (meta_base img k)) < fat_entries img)
        \<and> (\<exists>j < 24. imem (created img k name) (meta_base img k + 8 + j) = 0)"
    using e(2,3) by (simp add: entry_first_def entry_size_def g)
qed

section \<open>Looking files up\<close>

text \<open>A path of a file: a slash and a name, without the terminator.\<close>

definition file_path :: "u8 list \<Rightarrow> bool" where
  "file_path path \<longleftrightarrow> hd path = 47 \<and> tl path \<noteq> [] \<and> 0 \<notin> set (tl path)"

text \<open>\<open>strcmp\<close> does not run past the end of a string that ends in the image.\<close>

lemma strcmp_end:
  "imem img (a + j) = 0 \<Longrightarrow> a + j < ilen img \<Longrightarrow> 0 \<notin> set cs \<Longrightarrow> img_strcmp img cs (int a) =
     Ok (bytes_at (imem img) a (length cs) = cs \<and> imem img (a + length cs) = 0)
   \<and> (bytes_at (imem img) a (length cs) = cs \<longrightarrow> length cs \<le> j)"
proof (induction cs arbitrary: a j)
  case Nil
  then show ?case by (simp add: img_access(1) bytes_at_def)
next
  case (Cons c cs)
  have ld: "img_ld8 img (int a) = Ok (imem img a)" by (rule img_access(1)) (use Cons.prems in linarith)
  have b: "bytes_at (imem img) a (Suc (length cs)) = imem img a # bytes_at (imem img) (a + 1) (length cs)"
    unfolding bytes_at_def by (subst upt_conv_Cons) (simp_all add: map_Suc_upt [symmetric] del: upt_Suc map_Suc_upt)
  show ?case
  proof (cases "imem img a = c")
    case True
    then have "j \<noteq> 0" using Cons.prems by (intro notI) auto
    then obtain i where "j = Suc i" by (cases j) auto
    then show ?thesis using Cons.IH [of "a + 1" i] Cons.prems True ld b by (auto simp: add.commute)
  next
    case False
    then show ?thesis using ld b by simp
  qed
qed

lemma any_name_test:
  assumes w: "driver_wf img" and k: "k < meta_entries img" and n: "0 \<notin> set name"
  shows "img_strcmp img name (meta_name (get_file_metadata img) (int k)) = Ok (has_name img k name)"
    and "has_name img k name \<Longrightarrow> length name < 24"
proof -
  have wf: "img_wf img" using w by (simp add: driver_wf_def)
  have "entry_ok img k" using w k by (simp add: driver_wf_def)
  then obtain j where j: "j < 24" "imem img (meta_base img k + 8 + j) = 0"
    by (cases "entry_free img k") (force simp: entry_ok_def entry_free_def)+
  have "meta_base img k + 8 + j < ilen img" using meta_in_image(1) [OF wf k] j(1) by linarith
  note e = strcmp_end [OF j(2) this n]
  show "img_strcmp img name (meta_name (get_file_metadata img) (int k)) = Ok (has_name img k name)"
    unfolding meta_addr(3) [OF wf] has_name_def using e by blast
  show "length name < 24" if "has_name img k name" using e that j(1) by (simp add: has_name_def)
qed

lemma any_lookup:
  assumes w: "driver_wf img" and n: "0 \<notin> set name"
  obtains (found) k where "file_at img name k"
    | (missing) "\<forall>k < meta_entries img. \<not> has_name img k name"
      "get_file_id_from_name img (get_file_metadata img) name = Ok 0"
proof -
  have wf: "img_wf img" using w by (simp add: driver_wf_def)
  have "(\<exists>k < meta_entries img. has_name img k name \<and> (\<forall>j < k. \<not> has_name img j name)
        \<and> name_search img (get_file_metadata img) name 0 = Ok (of_nat (k + 1)))
    \<or> (\<forall>j < meta_entries img. \<not> has_name img j name) \<and> name_search img (get_file_metadata img) name 0 = Ok 0"
    using names.scan_total [of "(img, get_file_metadata img, name)" "\<lambda>j. has_name img j name"]
      any_name_test(1) [OF w _ n] geometry(3) [OF wf] by simp
  then show ?thesis
    using found missing any_name_test(2) [OF w _ n] wf unfolding get_file_id_from_name_def file_at_def by blast
qed

section \<open>Every call returns\<close>

lemma load_meta:
  assumes "driver_wf img" and "k < meta_entries img"
  shows "img_ld32 img (int (meta_base img k)) = Ok (entry_first img k)"
    and "img_ld32 img (int (meta_base img k + 4)) = Ok (entry_size img k)"
  unfolding entry_first_def entry_size_def
  by (rule img_access(3), use assms meta_in_image(1) [of img k] in \<open>simp add: driver_wf_def\<close>)+

lemma getattr_root_total:
  assumes w: "driver_wf img"
  shows "\<exists>st'. getattr_root img (get_file_metadata img) i st = Ok st'"
proof (induction "meta_entries img - i" arbitrary: i st)
  case 0
  then show ?case using geometry(3) [of img] w by (subst getattr_root.simps) (simp add: driver_wf_def)
next
  case (Suc n)
  have wf: "img_wf img" using w by (simp add: driver_wf_def)
  from Suc.hyps(2) have i: "i < meta_entries img" by simp
  have ld: "img_ld8 img (int (meta_base img i + 8)) = Ok (imem img (meta_base img i + 8))"
    by (rule img_access(1)) (use meta_in_image(1) [OF wf i] in linarith)
  have IH: "\<exists>st'. getattr_root img (get_file_metadata img) (i + 1) st = Ok st'" for st
    by (rule Suc.hyps(1)) (use Suc.hyps(2) in simp)
  show ?case
    using IH i by (subst getattr_root.simps)
      (simp add: geometry(3) [OF wf] meta_addr [OF wf] ld load_meta(2) [OF w i] del: of_nat_add)
qed

lemma readdir_total:
  assumes w: "driver_wf img"
  shows "\<exists>es. readdir_loop img (get_file_metadata img) i = Ok es"
proof (induction "meta_entries img - i" arbitrary: i)
  case 0
  then show ?case using geometry(3) [of img] w by (subst readdir_loop.simps) (simp add: driver_wf_def)
next
  case (Suc n)
  have wf: "img_wf img" using w by (simp add: driver_wf_def)
  from Suc.hyps(2) have i: "i < meta_entries img" by simp
  have "\<exists>es. readdir_loop img (get_file_metadata img) (i + 1) = Ok es"
    by (rule Suc.hyps(1)) (use Suc.hyps(2) in simp)
  then show ?case
    using i slot_test [OF wf i] by (subst readdir_loop.simps)
      (auto simp: geometry(3) [OF wf] meta_addr(2) [OF wf] load_meta(2) [OF w i] simp del: of_nat_add)
qed

lemma getattr_total:
  assumes w: "driver_wf img" and p: "path = root_path \<or> file_path path"
  shows "\<exists>r st'. tagfs_getattr path st img = Ok (r, st')"
proof (cases "path = root_path")
  case True
  then show ?thesis
    using getattr_root_total [OF w, of 0] by (force simp: tagfs_getattr_def Let_def)
next
  case False
  have wf: "img_wf img" using w by (simp add: driver_wf_def)
  have n: "0 \<notin> set (tl path)" using p False by (simp add: file_path_def)
  have "\<exists>r st'. getattr_file img (get_file_metadata img) (tl path) 0 st = Ok (r, st')" for st
    using attrs.scan_total [of "(img, get_file_metadata img, tl path, st)" "\<lambda>j. has_name img j (tl path)"]
      any_name_test(1) [OF w _ n] geometry(3) [OF wf]
    by (auto simp: meta_addr(2) [OF wf] load_meta(2) [OF w] simp del: of_nat_add)
  then show ?thesis using False by (simp add: tagfs_getattr_def Let_def)
qed

lemma skip_total:
  assumes w: "driver_wf img"
  shows "f < fat_entries img \<Longrightarrow> skip_sectors img (get_fat img) n (int f) = Ok None
    \<or> (\<exists>g < fat_entries img. skip_sectors img (get_fat img) n (int f) = Ok (Some (int g)))"
proof (induction n arbitrary: f)
  case 0
  then show ?case by auto
next
  case (Suc n)
  have wf: "img_wf img" using w by (simp add: driver_wf_def)
  have "cell_ok img f" using w Suc.prems by (simp add: driver_wf_def)
  then show ?case
    using Suc.IH [of "unat (fat_entry img f)"] by (auto simp: fat_test [OF wf Suc.prems] cell_ok_def)
qed

text \<open>A store into one sector of the data.\<close>

lemma sector_store_total:
  assumes w: "driver_wf img" and f: "f < fat_entries img" and n: "k + length bs \<le> sector img"
  shows "\<exists>img'. img_store img (sector_at img (get_data img) (int f) + int k) bs = Ok img' \<and> stores img img'"
proof -
  have wf: "img_wf img" using w by (simp add: driver_wf_def)
  let ?a = "data_base img + f * sector img + k"
  have a: "sector_at img (get_data img) (int f) + int k = int ?a"
    by (simp add: fat_index_word(4) [OF wf f])
  have "?a + length bs \<le> ilen img" using section_bounds(3) [OF wf f] n by linarith
  then have "img_store img (int ?a) bs = Ok (img\<lparr>imem := mem_put (imem img) ?a bs\<rparr>)"
    by (rule img_access(8))
  moreover have "stores img (img\<lparr>imem := mem_put (imem img) ?a bs\<rparr>)" by (rule data_change [OF w]) simp
  ultimately show ?thesis unfolding a by blast
qed

text \<open>The size of an entry grows to the end of the write.\<close>

lemma size_update_total:
  assumes w: "driver_wf img" and k: "k < meta_entries img" and f: "entry_first img k \<noteq> 0xffff"
  shows "\<exists>img'. obind (img_ld32 img (int (meta_base img k + 4))) (\<lambda>file_size.
      if unat file_size < n then img_st32 img (int (meta_base img k + 4)) (of_nat n) else Ok img) = Ok img'
    \<and> evolves img img'"
proof -
  have b: "meta_base img k + 4 + 4 \<le> ilen img" using meta_in_image(1) [of img k] w k by (simp add: driver_wf_def)
  show ?thesis
    using size_change [OF w k f] evolves_refl [OF w] by (simp add: load_meta(2) [OF w k] img_access(6) [OF b] del: of_nat_add)
qed

lemma write_rest_total:
  assumes "driver_wf img" "fat = get_fat img" "data = get_data img"
  shows "\<exists>early n img'. write_rest img fat data buf i = Ok (early, n, img') \<and> stores img img'"
  using assms
proof (induction "length buf - i" arbitrary: img i rule: less_induct)
  case less
  note w = less.prems(1)
  have wf: "img_wf img" using w by (simp add: driver_wf_def)
  show ?case
  proof (cases "i < length buf")
    case False
    then show ?thesis using stores_refl [OF w] by (subst write_rest.simps) auto
  next
    case i: True
    have s: "sector img \<noteq> 0" using section_bounds(5) [OF wf] by simp
    from wf show ?thesis
    proof (cases rule: find_free_fat_cases)
      case full
      then show ?thesis using i s stores_refl [OF w] by (subst write_rest.simps) (auto simp: less.prems)
    next
      case (found f)
      let ?n = "if length buf \<le> i + sector img then length buf - i else sector img"
      let ?bs = "take ?n (drop i buf)"
      have "0 + length ?bs \<le> sector img" by simp linarith
      from sector_store_total [OF w found(1) this] obtain img2 where
        st: "img_store img (sector_at img (get_data img) (int f)) ?bs = Ok img2" and e: "stores img img2" by auto
      note g = evolves_geometry [OF w stores_facts(1) [OF w e]]
      have "\<exists>early n img'. write_rest img2 fat data buf (i + ?n) = Ok (early, n, img') \<and> stores img2 img'"
        by (rule less.hyps) (use i s less.prems g in auto)
      then obtain early n img' where
        r: "write_rest img2 fat data buf (i + ?n) = Ok (early, n, img')" "stores img2 img'" by blast
      have "write_rest img fat data buf i = Ok (early, n, img')"
        using i s r(1) st found(4) by (subst write_rest.simps) (simp add: less.prems Let_def)
      then show ?thesis using stores_facts(2) [OF w e r(2)] by blast
    qed
  qed
qed

lemma mark_end_total:
  assumes w: "driver_wf img" and f: "f < fat_entries img"
  shows "\<exists>img'. (if b then img_st16 img (fat_at (get_fat img) (int f)) 0xffff else Ok img) = Ok img' \<and> stores img img'"
proof -
  have wf: "img_wf img" using w by (simp add: driver_wf_def)
  have "fat_base img + 2 * f + 2 \<le> ilen img" using section_bounds(2) [OF wf f] section_bounds(4) [OF wf] by linarith
  then have "img_st16 img (fat_at (get_fat img) (int f)) 0xffff
      = Ok (img\<lparr>imem := st16 (imem img) (fat_base img + 2 * f) 0xffff\<rparr>)"
    unfolding meta_addr(4) [OF wf] by (rule img_access(5))
  then show ?thesis using fat_change [OF w f, of "0xffff"] stores_refl [OF w] by simp
qed

lemma write_at_total:
  assumes w: "driver_wf img" and k: "k < meta_entries img" and f: "f < fat_entries img" and d: "d < sector img"
    and first: "entry_first img k \<noteq> 0xffff"
  shows "\<exists>r img'. write_at (int (meta_base img k + 4)) (get_fat img) (get_data img) buf offset (int f) d img
      = Ok (r, img') \<and> evolves img img'"
proof (cases "length buf \<le> sector img - d")
  case True
  have "d + length buf \<le> sector img" using True d by linarith
  from sector_store_total [OF w f this] obtain img2 where
    st: "img_store img (sector_at img (get_data img) (int f) + int d) buf = Ok img2" and e: "stores img img2" by blast
  note g = evolves_geometry [OF w stores_facts(1) [OF w e]]
  have t: "img_ld16 img2 (fat_at (get_fat img) (int f)) = Ok (fat_entry img2 f)"
    using fat_test [OF g(7), of f] f g by simp
  obtain img3 where m: "(if fat_entry img2 f = 0 then img_st16 img2 (fat_at (get_fat img) (int f)) 0xffff else Ok img2) = Ok img3"
    "stores img2 img3" using mark_end_total [OF g(11), of f "fat_entry img2 f = 0"] f unfolding g(4,8) by blast
  note e3 = stores_facts(2) [OF w e m(2)]
  note g3 = evolves_geometry [OF w stores_facts(1) [OF w e3]]
  obtain img4 where z: "obind (img_ld32 img3 (int (meta_base img k + 4))) (\<lambda>file_size.
      if unat file_size < offset + length buf then img_st32 img3 (int (meta_base img k + 4)) (of_nat (offset + length buf))
      else Ok img3) = Ok img4" "evolves img3 img4"
    using size_update_total [OF g3(11), of k "offset + length buf"] k first stores_facts(3) [OF w e3 k] unfolding g3(5,6) by auto
  have "write_at (int (meta_base img k + 4)) (get_fat img) (get_data img) buf offset (int f) d img = Ok (int (length buf), img4)"
    unfolding write_at_def Let_def by (simp only: True if_True st obind.simps t m(1) z(1))
  then show ?thesis using evolves_trans [OF stores_facts(1) [OF w e3] z(2)] by blast
next
  case False
  let ?n = "sector img - d"
  have "d + length (take ?n buf) \<le> sector img" using d by simp
  from sector_store_total [OF w f this] obtain img2 where
    st: "img_store img (sector_at img (get_data img) (int f) + int d) (take ?n buf) = Ok img2" and e: "stores img img2" by blast
  note g = evolves_geometry [OF w stores_facts(1) [OF w e]]
  obtain early n img3 where r: "write_rest img2 (get_fat img) (get_data img) buf ?n = Ok (early, n, img3)" "stores img2 img3"
    using write_rest_total [OF g(11), of "get_fat img" "get_data img" buf ?n] g by auto
  note e3 = stores_facts(2) [OF w e r(2)]
  note g3 = evolves_geometry [OF w stores_facts(1) [OF w e3]]
  obtain img4 where z: "obind (img_ld32 img3 (int (meta_base img k + 4))) (\<lambda>file_size.
      if unat file_size < offset + n then img_st32 img3 (int (meta_base img k + 4)) (of_nat (offset + n))
      else Ok img3) = Ok img4" "evolves img3 img4"
    using size_update_total [OF g3(11), of k "offset + n"] k first stores_facts(3) [OF w e3 k] unfolding g3(5,6) by auto
  have "write_at (int (meta_base img k + 4)) (get_fat img) (get_data img) buf offset (int f) d img
      = Ok (int n, if early then img3 else img4)"
    unfolding write_at_def Let_def by (simp only: False if_False st obind.simps r(1) z(1) prod.case split: if_split) simp
  then show ?thesis using evolves_trans [OF stores_facts(1) [OF w e3] z(2)] stores_facts(1) [OF w e3] by (cases early) auto
qed

lemma first_word: "unat v < 65536 \<Longrightarrow> sint (v :: u32) = int (unat v)"
proof -
  assume "unat v < 65536"
  then have "uint v < 65536" unfolding uint_nat by linarith
  moreover have "0 \<le> uint v" by simp
  moreover have "(2 :: int) ^ 31 = 2147483648" by simp
  ultimately have "- (2 ^ 31) \<le> uint v \<and> uint v < 2 ^ 31" by linarith
  then have "signed_take_bit 31 (uint v) = uint v" by (intro signed_take_bit_int_eq_self) blast+
  then show ?thesis by (simp add: sint_uint)
qed

text \<open>The first sector of the file: the one it has, or a free one that is entered.\<close>

lemma start_total:
  assumes w: "driver_wf img" and k: "k < meta_entries img" and u: "\<not> entry_free img k"
  shows "\<exists>start. (if entry_first img k = 0xffff then
        obind (find_free_fat img (get_fat img)) (\<lambda>fat_index.
        if fat_index = - 1 then Ok None
        else obind (img_st32 img (int (meta_base img k)) (of_int fat_index)) (\<lambda>img. Ok (Some (fat_index, img))))
      else Ok (Some (sint (entry_first img k), img))) = Ok start
    \<and> (\<forall>i img'. start = Some (i, img') \<longrightarrow> evolves img img' \<and> (\<exists>f < fat_entries img. i = int f)
        \<and> entry_first img' k \<noteq> 0xffff)"
proof -
  have wf: "img_wf img" using w by (simp add: driver_wf_def)
  show ?thesis
  proof (cases "entry_first img k = 0xffff")
    case True
    from wf show ?thesis
    proof (cases rule: find_free_fat_cases)
      case (found f)
      have "meta_base img k + 4 \<le> ilen img" using meta_in_image(1) [OF wf k] by linarith
      note st = img_access(6) [OF this, of "of_nat f"]
      have "unat (of_nat f :: u32) < fat_entries img"
        using fat_index_word(3) [OF wf found(1)] found(1) by (simp add: unat_of_nat)
      then have e: "evolves img (img\<lparr>imem := st32 (imem img) (meta_base img k) (of_nat f)\<rparr>)"
        using first_change [OF w k] by blast
      have "entry_first (img\<lparr>imem := st32 (imem img) (meta_base img k) (of_nat f)\<rparr>) k \<noteq> 0xffff"
        unfolding entry_first_def evolves_geometry(6) [OF w e] using fat_index_word(2) [OF wf found(1)] by simp
      with e show ?thesis using True found by (auto simp: st)
    next
      case full
      then show ?thesis using True by simp
    qed
  next
    case False
    have "entry_ok img k" using w k by (simp add: driver_wf_def)
    then have f: "unat (entry_first img k) < fat_entries img" using u False by (simp add: entry_ok_def)
    then have "sint (entry_first img k) = int (unat (entry_first img k))"
      using fat_index_word(3) [OF wf f] by (intro first_word) simp
    then show ?thesis using False f evolves_refl [OF w] by auto
  qed
qed

lemma named_in_use: "has_name img k name \<Longrightarrow> name \<noteq> [] \<Longrightarrow> 0 \<notin> set name \<Longrightarrow> \<not> entry_free img k"
proof
  assume n: "has_name img k name" "name \<noteq> []" "0 \<notin> set name" and e: "entry_free img k"
  then obtain c cs where "name = c # cs" by (cases name) auto
  with n(1) have "imem img (meta_base img k + 8) = c"
    unfolding has_name_def by (metis add.right_neutral length_Cons nth_Cons_0 nth_bytes_at zero_less_Suc)
  with e n(3) \<open>name = c # cs\<close> show False by (simp add: entry_free_def)
qed

lemma write_total:
  assumes w: "driver_wf img" and p: "file_path path"
  shows "\<exists>r img'. tagfs_write path buf offset img = Ok (r, img') \<and> evolves img img'"
proof -
  have wf: "img_wf img" using w by (simp add: driver_wf_def)
  have n: "0 \<notin> set (tl path)" "tl path \<noteq> []" using p by (simp_all add: file_path_def)
  from w n(1) show ?thesis
  proof (cases rule: any_lookup)
    case missing
    then show ?thesis using evolves_refl [OF w] by (simp add: tagfs_write_def Let_def)
  next
    case (found k)
    then have k: "k < meta_entries img" "has_name img k (tl path)" by (simp_all add: file_at_def)
    note l = file_at_lookup(1-3) [OF found]
    have id: "int (unat (of_nat (k + 1) :: u16)) - 1 = int k" using l(2) by simp
    obtain start where start: "(if entry_first img k = 0xffff then
        obind (find_free_fat img (get_fat img)) (\<lambda>fat_index.
        if fat_index = - 1 then Ok None
        else obind (img_st32 img (int (meta_base img k)) (of_int fat_index)) (\<lambda>img. Ok (Some (fat_index, img))))
      else Ok (Some (sint (entry_first img k), img))) = Ok start"
      "\<And>i img'. start = Some (i, img') \<Longrightarrow> evolves img img' \<and> (\<exists>f < fat_entries img. i = int f)
        \<and> entry_first img' k \<noteq> 0xffff"
      using start_total [OF w k(1) named_in_use [OF k(2) n(2,1)]] by blast
    note run = tagfs_write_def Let_def l(1) l(3) if_False id meta_addr(1,2) [OF wf] load_meta(1) [OF w k(1)] obind.simps
      start(1)
    show ?thesis
    proof (cases start)
      case None
      then show ?thesis using evolves_refl [OF w] unfolding run by simp
    next
      case (Some a)
      then obtain i img2 where a: "start = Some (i, img2)" by (cases a) auto
      from start(2) [OF a] obtain f where e: "evolves img img2" and f: "f < fat_entries img" "i = int f"
        and first: "entry_first img2 k \<noteq> 0xffff" by blast
      note g = evolves_geometry [OF w e]
      have k2: "k < meta_entries img2" and f2: "f < fat_entries img2" using k(1) f(1) g by simp_all
      note ld = load_meta(2) [OF g(11) k2, unfolded g(6)]
      have s: "sector img2 \<noteq> 0" using section_bounds(5) [OF g(7)] by simp
      define pos where "pos = (if offset < unat (entry_size img2 k) then offset else unat (entry_size img2 k))"
      have d: "pos mod sector img2 < sector img2" using s by simp
      have "tagfs_write path buf offset img = obind (skip_sectors img2 (get_fat img) (int_count (pos div sector img2)) (int f))
        (\<lambda>r. case r of None \<Rightarrow> Ok (- EBADFD, img2)
          | Some fat_index \<Rightarrow> write_at (int (meta_base img k + 4)) (get_fat img) (get_data img) buf offset fat_index
              (pos mod sector img2) img2)"
        using l(3) unfolding run a f(2) by (simp add: ld s pos_def [symmetric] del: of_nat_add)
      moreover from skip_total [OF g(11) f2, of "int_count (pos div sector img2)", unfolded g(8,4)]
      have "skip_sectors img2 (get_fat img) (int_count (pos div sector img2)) (int f) = Ok None
        \<or> (\<exists>h < fat_entries img. skip_sectors img2 (get_fat img) (int_count (pos div sector img2)) (int f) = Ok (Some (int h)))" .
      moreover have "\<exists>r img'. write_at (int (meta_base img k + 4)) (get_fat img) (get_data img) buf offset (int h)
          (pos mod sector img2) img2 = Ok (r, img') \<and> evolves img2 img'" if "h < fat_entries img" for h
        using write_at_total [OF g(11) k2 _ d first, of h, unfolded g(4,6,8,9)] that by blast
      ultimately show ?thesis using e evolves_trans [OF e] by (elim disjE) (simp, metis obind.simps(1) option.case(2))
    qed
  qed
qed

text \<open>The loop of \<open>unlink\<close> frees cells until an end mark, or goes on for ever.\<close>

lemma unlink_loop_total:
  "driver_wf img \<Longrightarrow> f < fat_entries img \<Longrightarrow> unlink_loop fuel (get_fat img) (int f) img = Diverged
    \<or> (\<exists>img'. unlink_loop fuel (get_fat img) (int f) img = Ok img' \<and> evolves img img')"
proof (induction fuel arbitrary: img f)
  case 0
  then show ?case by simp
next
  case (Suc fuel)
  note w = Suc.prems(1) and f = Suc.prems(2)
  have wf: "img_wf img" using w by (simp add: driver_wf_def)
  let ?img = "img\<lparr>imem := st16 (imem img) (fat_base img + 2 * f) 0\<rparr>"
  have e: "evolves img ?img" by (rule stores_facts(1) [OF w fat_change [OF w f]]) (use f in simp)
  note g = evolves_geometry [OF w e]
  have "fat_base img + 2 * f + 2 \<le> ilen img" using section_bounds(2) [OF wf f] section_bounds(4) [OF wf] by linarith
  then have st: "img_st16 img (fat_at (get_fat img) (int f)) 0 = Ok ?img"
    unfolding meta_addr(4) [OF wf] by (rule img_access(5))
  have "img_ld16 ?img (fat_at (get_fat img) (int f)) = Ok (fat_entry ?img f)"
    using fat_test [OF g(7), of f, unfolded g(4,8)] f by blast
  moreover have "fat_entry ?img f = 0" unfolding fat_entry_def g(2) by simp
  ultimately have ld: "img_ld16 ?img (fat_at (get_fat img) (int f)) = Ok 0" by simp
  have "0 < fat_entries ?img" using f unfolding g(4) by simp
  from Suc.IH [OF g(11) this, unfolded g(8)] show ?case
    using evolves_trans [OF e] e by (auto simp: fat_test [OF wf f] st ld)
qed

lemma unlink_total:
  assumes w: "driver_wf img" and p: "file_path path" and h: "k < meta_entries img" "has_name img k (tl path)"
  shows "tagfs_unlink fuel path img = Diverged
    \<or> (\<exists>r img'. tagfs_unlink fuel path img = Ok (r, img') \<and> evolves img img')"
proof -
  have wf: "img_wf img" using w by (simp add: driver_wf_def)
  have n: "0 \<notin> set (tl path)" "tl path \<noteq> []" using p by (simp_all add: file_path_def)
  from w n(1) show ?thesis
  proof (cases rule: any_lookup)
    case missing
    then show ?thesis using h by blast
  next
    case (found k)
    then have k: "k < meta_entries img" "has_name img k (tl path)" by (simp_all add: file_at_def)
    note l = file_at_lookup(1-3) [OF found]
    have id: "int (unat (of_nat (k + 1) :: u16)) - 1 = int k" "int (unat (of_nat (k + 1) :: u16)) \<noteq> - 1"
      using l(2) by simp_all
    have u: "entry_ok img k" "\<not> entry_free img k"
      using w k named_in_use [OF k(2) n(2,1)] by (simp_all add: driver_wf_def)
    let ?img = "img\<lparr>imem := st8 (imem img) (meta_base img k + 8) 0\<rparr>"
    have e: "evolves img ?img" by (rule name_cleared [OF w k(1)])
    note g = evolves_geometry [OF w e]
    have "meta_base img k + 8 + 1 \<le> ilen img" using meta_in_image(1) [OF wf k(1)] by linarith
    note st = img_access(4) [OF this, of 0]
    have "entry_first ?img k = entry_first img k"
      unfolding entry_first_def g(6) by (rule cell32.ld_frame) (simp add: st8_def)
    with load_meta(1) [OF g(11), of k, unfolded g(5,6)] k(1)
    have ld: "img_ld32 ?img (int (meta_base img k)) = Ok (entry_first img k)" by simp
    have run: "tagfs_unlink fuel path img = (if entry_first img k = 0xffff then Ok (0, ?img)
        else obind (unlink_loop fuel (get_fat ?img) (sint (entry_first img k)) ?img) (\<lambda>img. Ok (0, img)))"
      by (simp only: tagfs_unlink_def Let_def l(1) obind.simps id if_False meta_addr(1,3) [OF wf] st ld)
    show ?thesis
    proof (cases "entry_first img k = 0xffff")
      case True
      then show ?thesis using run e by simp
    next
      case False
      then have f: "unat (entry_first img k) < fat_entries img" using u by (simp add: entry_ok_def)
      then have s: "sint (entry_first img k) = int (unat (entry_first img k))"
        using fat_index_word(3) [OF wf f] by (intro first_word) simp
      have "unat (entry_first img k) < fat_entries ?img" using f g(4) by simp
      from unlink_loop_total [OF g(11) this, of fuel] show ?thesis
        using run False evolves_trans [OF e] unfolding s by auto
    qed
  qed
qed

lemma mknod_total:
  assumes w: "driver_wf img" and p: "file_path path"
  shows "\<exists>r img'. tagfs_mknod path mode img = Ok (r, img') \<and> evolves img img'"
proof -
  have wf: "img_wf img" using w by (simp add: driver_wf_def)
  from p have c: "path = hd path # tl path" by (cases path) (simp_all add: file_path_def)
  show ?thesis
  proof (cases "mode AND S_IFMT = S_IFREG \<and> length (tl path) < 24")
    case False
    then show ?thesis using evolves_refl [OF w] by (auto simp: tagfs_mknod_def Let_def)
  next
    case True
    from wf show ?thesis
    proof (cases rule: slot_cases)
      case (found k)
      have "tagfs_mknod (hd path # tl path) mode img = Ok (0, created img k (tl path))"
        by (rule mknod_creates [OF wf _ _ found(1,4)]) (use True in blast)+
      then show ?thesis using c created_evolves [OF w found(1)] True by metis
    next
      case full
      then show ?thesis using True evolves_refl [OF w] by (simp add: tagfs_mknod_def Let_def)
    qed
  qed
qed

text \<open>A read that stays within one sector.\<close>

lemma read_total:
  assumes w: "driver_wf img" and p: "file_path path" and sz: "sz \<le> sector img - offset mod sector img"
  shows "\<exists>r bs. tagfs_read path sz offset img = Ok (r, bs)"
proof -
  have wf: "img_wf img" using w by (simp add: driver_wf_def)
  have n: "0 \<notin> set (tl path)" "tl path \<noteq> []" using p by (simp_all add: file_path_def)
  from w n(1) show ?thesis
  proof (cases rule: any_lookup)
    case missing
    then show ?thesis by (simp add: tagfs_read_def Let_def)
  next
    case (found k)
    then have k: "k < meta_entries img" "has_name img k (tl path)" by (simp_all add: file_at_def)
    note l = file_at_lookup(1-3) [OF found]
    have id: "int (unat (of_nat (k + 1) :: u16)) - 1 = int k" using l(2) by simp
    have s: "sector img \<noteq> 0" using section_bounds(5) [OF wf] by simp
    have u: "entry_ok img k" "\<not> entry_free img k"
      using w k named_in_use [OF k(2) n(2,1)] by (simp_all add: driver_wf_def)
    let ?n = "int_count (offset div sector img)"
    note run = tagfs_read_def Let_def l(1) l(3) if_False id meta_addr(1,2) [OF wf] load_meta [OF w k(1)] obind.simps
    show ?thesis
    proof (cases "unat (entry_size img k) \<le> offset")
      case True
      then show ?thesis using l(3) unfolding run by simp
    next
      case False
      then have "entry_size img k \<noteq> 0" by auto
      then have f: "unat (entry_first img k) < fat_entries img" using u by (auto simp: entry_ok_def)
      then have first: "sint (entry_first img k) = int (unat (entry_first img k))"
        using fat_index_word(3) [OF wf f] by (intro first_word) simp
      have eq: "tagfs_read path sz offset img = obind (skip_sectors img (get_fat img) ?n (int (unat (entry_first img k))))
        (\<lambda>r. case r of None \<Rightarrow> Ok (- EBADFD, [])
          | Some fat_index \<Rightarrow> obind (img_load img (sector_at img (get_data img) fat_index + int (offset mod sector img)) sz)
              (\<lambda>bs. Ok (int sz, bs)))"
        using l(3) False s sz unfolding run first by simp
      have ld: "\<exists>bs. img_load img (sector_at img (get_data img) (int h) + int (offset mod sector img)) sz = Ok bs"
        if h: "h < fat_entries img" for h
      proof -
        let ?a = "data_base img + h * sector img + offset mod sector img"
        have "offset mod sector img + sz \<le> sector img"
          using sz mod_less_divisor [of "sector img" offset] s by linarith
        then have "?a + sz \<le> ilen img" using section_bounds(3) [OF wf h] by linarith
        from img_access(7) [OF this] show ?thesis by (simp add: fat_index_word(4) [OF wf h])
      qed
      from skip_total [OF w f, of ?n] show ?thesis
      proof (elim disjE exE conjE)
        fix h assume "h < fat_entries img"
          "skip_sectors img (get_fat img) ?n (int (unat (entry_first img k))) = Ok (Some (int h))"
        then show ?thesis unfolding eq using ld [of h] by auto
      qed (simp add: eq)
    qed
  qed
qed

section \<open>Sessions\<close>

text \<open>
  The calls that the driver is made for: proper paths; a read that stays within a sector; the removal of a file that
  exists.
\<close>

fun call_ok :: "image \<Rightarrow> fuse_call \<Rightarrow> bool" where
  "call_ok img (Op_getattr path st) \<longleftrightarrow> path = root_path \<or> file_path path"
| "call_ok img (Op_readdir path) \<longleftrightarrow> True"
| "call_ok img (Op_read path n offset) \<longleftrightarrow> file_path path \<and> n \<le> sector img - offset mod sector img"
| "call_ok img (Op_mknod path mode) \<longleftrightarrow> file_path path"
| "call_ok img (Op_write path buf offset) \<longleftrightarrow> file_path path"
| "call_ok img (Op_unlink path) \<longleftrightarrow> file_path path \<and> (\<exists>k < meta_entries img. has_name img k (tl path))"

text \<open>The images that a session can reach.\<close>

inductive fuse_reachable :: "nat \<Rightarrow> image \<Rightarrow> image \<Rightarrow> bool" for fuel img0 where
  mounted: "fuse_reachable fuel img0 img0"
| called: "fuse_reachable fuel img0 img \<Longrightarrow> call_ok img c \<Longrightarrow> myfs_ops fuel c img = Ok (reply, img') \<Longrightarrow>
    fuse_reachable fuel img0 img'"

lemma call_safe:
  assumes w: "driver_wf img" and c: "call_ok img c"
  shows "(\<exists>reply img'. myfs_ops fuel c img = Ok (reply, img') \<and> evolves img img')
    \<or> (\<exists>path. c = Op_unlink path) \<and> myfs_ops fuel c img = Diverged"
proof (cases c)
  case (Op_getattr path st)
  then show ?thesis using getattr_total [OF w, of path st] c evolves_refl [OF w] by auto
next
  case (Op_readdir path)
  then show ?thesis using readdir_total [OF w, of 0] evolves_refl [OF w] by (auto simp: tagfs_readdir_def)
next
  case (Op_read path n offset)
  then show ?thesis using read_total [OF w, of path n offset] c evolves_refl [OF w] by auto
next
  case (Op_mknod path mode)
  then show ?thesis using mknod_total [OF w, of path mode] c by auto
next
  case (Op_write path buf offset)
  then show ?thesis using write_total [OF w, of path buf offset] c by auto
next
  case (Op_unlink path)
  then obtain k where "file_path path" "k < meta_entries img" "has_name img k (tl path)" using c by auto
  from unlink_total [OF w this, of fuel] Op_unlink show ?thesis by auto
qed

lemma session_evolves:
  "fuse_reachable fuel img0 img \<Longrightarrow> driver_wf img0 \<Longrightarrow> evolves img0 img"
proof (induction rule: fuse_reachable.induct)
  case mounted
  then show ?case by (rule evolves_refl)
next
  case (called img c reply img')
  then have e: "evolves img0 img" by simp
  then have "driver_wf img" by (simp add: evolves_def)
  from call_safe [OF this called(2), of fuel] called(3) have "evolves img img'" by auto
  with e show ?case by (rule evolves_trans)
qed


lemma example_driver_wf: "driver_wf example_image"
proof -
  have "fat_entry example_image s = 0" for s
    unfolding fat_entry_def ld16_def by (simp add: example_geometry example_bytes)
  moreover have "entry_free example_image k" for k
    by (simp add: entry_free_def example_geometry example_bytes)
  ultimately show ?thesis by (simp add: driver_wf_def cell_ok_def entry_ok_def example_geometry)
qed


text \<open>The images that \<open>format\<close> makes are as the driver expects.\<close>

lemma formatted_driver_wf:
  assumes "formatted options (bytes_of options) file img" and "geometry_ok options" and "bytes_of options \<le> ilen img"
  shows "driver_wf img"
  using formatted_wf(1) [OF assms] formatted_empty(1,2) [OF assms]
  by (auto simp: driver_wf_def cell_ok_def entry_ok_def)

lemma readdir_empty:
  assumes w: "img_wf img" and e: "\<And>k. k < meta_entries img \<Longrightarrow> entry_free img k"
  shows "readdir_loop img (get_file_metadata img) i = Ok []"
proof (induction "meta_entries img - i" arbitrary: i)
  case 0
  then show ?case by (subst readdir_loop.simps) (simp add: geometry(3) [OF w])
next
  case (Suc n)
  then have i: "i < meta_entries img" by simp
  have "readdir_loop img (get_file_metadata img) (i + 1) = Ok []" by (rule Suc.hyps(1)) (use Suc.hyps(2) in simp)
  then show ?case by (subst readdir_loop.simps) (simp add: slot_test [OF w i] e [OF i])
qed


definition driver_host :: host where
  "driver_host = (host_with 0xAA 512000)\<lparr>images := [ascii ''driver.img'' \<mapsto> \<lparr>imem = (\<lambda>x. 0xAA), ilen = 512000\<rparr>]\<rparr>"


end
