(* ===== verification/Volume.thy ===== *)
theory Volume
  imports Kernel WriteFiles FilesKept
begin

text \<open>
  One volume, two readers. A drive whose sectors hold the bytes of a TagFS image is read by the kernel, sector by sector
  through the IDE driver; the host tools read the image as one mapping. The theory relates the two views and shows
  that both find the same files, in particular the files that \<open>tfsfmt write-files\<close> wrote.
\<close>

section \<open>An image on a drive\<close>

text \<open>The first \<open>n\<close> sectors of a disk, given by the bytes of its sectors, hold the image.\<close>

definition holds_image :: "(u32 \<Rightarrow> nat \<Rightarrow> u8) \<Rightarrow> image \<Rightarrow> nat \<Rightarrow> bool" where
  "holds_image disk img n \<longleftrightarrow> (\<forall>l < n. \<forall>j < 512. disk (of_nat l) j = imem img (512 * l + j))"

text \<open>The file metadata sectors, of 512 bytes.\<close>

definition file_sectors :: "image \<Rightarrow> nat" where
  "file_sectors img = unat (m_file_meta_sector_count img)"

lemma entries_of_sectors:
  assumes "sector img = 512"
  shows "meta_entries img = 16 * file_sectors img"
  using assms by (simp add: meta_entries_def file_sectors_def)

lemma entry_on_disk:
  assumes h: "holds_image disk img (1 + file_sectors img)" and s: "sector img = 512" and "t < file_sectors img" and "k < 16"
    and n: "length name < 24"
  shows "entry_matches (disk (1 + of_nat t)) k name = has_name img (16 * t + k) name"
    and "j < 32 \<Longrightarrow> disk (1 + of_nat t) (32 * k + j) = imem img (meta_base img (16 * t + k) + j)"
proof -
  have d: "disk (1 + of_nat t) j = imem img (512 * (1 + t) + j)" if "j < 512" for j
    using h [unfolded holds_image_def, rule_format, of "1 + t" j] assms(3) that by simp
  have b: "meta_base img (16 * t + k) = 512 * (1 + t) + 32 * k" by (simp add: meta_base_def s)
  show r: "disk (1 + of_nat t) (32 * k + j) = imem img (meta_base img (16 * t + k) + j)" if "j < 32" for j
    using d [of "32 * k + j"] assms(4) that by (simp add: b add.assoc)
  have b8: "disk (1 + of_nat t) (32 * k + 8 + j) = imem img (meta_base img (16 * t + k) + 8 + j)" if "j < 24" for j
    using r [of "8 + j"] that by (simp only: add.assoc)
  have "(\<forall>j < length name. disk (1 + of_nat t) (32 * k + 8 + j) = name ! j) \<longleftrightarrow>
      (\<forall>j < length name. imem img (meta_base img (16 * t + k) + 8 + j) = name ! j)"
    by (rule all_cong1, rule imp_cong [OF refl], subst b8) (use n in simp_all)
  then have "entry_matches (disk (1 + of_nat t)) k name \<longleftrightarrow>
      (\<forall>j < length name. imem img (meta_base img (16 * t + k) + 8 + j) = name ! j)
      \<and> imem img (meta_base img (16 * t + k) + 8 + length name) = 0"
    unfolding entry_matches_def b8 [OF n] by (simp add: list_all_iff Ball_def)
  also have "\<dots> = has_name img (16 * t + k) name"
    unfolding has_name_def bytes_at_def list_eq_iff_nth_eq by simp
  finally show "entry_matches (disk (1 + of_nat t)) k name = has_name img (16 * t + k) name" .
qed

lemma named_entry_on_disk:
  assumes "holds_image disk img (1 + file_sectors img)" and "sector img = 512" and "length name < 24"
  shows "(\<exists>t < file_sectors img. \<exists>k < 16. entry_matches (disk (1 + of_nat t)) k name)
    \<longleftrightarrow> (\<exists>i < meta_entries img. has_name img i name)"
proof
  assume "\<exists>t < file_sectors img. \<exists>k < 16. entry_matches (disk (1 + of_nat t)) k name"
  then obtain t k where t: "t < file_sectors img" "k < 16" "has_name img (16 * t + k) name"
    using entry_on_disk(1) [OF assms(1,2) _ _ assms(3)] by blast
  then show "\<exists>i < meta_entries img. has_name img i name"
    by (intro exI [of _ "16 * t + k"]) (simp add: entries_of_sectors [OF assms(2)])
next
  assume "\<exists>i < meta_entries img. has_name img i name"
  then obtain i where i: "i < 16 * file_sectors img" "has_name img i name" by (auto simp: entries_of_sectors [OF assms(2)])
  have "i = 16 * (i div 16) + i mod 16" by simp
  with i entry_on_disk(1) [OF assms(1,2), of "i div 16" "i mod 16"] assms(3)
  show "\<exists>t < file_sectors img. \<exists>k < 16. entry_matches (disk (1 + of_nat t)) k name"
    by (intro exI [of _ "i div 16"] conjI exI [of _ "i mod 16"]) auto
qed

text \<open>The kernel has read its metadata from the volume.\<close>

definition volume_mounted ::
  "device \<Rightarrow> channels \<Rightarrow> nat \<Rightarrow> nat \<Rightarrow> nat \<Rightarrow> drive \<Rightarrow> image \<Rightarrow> ('p, hw) tfs_state \<Rightarrow> bool" where
  "volume_mounted dev C fuel delay flush d0 img st \<longleftrightarrow> tfs_ready dev C fuel delay flush d0 st
     \<and> fs_file_meta_sector_count (tfs_fs_meta st) = m_file_meta_sector_count img
     \<and> img_wf img \<and> sector img = 512 \<and> holds_image (tfs_sectors C delay flush d0 st) img (1 + file_sectors img)"

lemma kernel_lookup:
  assumes v: "volume_mounted dev C fuel delay flush d0 img st" and p: "str_length path < 24"
    and a: "lookup_areas path (unat (tfs_sector_buffer st)) file_meta"
    and n: "bytes_at (tfs_mem st) (str_data path) (str_length path) = name"
  shows "\<exists>b st'. tfs_get_file_attributes (ata_read_sector dev C fuel IDE_BUS_PRIM 0) path file_meta st = Ok (b, st')
    \<and> (b \<longleftrightarrow> (\<exists>i < meta_entries img. has_name img i name))
    \<and> (b \<longrightarrow> (\<exists>i < meta_entries img. has_name img i name
         \<and> (\<forall>j < 32. tfs_mem st' (file_meta + j) = imem img (meta_base img i + j))))"
proof -
  let ?disk = "tfs_sectors C delay flush d0 st"
  have r: "ata_ready dev C fuel IDE_BUS_PRIM 0 delay flush d0 (tfs_disk st)" "fs_sector_size (tfs_fs_meta st) = 512"
    "unat (fs_file_meta_sector_count (tfs_fs_meta st)) \<le> 0x7FFFFF"
    using v unfolding volume_mounted_def tfs_ready_def by blast+
  have c: "unat (fs_file_meta_sector_count (tfs_fs_meta st)) = file_sectors img" and s: "sector img = 512"
    and h: "holds_image ?disk img (1 + file_sectors img)"
    using v by (simp_all add: volume_mounted_def tfs_ready_def file_sectors_def)
  have len: "length name < 24" using n p by auto
  obtain b st' where k: "tfs_get_file_attributes (ata_read_sector dev C fuel IDE_BUS_PRIM 0) path file_meta st = Ok (b, st')"
    "b \<longleftrightarrow> (\<exists>t < file_sectors img. \<exists>k < 16. entry_matches (?disk (1 + of_nat t)) k name)"
    "b \<longrightarrow> (\<exists>t < file_sectors img. \<exists>k < 16. entry_matches (?disk (1 + of_nat t)) k name
        \<and> (\<forall>j < 32. tfs_mem st' (file_meta + j) = ?disk (1 + of_nat t) (32 * k + j)))"
    using ata.get_attributes_spec [OF r a p n] unfolding c by blast
  have "\<exists>i < meta_entries img. has_name img i name \<and> (\<forall>j < 32. tfs_mem st' (file_meta + j) = imem img (meta_base img i + j))"
    if b
  proof -
    from k(3) that obtain t m where t: "t < file_sectors img" "m < 16" "entry_matches (?disk (1 + of_nat t)) m name"
      "\<forall>j < 32. tfs_mem st' (file_meta + j) = ?disk (1 + of_nat t) (32 * m + j)" by blast
    note e = entry_on_disk [OF h s t(1,2) len]
    show ?thesis
      by (rule exI [of _ "16 * t + m"]) (use t e in \<open>simp add: entries_of_sectors [OF s]\<close>)
  qed
  with k(1,2) named_entry_on_disk [OF h s len] show ?thesis by blast
qed

lemma mounted_facts:
  assumes "volume_mounted dev C fuel delay flush d0 img st"
  shows "img_wf img" "sector img = 512" "tfs_ready dev C fuel delay flush d0 st"
  using assms by (simp_all add: volume_mounted_def)

text \<open>The entry of the file that \<open>write_one_file\<close> wrote is the only one of its name, when the name is new.\<close>

lemma written_name_unique:
  assumes w: "img_wf img" and fw: "file_written img img' k name (claimed_sectors img src) src" and k: "k < meta_entries img"
    and n: "length name < 24" and new: "\<forall>i < meta_entries img. \<not> has_name img i name"
    and g: "meta_base img' = meta_base img" and i: "i < meta_entries img" and h: "has_name img' i name"
  shows "i = k"
proof (rule ccontr)
  assume "i \<noteq> k"
  then have apart: "meta_base img i + 32 \<le> meta_base img k \<or> meta_base img k + 32 \<le> meta_base img i"
    by (simp add: meta_base_def) linarith
  have "has_name img' i name = has_name img i name"
  proof (rule has_name_cong [OF g n])
    fix x assume x: "meta_base img i + 8 \<le> x" "x < meta_base img i + 32"
    have "x < tag_base img" "x < fat_base img"
      using x section_bounds(7) [OF w i] section_bounds(11,12) [OF w] by simp_all
    with x apart fw low_outside [OF w, of x src] show "imem img' x = imem img x"
      by (auto simp: file_written_def)
  qed
  with h i new show False by simp
qed

lemma boot_mounts_volume:
  assumes "machine_ok dev delay flush d0" and "busy_polls d0 = 0" and "transfer d0 = Idle"
    and "delay + 1 < fuel" and "3 < fuel" and "link_ok L" and "boot_link_ok B" and "info_ok e info m"
    and "\<forall>s \<in> set (memory_map m info). segment_end s + 4096 \<le> 4294967296"
    and "img_wf img" and "sector img = 512" and "holds_image (\<lambda>l. sector_byte (sectors d0 False l)) img (1 + file_sectors img)"
  shows "\<exists>b st. bootstrap B gdt_addr e info \<lparr>boot_gdt = g, boot_memory = m, boot_paging = zero_tables\<rparr> = Ok b
    \<and> kernel_init dev L I fuel e (kernel_at_boot (boot_paging b) (boot_memory b) i t) = Ok st
    \<and> volume_mounted dev (k_ide_channels st) fuel delay flush d0 img (k_tfs st)"
proof -
  obtain b st where k: "bootstrap B gdt_addr e info \<lparr>boot_gdt = g, boot_memory = m, boot_paging = zero_tables\<rparr> = Ok b"
    "kernel_init dev L I fuel e (kernel_at_boot (boot_paging b) (boot_memory b) i t) = Ok st"
    "tfs_fs_meta (k_tfs st) = volume_metadata (sector_byte (sectors d0 False 0))"
    "ata_ready dev (k_ide_channels st) fuel IDE_BUS_PRIM 0 delay flush d0 (tfs_disk (k_tfs st))"
    "tfs_sectors (k_ide_channels st) delay flush d0 (k_tfs st) = (\<lambda>l. sector_byte (sectors d0 False l))"
    using kernel_boots [OF assms(1-9)] by blast
  have first: "sector_byte (sectors d0 False 0) j = imem img j" if "j < 512" for j
    using assms(12) [unfolded holds_image_def, rule_format, of 0 j] that by simp
  then have "ld32 (sector_byte (sectors d0 False 0)) x = ld32 (imem img) x" if "x \<le> 508" for x
    using loads_cong(1) [of "sector_byte (sectors d0 False 0)" x "imem img" x] that by simp
  then have m: "fs_sector_size (tfs_fs_meta (k_tfs st)) = m_sector_size img"
    "fs_file_meta_sector_count (tfs_fs_meta (k_tfs st)) = m_file_meta_sector_count img"
    by (simp_all add: k(3) volume_metadata_def fs_metadata_at_def m_sector_size_def m_file_meta_sector_count_def)
  have "sections img * 512 < 2 ^ 32" "file_sectors img < sections img"
    using assms(10,11) by (auto simp: img_wf_def file_sectors_def sections_def)
  then have c: "unat (m_file_meta_sector_count img) \<le> 0x7FFFFF" by (simp add: file_sectors_def)
  have "m_sector_size img = of_nat 512" by (rule word_unat_eq_iff [THEN iffD2]) (use assms(11) in \<open>simp add: sector_def\<close>)
  then have s: "m_sector_size img = 512" by simp
  show ?thesis
    by (rule exI [of _ b], rule exI [of _ st], intro conjI k(1,2))
       (use assms(12) in \<open>simp add: volume_mounted_def tfs_ready_def k(4,5) m c s assms(10,11)\<close>)
qed

lemma kernel_sees_written:
  assumes w: "tags_wf img" and spec: "split_spec spec = Ok (path, name)" "sources h path = Some src"
    "is_tagfs_file name (length src)" and tags: "list_all tag_name_ok tags"
    and k: "k < meta_entries img" "TagImage.entry_free img k" "\<forall>j < k. \<not> TagImage.entry_free img j" and free: "free_from img 0 \<noteq> []"
    and new: "\<forall>i < meta_entries img. \<not> has_name img i name"
    and run: "write_one_file h (section_pointers_of img) tags spec img = Ok img'"
    and v: "volume_mounted dev C fuel delay flush d0 img' st" and p: "str_length kpath < 24"
    and a: "lookup_areas kpath (unat (tfs_sector_buffer st)) file_meta"
    and n: "bytes_at (tfs_mem st) (str_data kpath) (str_length kpath) = name"
  shows "\<exists>st'. tfs_get_file_attributes (ata_read_sector dev C fuel IDE_BUS_PRIM 0) kpath file_meta st = Ok (True, st')
    \<and> ld32 (tfs_mem st') file_meta = of_nat (hd (claimed_sectors img src))
    \<and> ld32 (tfs_mem st') (file_meta + 4) = of_nat (min (length src) (length (claimed_sectors img src) * 512))
    \<and> fat_chain img' (claimed_sectors img src)
    \<and> take (length src) (chain_bytes img' (claimed_sectors img src)) = take (length (claimed_sectors img src) * 512) src"
proof -
  have wf: "img_wf img" and len: "length name < 24" using w spec(3) by (simp_all add: tags_wf_def is_tagfs_file_def)
  from write_one_file_spec [OF w spec tags k free] run
  have fw: "file_written img img' k name (claimed_sectors img src) src"
    and g: "meta_base img' = meta_base img" "meta_entries img' = meta_entries img" "sector img' = sector img" by auto
  have s: "sector img = 512" using mounted_facts(2) [OF v] g(3) by simp
  have named: "has_name img' k name" using fw by (simp add: file_written_def)
  obtain b st' where r: "tfs_get_file_attributes (ata_read_sector dev C fuel IDE_BUS_PRIM 0) kpath file_meta st = Ok (b, st')"
    "b \<longleftrightarrow> (\<exists>i < meta_entries img'. has_name img' i name)"
    "b \<longrightarrow> (\<exists>i < meta_entries img'. has_name img' i name
         \<and> (\<forall>j < 32. tfs_mem st' (file_meta + j) = imem img' (meta_base img' i + j)))"
    using kernel_lookup [OF v p a n] by blast
  from r(2) named k(1) g(2) have b: "b" by auto
  with r(3) obtain i where i: "i < meta_entries img" "has_name img' i name"
    "\<forall>j < 32. tfs_mem st' (file_meta + j) = imem img' (meta_base img i + j)" by (auto simp: g)
  have ik: "i = k" by (rule written_name_unique [OF wf fw k(1) len new g(1) i(1,2)])
  have "ld32 (tfs_mem st') file_meta = TagImage.entry_first img' k" "ld32 (tfs_mem st') (file_meta + 4) = TagImage.entry_size img' k"
    using loads_cong(1) [of "tfs_mem st'" file_meta "imem img'" "meta_base img k"]
      loads_cong(1) [of "tfs_mem st'" "file_meta + 4" "imem img'" "meta_base img k + 4"] i(3)
    by (simp_all add: ik TagImage.entry_first_def TagImage.entry_size_def g(1) add.assoc)
  with r(1) b fw s show ?thesis by (auto simp: file_written_def)
qed

section \<open>Properties\<close>

text \<open>An empty volume with sectors of 512 bytes, one sector per section, and a drive that holds an image.\<close>

definition empty_volume :: image where
  "empty_volume = \<lparr>imem = st32 (st32 (st32 (st32 (st32 (\<lambda>x. 0) 12 512) 16 1) 20 1) 24 1) 28 1, ilen = 133632\<rparr>"

definition volume_drive :: "image \<Rightarrow> drive" where
  "volume_drive img = example_drives\<lparr>sectors := (\<lambda>u l k. ld16 (imem img) (512 * unat l + 2 * k))\<rparr>"

definition volume_state :: "u8 \<Rightarrow> image \<Rightarrow> (pfa_state, hw) tfs_state" where
  "volume_state c img = (example_tfs c)\<lparr>tfs_fs_meta := volume_metadata (imem img)\<rparr>"

lemma empty_volume_wf:
  "tags_wf empty_volume" "sector empty_volume = 512" "meta_entries empty_volume = 16" "fat_entries empty_volume = 256"
  "fat_base empty_volume = 2048" "meta_base empty_volume k = 512 + 32 * k" "file_sectors empty_volume = 1"
  "36 \<le> x \<Longrightarrow> imem empty_volume x = 0"
proof -
  have m: "m_sector_size empty_volume = 512" "m_file_meta_sector_count empty_volume = 1"
    "m_tag_meta_sector_count empty_volume = 1" "m_tag_file_sector_count empty_volume = 1" "m_fat_sector_count empty_volume = 1"
    by (simp_all add: empty_volume_def m_sector_size_def m_file_meta_sector_count_def
        m_tag_meta_sector_count_def m_tag_file_sector_count_def m_fat_sector_count_def cell32.ld_st cell32.ld_st_disjoint)
  show g: "sector empty_volume = 512" "meta_entries empty_volume = 16" "fat_entries empty_volume = 256"
    "fat_base empty_volume = 2048" "meta_base empty_volume k = 512 + 32 * k" "file_sectors empty_volume = 1"
    by (simp_all add: m sector_def fat_base_def fat_entries_def meta_entries_def meta_base_def file_sectors_def)
  have "sections empty_volume = 5" "tag_entries empty_volume = 16"
    by (simp_all add: m g(1) sections_def tag_entries_def)
  moreover have "ilen empty_volume = 133632" by (simp add: empty_volume_def)
  ultimately show "tags_wf empty_volume" by (simp add: tags_wf_def img_wf_def g)
  show "36 \<le> x \<Longrightarrow> imem empty_volume x = 0" by (simp add: empty_volume_def cell32.st_frame)
qed

lemma empty_volume_empty:
  "entry_free_at k" if "entry_free_at = TagImage.entry_free empty_volume" for k entry_free_at
  using that by (simp add: TagImage.entry_free_def empty_volume_wf)

lemma empty_volume_fresh:
  "has_name empty_volume i [0x41] = False" "hd (free_from empty_volume 0) = 0" "free_from empty_volume 0 \<noteq> []"
proof -
  show "has_name empty_volume i [0x41] = False"
    by (simp add: has_name_def empty_volume_wf bytes_at_def)
  have "fat_entry empty_volume 0 = 0" unfolding fat_entry_def ld16_def by (simp add: empty_volume_wf)
  then have "free_from empty_volume 0 = 0 # free_from empty_volume 1"
    by (subst free_from_rec) (simp add: empty_volume_wf)
  then show "hd (free_from empty_volume 0) = 0" "free_from empty_volume 0 \<noteq> []" by simp_all
qed

lemma volume_drive_bytes:
  "sector_byte (sectors (volume_drive img) u l) j = imem img (512 * unat l + j)"
  by (simp add: volume_drive_def sector_byte_ld16)

lemma volume_drive_holds:
  assumes "sector img = 512" and "img_wf img"
  shows "holds_image (\<lambda>l. sector_byte (sectors (volume_drive img) u l)) img (1 + file_sectors img)"
proof -
  have "sections img * 512 < 2 ^ 32" "1 + file_sectors img \<le> sections img"
    using assms by (auto simp: img_wf_def file_sectors_def sections_def)
  then show ?thesis by (simp add: holds_image_def volume_drive_bytes unat_of_nat_u32)
qed

lemma volume_state_mounted:
  assumes "sector img = 512" and "img_wf img"
  shows "volume_mounted (drive_device 0x1F0 3 2 (volume_drive img)) legacy_channels 5 3 2 (volume_drive img) img (volume_state c img)"
proof -
  have "tfs_sectors legacy_channels 3 2 (volume_drive img) (volume_state c img) = (\<lambda>l. sector_byte (sectors (volume_drive img) False l))"
    by (rule ext) (simp add: sector_of_def drive_at_def drive_after_def volume_state_def example_tfs_def hw_start_def)
  moreover have "m_sector_size img = 512"
  proof -
    have "m_sector_size img = of_nat 512" by (rule word_unat_eq_iff [THEN iffD2]) (use assms(1) in \<open>simp add: sector_def\<close>)
    then show ?thesis by simp
  qed
  moreover have "unat (m_file_meta_sector_count img) \<le> 0x7FFFFF"
  proof -
    have "sections img * 512 < 2 ^ 32" "file_sectors img < sections img"
      using assms by (auto simp: img_wf_def file_sectors_def sections_def)
    then show ?thesis by (simp add: file_sectors_def)
  qed
  moreover have "ata_ready (drive_device 0x1F0 3 2 (volume_drive img)) legacy_channels 5 IDE_BUS_PRIM 0 3 2 (volume_drive img) hw_start"
    using drive_device_channel [of 3 2 "volume_drive img"]
    by (simp add: ata_ready_def drive_at_def drive_after_def hw_start_def volume_drive_def example_drives_def blank_drive_def)
  ultimately show ?thesis
    using volume_drive_holds [OF assms, of False] assms
    by (simp add: volume_mounted_def tfs_ready_def volume_state_def example_tfs_def volume_metadata_def fs_metadata_at_def
        m_sector_size_def m_file_meta_sector_count_def)
qed

lemma volume_state_areas:
  "lookup_areas example_path (unat (tfs_sector_buffer (volume_state c img))) 0x2000"
  "bytes_at (tfs_mem (volume_state c img)) (str_data example_path) (str_length example_path) = [c]"
  using example_tfs_areas(1,3) [of c] by (simp_all add: volume_state_def)

text \<open>
  (C14) The kernel and the host agree on which files there are. On a drive that holds a well-formed image with sectors of 512 bytes, the kernel's
  lookup succeeds exactly when the search of the host tools returns a file number; and when no two
  entries have the name, the record it fills is the entry of that number.
\<close>

theorem kernel_host_lookup_agree:
  assumes "volume_mounted dev C fuel delay flush d0 img st" and "str_length path < 24"
    and "lookup_areas path (unat (tfs_sector_buffer st)) file_meta"
    and "bytes_at (tfs_mem st) (str_data path) (str_length path) = name"
  shows "\<exists>b st' file_id. tfs_get_file_attributes (ata_read_sector dev C fuel IDE_BUS_PRIM 0) path file_meta st = Ok (b, st')
    \<and> get_file_id_from_name img (get_file_metadata img) name = Ok file_id \<and> (b \<longleftrightarrow> file_id \<noteq> 0)
    \<and> (b \<and> (\<forall>i < meta_entries img. \<forall>i' < meta_entries img. has_name img i name \<and> has_name img i' name \<longrightarrow> i = i') \<longrightarrow>
        (\<forall>j < 32. tfs_mem st' (file_meta + j) = imem img (meta_base img (unat file_id - 1) + j)))"
proof -
  have w: "img_wf img" using assms(1) by (simp add: volume_mounted_def)
  have len: "length name < 24" using assms(2,4) by auto
  obtain b st' where k: "tfs_get_file_attributes (ata_read_sector dev C fuel IDE_BUS_PRIM 0) path file_meta st = Ok (b, st')"
    "b \<longleftrightarrow> (\<exists>i < meta_entries img. has_name img i name)"
    "b \<longrightarrow> (\<exists>i < meta_entries img. has_name img i name
         \<and> (\<forall>j < 32. tfs_mem st' (file_meta + j) = imem img (meta_base img i + j)))"
    using kernel_lookup [OF assms] by blast
  show ?thesis
  proof (rule lookup_cases [OF w len])
    fix i assume i: "i < meta_entries img" "has_name img i name"
      "get_file_id_from_name img (get_file_metadata img) name = Ok (of_nat (i + 1))" "unat (of_nat (i + 1) :: u16) = i + 1"
    then have "(of_nat (i + 1) :: u16) \<noteq> 0" by (metis add_is_0 unat_0 zero_neq_one)
    then show ?thesis
      using k i by (intro exI [of _ b] exI [of _ st'] exI [of _ "of_nat (i + 1)"]) (auto simp del: of_nat_Suc of_nat_add)
  next
    assume "\<forall>j < meta_entries img. \<not> has_name img j name" "get_file_id_from_name img (get_file_metadata img) name = Ok 0"
    then show ?thesis using k by (intro exI [of _ b] exI [of _ st'] exI [of _ 0]) auto
  qed
qed

theorem kernel_host_lookup_agree_witness:
  "\<exists>st'. tfs_get_file_attributes (ata_read_sector (drive_device 0x1F0 3 2 (volume_drive empty_volume)) legacy_channels 5 0 0)
      example_path 0x2000 (volume_state 0x41 empty_volume) = Ok (False, st')
    \<and> get_file_id_from_name empty_volume (get_file_metadata empty_volume) [0x41] = Ok 0"
proof -
  have wf: "img_wf empty_volume" using empty_volume_wf(1) by (simp add: tags_wf_def)
  note m = volume_state_mounted [OF empty_volume_wf(2) wf, where c = "0x41"]
  have none: "get_file_id_from_name empty_volume (get_file_metadata empty_volume) [0x41] = Ok 0"
    by (rule lookup_cases [OF wf, of "[0x41]"]) (simp_all add: empty_volume_fresh(1))
  show ?thesis
    using kernel_host_lookup_agree [OF m example_tfs_areas(2) volume_state_areas] none by auto
qed





end
