(* ===== verification/Spec2Isabelle.thy ===== *)
theory Spec2Isabelle
  imports CMem Terminal Ports Io Interrupts PageFrame Heap Ata Tfs TagImage FuseDriver Boot Kernel KernelMain
    Flags Tfsfmt Formatting Tagging FileWriting FilesKept WriteFiles FuseSession Volume
begin

text \<open>
  OSForReal: a 32-bit x86 kernel (under \<open>src/src\<close>) and the host tools of its file system TagFS (under
  \<open>src/tagfs\<close>). This development models the parts of both that carry logic of their own, and proves what
  makes each part correct, or how it goes wrong.

  \<^bold>\<open>The program.\<close> \<open>boot.s\<close> calls \<open>bootstrap\<close>, which loads flat segments, fills three page tables, turns
  paging on and calls \<open>kernel_main\<close>. \<open>kernel_init\<close> starts the text terminal, the serial line, the
  interrupt tables, the page frame allocator, the heap, the PCI scan with the IDE driver, and the TagFS
  driver, in this order, and asserts that each of them reports success; \<open>kernel_main\<close> then reports what it found and uses the file system. Every print goes through \<open>put_char\<close>
  to the terminal and the serial line. The heap gets its pages from the page frame allocator through
  \<open>pfa_commit_page\<close>. On the host, \<open>tfsfmt\<close> formats a TagFS image and writes files and tags into it, and a FUSE driver
  serves its files; both read the layout of the mapped image through \<open>utils.c\<close>. The kernel reads the same layout from its disk.

  \<^bold>\<open>Conventions.\<close> (\<open>Prelude\<close>) A C integer is a word of its width, and arithmetic on it wraps. An
  operation returns an \<open>outcome\<close>: \<open>Ok\<close> a result; \<open>Halted\<close> after a failed \<open>assert\<close>, which stops the
  processor; \<open>Fault\<close> for an access that C leaves undefined (past a buffer, past the argument slots, outside
  an image); \<open>Diverged\<close> when a loop does not end or its fuel runs out. State is a record passed and
  returned. What is not in the repository is a parameter: the devices behind the ports (\<open>device\<close>, a function
  of the whole history of accesses), the addresses the linker chooses (\<open>link_map\<close>, \<open>boot_link\<close>, the stub
  addresses), and the contents of memory and of the image.

  \<^bold>\<open>Theories, in the order of their dependencies.\<close>

  \<^item> \<open>CMem\<close>: memory as bytes, loads and stores, \<open>memory_fill\<close>, \<open>memory_zero\<close>, \<open>memory_copy\<close> and
    \<open>memory_compare\<close> of \<open>std/memory.c\<close>, \<open>std/string.c\<close>. The locale \<open>cell_store\<close> is the contract of a load and a
    store of one width, interpreted at 1, 2 and 4 bytes. Shown: a copy between disjoint areas is exact and
    changes nothing else, string equality is decided.
  \<^item> \<open>Terminal\<close>: \<open>hal/vga.c\<close> and \<open>std/terminal.c\<close>. The video memory has no bound in the model, so that
    staying on the screen is a theorem. Shown: the terminal refines an abstract screen of 25 rows.
  \<^item> \<open>Ports\<close>: \<open>instructions.c\<close>, \<open>hal/serial.c\<close>, \<open>hal/pic.c\<close>, register access of \<open>hal/pci.c\<close>. Shown: PCI
    addresses decode, and \<open>serial_write\<close> ends when the line becomes ready within the fuel.
  \<^item> \<open>Io\<close>: \<open>std/io.c\<close>, with the i386 argument slots and the digit buffers at their sizes. The locale
    \<open>digit_loop\<close> is the contract of a digit buffer, interpreted for the decimal and the hexadecimal one.
    Shown: terminal and serial line see the same characters, numbers print so that they read back, and 20-digit
    numbers overrun the buffer.
  \<^item> \<open>Interrupts\<close>: \<open>interrupts.c\<close>, \<open>interrupts_def.h\<close> and the frame that \<open>asm_stubs.s\<close> pushes. Shown: all
    256 gates and default handlers are installed, a registered handler is the one called, an exception halts,
    and what the two stubs leave in the frame.
  \<^item> \<open>PageFrame\<close>: \<open>kernel/page_frame_allocator.c\<close>. \<open>mmu_walk\<close> is the processor's translation, \<open>pfa_reachable\<close>
    the states that commits and resets reach, \<open>pfa_inv\<close> the invariant that ties directory, tables and bitmap
    together. Shown: a commit maps one page and moves no other, no frame is shared, a reset releases exactly what
    was mapped, the memory map is marked exactly, and two ways in which frames are mishandled at the ends of the
    address space.
  \<^item> \<open>Heap\<close>: \<open>memory_init\<close>, \<open>memory_allocate\<close>, \<open>memory_free\<close>, \<open>memory_free_all\<close> of \<open>std/memory.c\<close>, on the
    bytes of memory that hold the free list. \<open>heap_ok\<close> relates them to a sorted list of segments, on which \<open>first_fit\<close>
    and \<open>insert_free\<close> are the abstract operations. The locale \<open>page_provider\<close> is the contract of
    \<open>pfa_commit_page\<close>; it is interpreted on the page frame allocator. Shown: allocation is sound and first
    fit, freeing below the last free segment inserts and merges, the round trip, and five ways the allocator fails.
  \<^item> \<open>Ata\<close>: \<open>hal/ata.c\<close> and \<open>pci_init\<close>. A \<open>drive\<close> is the reference for the other end of the ports: it
    accepts commands, identifies itself and moves one sector of 256 words at a time, by \<open>drive_step\<close>. The
    locale \<open>sector_disk\<close> is the contract of the two transfers, interpreted on the driver's own. Shown: a written
    sector reads back and no other changes, identification fills the drive table from a drive's identity, a
    controller in native mode on the secondary channel is refused, and a transfer right after a write hangs.
  \<^item> \<open>Tfs\<close>: \<open>kernel/fs/tagfs.c\<close>, over the sector transfers of \<open>Ata\<close> and with its buffers in the heap and
    stack of one memory. Shown: the search for a file by name, creation followed by search, which file a creation
    overwrites, and a read of the file allocation table that runs past its buffer.
  \<^item> \<open>TagImage\<close>: \<open>tagfs/utils.c\<close> on a mapped image. \<open>img_wf\<close> says that the sections lie one after the other inside the image. The
    locale \<open>first_match\<close> is the contract of the linear searches; here it is interpreted for names and FAT entries.
  \<^item> \<open>FuseDriver\<close>: the six callbacks of \<open>tagfs/FUSE_driver/src/tagfs.c\<close>, with two more interpretations of
    \<open>first_match\<close>. Shown: what a write inside a sector leaves for a read, creation, removal, and
    three ways in which files of several sectors and reads past the end go wrong.
  \<^item> \<open>Boot\<close>: \<open>boot/gdt.c\<close> and \<open>boot/bootstrap.c\<close>. Shown: what the first page tables translate, the flat
    segments, and that the loader's memory map reaches the kernel unchanged.
  \<^item> \<open>Kernel\<close>: \<open>kernel_init\<close>, all of it, on one memory and one history of ports. The theory interprets
    \<open>page_provider\<close> once more, with a set of frames that are never handed out, follows the frames that the
    memory map reserves from \<open>bootstrap\<close> to the first allocation, and shows that \<open>kernel_init\<close> succeeds on a machine
    with a loaded memory map and a formatted drive.
  \<^item> \<open>KernelMain\<close>: \<open>kernel_main\<close>, all of it: the report and the session with the file system. \<open>prints\<close> is code that always
    returns and sends the same text to screen and serial line. Shown: the report lists the memory map that the loader gave.
  \<^item> \<open>Flags\<close>: \<open>tagfs/tfsfmt/src/flags.c\<close>. A flag holds the address of the variable it sets, in one of three stores. Its lemmas
    give the effect of one option, of a list of options with decimal values, and of an option without a value.
  \<^item> \<open>Tfsfmt\<close>: \<open>tagfs/tfsfmt/src/tfsfmt.c\<close>, definitions only: \<open>tfsfmt\<close> is \<open>main\<close>, from the words of the command line and a record of
    the host's files to the exit code and the host afterwards.
  \<^item> \<open>Formatting\<close>: the subcommand \<open>format\<close>. Shown: the options mean what was printed, the image is well formed and
    empty, an option without a value faults, and \<open>write-tag\<close> after \<open>format\<close> runs out of the image.
  \<^item> \<open>Tagging\<close>: \<open>find_or_create_tag\<close>, \<open>link_tag_to_file\<close> and the loop over the tags of a file, against the set \<open>links\<close> of pairs of
    tag and file; one more interpretation of \<open>first_match\<close> covers all of the program's searches with a test.
  \<^item> \<open>FileWriting\<close>: one file of \<open>write-files\<close>. \<open>fat_chain\<close> and \<open>chain_bytes\<close> describe a chain of sectors and what it
    holds. Shown: the chain that \<open>copy_sectors\<close> builds holds the file, and the FUSE driver reads it back.
  \<^item> \<open>FilesKept\<close>: the loop of \<open>write-files\<close> on any well-formed image and for any files. Shown: it returns, and keeps
    what was there.
  \<^item> \<open>WriteFiles\<close>: the subcommand from the command line on. Shown: format, write, read gives the file; and
    the search that hangs on an image with too many entries.
  \<^item> \<open>FuseSession\<close>: \<open>myfs_ops\<close> and \<open>main\<close> of the FUSE driver. \<open>driver_wf\<close> is the type of an image in service, \<open>fuse_reachable\<close>
    the images that calls through the table reach. Shown: every call keeps the type and returns, and a formatted image
    has it. \<open>call_ok\<close> leaves out the calls that go wrong: a read beyond a sector and the removal of a missing file.
  \<^item> \<open>Volume\<close>: an image on the kernel's drive. Shown: the kernel boots from it, kernel and host find the same files, and the kernel finds
    what \<open>write-files\<close> stored.

  \<^bold>\<open>Fuel and bounds.\<close> Loops bounded by a counter recur on that counter. The loops over addresses of
  \<open>pfa_init\<close> and \<open>bootstrap\<close> end by a measure and return \<open>Diverged\<close> when the address would wrap. Loops
  that follow pointers or poll a device take fuel, one unit for each round: \<open>memory_allocate\<close> needs more than the
  number of free segments plus the pages of the block plus 3, \<open>memory_free\<close> more than the number of free
  segments plus 1, the FAT loop of \<open>tagfs_unlink\<close> one for each sector, \<open>serial_write\<close> one for each poll, a wait of the disk driver more than the reads for which the drive
  stays busy plus 1, the walk over the loader's memory map one for each entry. Theorems
  about success state the fuel that is enough; theorems about a loop that never ends hold for every fuel. The
  \<open>uint16_t\<close> searches of the formatter return \<open>Diverged\<close> when the counter would wrap. \<open>skip_free_tags\<close> and \<open>copy_sectors\<close> end by
  a measure.

  \<^bold>\<open>Not modelled.\<close> The
  assembly that loads \<open>gdtr\<close>, \<open>idtr\<close> and \<open>cr3\<close> has no state of its own here beyond the values it is given. libfuse, which \<open>main\<close> of the FUSE
  driver enters, is vendored; it is any sequence of calls of the driver's table. The messages of \<open>tfsfmt\<close>, its usage text and \<open>flags_print_help\<close> only
  print. On the host, a mapping has the length that was asked for and no pages, and the source files are not the image. The test programs are not
  part of the system.
\<close>

end
